(* ===== verification/Prelude.thy ===== *)
theory Prelude
  imports Main "HOL-Library.Word" "HOL-Library.List_Lexorder"
begin

text \<open>
  Shared vocabulary of the development: machine integers, byte strings, the error-propagation
  combinator that stands for Rust's \<open>?\<close>, slices and the in-place byte move
  \<open>copy_within\<close>, insertion and removal at a position, and the lemma collections the component
  theories add to.
\<close>

unbundle bit_operations_syntax

type_synonym u8 = "8 word"
type_synonym u16 = "16 word"
type_synonym u32 = "32 word"
type_synonym u64 = "64 word"
type_synonym bytes = "u8 list"

named_theorems codec_simps
named_theorems handler_defs
named_theorems result_simps

section \<open>Results\<close>

text \<open>
  \<open>Inl\<close> is an early return with an error, \<open>Inr\<close> a value. \<open>and_then r f\<close> is the source's
  \<open>let x = r?; f x\<close>.
\<close>

definition and_then :: "'e + 'a \<Rightarrow> ('a \<Rightarrow> 'e + 'b) \<Rightarrow> 'e + 'b" where
  "and_then r f = (case r of Inl e \<Rightarrow> Inl e | Inr x \<Rightarrow> f x)"

lemma and_then_simps [simp]:
  "and_then (Inl e) f = Inl e"
  "and_then (Inr x) f = f x"
  by (simp_all add: and_then_def)

lemma and_then_Inr [result_simps]:
  "and_then r f = Inr y \<longleftrightarrow> (\<exists>x. r = Inr x \<and> f x = Inr y)"
  by (cases r) simp_all

lemma and_then_Inl [result_simps]:
  "and_then r f = Inl e \<longleftrightarrow> r = Inl e \<or> (\<exists>x. r = Inr x \<and> f x = Inl e)"
  by (cases r) simp_all

lemma and_then_cong [fundef_cong]:
  "r = r' \<Longrightarrow> (\<And>x. r' = Inr x \<Longrightarrow> f x = g x) \<Longrightarrow> and_then r f = and_then r' g"
  by (cases r') simp_all

lemma if_Inl_eq_Inr [result_simps]:
  "((if b then Inl e else r) = Inr y) \<longleftrightarrow> \<not> b \<and> r = Inr y"
  by simp

lemma if_Inr_eq_Inr [result_simps]:
  "((if b then r else Inl e) = Inr y) \<longleftrightarrow> b \<and> r = Inr y"
  by simp

lemma unit_eq: "(\<exists>u :: unit. P u) \<longleftrightarrow> P ()"
  by (metis (full_types) old.unit.exhaust)

section \<open>Slices\<close>

definition slice :: "nat \<Rightarrow> nat \<Rightarrow> 'a list \<Rightarrow> 'a list" where
  "slice i n xs = take n (drop i xs)"

lemma length_slice [simp]: "length (slice i n xs) = min n (length xs - i)"
  by (simp add: slice_def)

lemma slice_append_slice:
  "j = i + m \<Longrightarrow> slice i m xs @ slice j n xs = slice i (m + n) xs"
  by (simp add: slice_def take_add add.commute)

lemma slice_append_slice_rest:
  "j = i + m \<Longrightarrow> slice i m xs @ slice j n xs @ ys = slice i (m + n) xs @ ys"
  by (simp add: slice_append_slice flip: append_assoc)

lemmas slice_join = slice_append_slice slice_append_slice_rest

lemma slice_all [simp]: "length xs \<le> n \<Longrightarrow> slice 0 n xs = xs"
  by (simp add: slice_def)

lemma slice_skip [simp]: "length xs \<le> i \<Longrightarrow> slice i n (xs @ ys) = slice (i - length xs) n ys"
  by (simp add: slice_def)

lemma slice_front [simp]: "i + n \<le> length xs \<Longrightarrow> slice i n (xs @ ys) = slice i n xs"
  by (simp add: slice_def)

lemma slice_exact [simp]: "length xs = n \<Longrightarrow> slice 0 n (xs @ ys) = xs"
  by (simp add: slice_def)

section \<open>Insertion and removal at a position\<close>

definition insert_at :: "nat \<Rightarrow> 'a \<Rightarrow> 'a list \<Rightarrow> 'a list" where
  "insert_at i x xs = take i xs @ x # drop i xs"

definition remove_at :: "nat \<Rightarrow> 'a list \<Rightarrow> 'a list" where
  "remove_at i xs = take i xs @ drop (Suc i) xs"

lemma length_insert_at [simp]: "i \<le> length xs \<Longrightarrow> length (insert_at i x xs) = Suc (length xs)"
  by (simp add: insert_at_def)

lemma length_remove_at [simp]: "i < length xs \<Longrightarrow> length (remove_at i xs) = length xs - 1"
  by (simp add: remove_at_def)

lemma set_insert_at [simp]: "set (insert_at i x xs) = insert x (set xs)"
proof -
  have "set (take i xs) \<union> set (drop i xs) = set xs"
    by (metis append_take_drop_id set_append)
  then show ?thesis by (auto simp: insert_at_def)
qed

lemma nth_insert_at:
  "i \<le> length xs \<Longrightarrow> k \<le> length xs \<Longrightarrow>
   insert_at i x xs ! k = (if k < i then xs ! k else if k = i then x else xs ! (k - 1))"
  by (auto simp: insert_at_def nth_append nth_Cons' min_def)

lemma nth_remove_at:
  "i < length xs \<Longrightarrow> k < length xs - 1 \<Longrightarrow>
   remove_at i xs ! k = (if k < i then xs ! k else xs ! Suc k)"
  by (auto simp: remove_at_def nth_append min_def)

lemma remove_insert_at [simp]: "i \<le> length xs \<Longrightarrow> remove_at i (insert_at i x xs) = xs"
  by (simp add: remove_at_def insert_at_def)

lemma insert_remove_at: "i < length xs \<Longrightarrow> insert_at i (xs ! i) (remove_at i xs) = xs"
  by (simp add: remove_at_def insert_at_def min_def Cons_nth_drop_Suc)

lemma distinct_remove_at: "distinct xs \<Longrightarrow> i < length xs \<Longrightarrow> xs ! i \<notin> set (remove_at i xs)"
proof -
  assume "distinct xs" "i < length xs"
  then have "distinct (take i xs @ xs ! i # drop (Suc i) xs)" by (metis id_take_nth_drop)
  then show ?thesis by (simp add: remove_at_def)
qed

lemma length_filter_insert_at:
  "length (filter P (insert_at i x xs)) = (if P x then 1 else 0) + length (filter P xs)"
proof -
  have "length (filter P xs) = length (filter P (take i xs)) + length (filter P (drop i xs))"
    by (metis append_take_drop_id filter_append length_append)
  then show ?thesis by (simp add: insert_at_def)
qed

lemma length_filter_remove_at:
  assumes "i < length xs"
  shows "length (filter P xs) = (if P (xs ! i) then 1 else 0) + length (filter P (remove_at i xs))"
  using length_filter_insert_at [of P i "xs ! i" "remove_at i xs"] assms
  by (simp add: insert_remove_at)

lemma length_filter_update:
  assumes "i < length xs"
  shows "length (filter P (xs[i := y])) + (if P (xs ! i) then 1 else 0)
       = length (filter P xs) + (if P y then 1 else 0)"
proof -
  have "xs[i := y] = insert_at i y (remove_at i xs)"
    using assms by (simp add: upd_conv_take_nth_drop insert_at_def remove_at_def min_def)
  then show ?thesis
    using length_filter_remove_at [OF assms, of P]
    by (simp add: length_filter_insert_at)
qed

section \<open>Strictly ascending lists\<close>

definition ascending :: "'a::linorder list \<Rightarrow> bool" where
  "ascending xs \<longleftrightarrow> sorted_wrt (<) xs"

lemma ascending_iff_nth_less:
  "ascending xs \<longleftrightarrow> (\<forall>i j. i < j \<longrightarrow> j < length xs \<longrightarrow> xs ! i < xs ! j)"
  by (simp add: ascending_def sorted_wrt_iff_nth_less)

lemma ascending_iff_Suc:
  "ascending xs \<longleftrightarrow> (\<forall>i. Suc i < length xs \<longrightarrow> xs ! i < xs ! Suc i)"
  by (simp add: ascending_def sorted_wrt_iff_nth_Suc_transp)

lemma ascending_distinct: "ascending xs \<Longrightarrow> distinct xs"
  using strict_sorted_iff by (auto simp: ascending_def)

lemma ascending_remove_at: "ascending xs \<Longrightarrow> ascending (remove_at i xs)"
proof -
  assume "ascending xs"
  then have "sorted_wrt (<) (take i xs @ drop i xs)" by (simp add: ascending_def)
  then show ?thesis
    by (cases "drop i xs")
       (auto simp: ascending_def remove_at_def sorted_wrt_append drop_Suc
             simp flip: tl_drop)
qed

lemma ascending_insert_at:
  assumes "ascending xs" "\<forall>y \<in> set (take i xs). y < x" "\<forall>y \<in> set (drop i xs). x < y"
  shows "ascending (insert_at i x xs)"
proof -
  from assms(1) have "sorted_wrt (<) (take i xs @ drop i xs)" by (simp add: ascending_def)
  with assms(2,3) show ?thesis
    by (auto simp: ascending_def insert_at_def sorted_wrt_append dest: less_trans)
qed

end
