(* ===== verification/Bytes.thy ===== *)
theory Bytes
  imports Prelude
begin

text \<open>
  Byte-level encodings: little-endian words (\<open>to_le_bytes\<close>, \<open>from_le_bytes\<close>), Rust's
  checked and saturating arithmetic, \<open>copy_within\<close>, and the locale \<open>codec\<close> of a
  fixed-width encoding with both round-trip laws, from which the lemmas on arrays of encoded
  elements follow once for every element type.
\<close>

section \<open>Little-endian words\<close>

definition to_le_bytes :: "nat \<Rightarrow> 'a::len word \<Rightarrow> bytes" where
  "to_le_bytes n w = map (\<lambda>i. ucast (drop_bit (8 * i) w)) [0..<n]"

fun from_le_bytes :: "bytes \<Rightarrow> 'a::len word" where
  "from_le_bytes [] = 0"
| "from_le_bytes (b # bs) = ucast b OR push_bit 8 (from_le_bytes bs)"

lemma length_to_le_bytes [simp]: "length (to_le_bytes n w) = n"
  by (simp add: to_le_bytes_def)

lemma bit_from_le_bytes:
  "bit (from_le_bytes bs :: 'a::len word) k \<longleftrightarrow>
     k < LENGTH('a) \<and> k div 8 < length bs \<and> bit (bs ! (k div 8)) (k mod 8)"
proof (induction bs arbitrary: k)
  case Nil
  then show ?case by simp
next
  case (Cons b bs)
  show ?case
  proof (cases "k < 8")
    case True
    then show ?thesis
      by (auto simp: bit_or_iff bit_push_bit_iff bit_ucast_iff)
  next
    case False
    then have "k div 8 = Suc ((k - 8) div 8)" and "(k - 8) mod 8 = k mod 8"
      by (simp_all add: le_div_geq le_mod_geq)
    then show ?thesis
      using False Cons.IH [of "k - 8"] bit_imp_le_length [of b k]
      by (auto simp: bit_or_iff bit_push_bit_iff bit_ucast_iff)
  qed
qed

lemma from_to_le_bytes:
  fixes w :: "'a::len word"
  assumes "LENGTH('a) = 8 * n"
  shows "from_le_bytes (to_le_bytes n w) = w"
proof (rule bit_word_eqI)
  fix k
  assume "k < LENGTH('a)"
  then have "k div 8 < n" using assms by auto
  then show "bit (from_le_bytes (to_le_bytes n w) :: 'a word) k = bit w k"
    using \<open>k < LENGTH('a)\<close>
    by (simp add: bit_from_le_bytes to_le_bytes_def bit_ucast_iff bit_drop_bit_eq)
qed

lemma to_from_le_bytes:
  assumes "LENGTH('a::len) = 8 * n" and "length bs = n"
  shows "to_le_bytes n (from_le_bytes bs :: 'a word) = bs"
proof (rule nth_equalityI)
  show "length (to_le_bytes n (from_le_bytes bs :: 'a word)) = length bs"
    using assms by simp
next
  fix i
  assume "i < length (to_le_bytes n (from_le_bytes bs :: 'a word))"
  then have i: "i < n" by simp
  show "to_le_bytes n (from_le_bytes bs :: 'a word) ! i = bs ! i"
  proof (rule bit_word_eqI)
    fix k
    assume "k < LENGTH(8)"
    then have k: "k < 8" by simp
    then have "(8 * i + k) div 8 = i" and "(8 * i + k) mod 8 = k" by simp_all
    with i k assms show "bit (to_le_bytes n (from_le_bytes bs :: 'a word) ! i) k = bit (bs ! i) k"
      by (simp add: to_le_bytes_def bit_ucast_iff bit_drop_bit_eq bit_from_le_bytes)
  qed
qed

section \<open>Checked and saturating arithmetic\<close>

definition checked_add :: "'a::len word \<Rightarrow> 'a word \<Rightarrow> 'a word option" where
  "checked_add a b = (if unat a + unat b < 2 ^ LENGTH('a) then Some (a + b) else None)"

definition saturating_sub :: "'a::len word \<Rightarrow> 'a word \<Rightarrow> 'a word" where
  "saturating_sub a b = (if b \<le> a then a - b else 0)"

text \<open>\<open>i64::checked_sub\<close>: \<open>None\<close> when the difference leaves the signed range.\<close>

definition checked_sub_signed :: "'a::len word \<Rightarrow> 'a word \<Rightarrow> 'a word option" where
  "checked_sub_signed a b =
     (let d = sint a - sint b in
      if - (2 ^ (LENGTH('a) - 1)) \<le> d \<and> d < 2 ^ (LENGTH('a) - 1) then Some (a - b) else None)"

lemma unat_less: "unat w < 2 ^ LENGTH('a)" for w :: "'a::len word"
  by (rule unsigned_less)

lemma checked_add_Some: "checked_add a b = Some c \<Longrightarrow> unat c = unat a + unat b"
  by (auto simp: checked_add_def unat_word_ariths split: if_splits)

lemma unat_add_1: "w \<noteq> - 1 \<Longrightarrow> unat (w + 1) = Suc (unat w)" for w :: "'a::len word"
  by (metis Suc_eq_plus1 add.commute unatSuc add_eq_0_iff)

lemma unat_add_1_less: "unat w < k \<Longrightarrow> k < 2 ^ LENGTH('a) \<Longrightarrow> unat (w + 1) = Suc (unat w)"
  for w :: "'a::len word"
  by (simp add: unat_word_ariths)

lemma unat_sub_1: "w \<noteq> 0 \<Longrightarrow> unat (w - 1) = unat w - 1" for w :: "'a::len word"
  by (metis unat_minus_one)

lemma unat_saturating_sub: "unat (saturating_sub a b) = unat a - unat b"
  by (simp add: saturating_sub_def unat_sub word_le_nat_alt)

section \<open>Moving bytes in place\<close>

text \<open>
  \<open>slice.copy_within(s..e, d)\<close>: \<open>None\<close> is the panic of an out-of-range call. The source range
  is read before anything is written, so overlapping ranges are safe.
\<close>

definition copy_within :: "nat \<Rightarrow> nat \<Rightarrow> nat \<Rightarrow> 'a list \<Rightarrow> 'a list option" where
  "copy_within s e d xs =
     (if s \<le> e \<and> e \<le> length xs \<and> d + (e - s) \<le> length xs
      then Some (take d xs @ slice s (e - s) xs @ drop (d + (e - s)) xs)
      else None)"

lemma length_copy_within: "copy_within s e d xs = Some ys \<Longrightarrow> length ys = length xs"
  by (auto simp: copy_within_def split: if_splits)

text \<open>Moving a part up opens a gap before it; moving it down closes the gap and leaves as many
  stale elements behind it.\<close>

lemma copy_within_up:
  assumes "k \<le> length z" "s = length x" "e = length x + length y" "d = length x + k"
  obtains gap where "length gap = k" "copy_within s e d (x @ y @ z) = Some (x @ gap @ y @ drop k z)"
proof
  show "length (take k (y @ z)) = k" using assms by simp
  show "copy_within s e d (x @ y @ z) = Some (x @ take k (y @ z) @ y @ drop k z)"
    using assms by (simp add: copy_within_def slice_def)
qed

lemma copy_within_down:
  assumes "s = length x + length y" "e = length x + length y + length z" "d = length x"
  obtains stale where "length stale = length y"
    "copy_within s e d (x @ y @ z @ w) = Some (x @ z @ stale @ w)"
proof
  show "length (drop (length z) (y @ z)) = length y" by simp
  show "copy_within s e d (x @ y @ z @ w) = Some (x @ z @ drop (length z) (y @ z) @ w)"
    using assms by (simp add: copy_within_def slice_def)
qed

section \<open>Fixed-width encodings\<close>

text \<open>
  Decoding an array of \<open>n\<close> elements of \<open>w\<close> bytes each, the reading of
  \<open>slice::from_raw_parts(ptr as *const T, n)\<close>.
\<close>

fun decode_array :: "nat \<Rightarrow> (bytes \<Rightarrow> 'a) \<Rightarrow> nat \<Rightarrow> bytes \<Rightarrow> 'a list" where
  "decode_array w dec 0 bs = []"
| "decode_array w dec (Suc n) bs = dec (take w bs) # decode_array w dec n (drop w bs)"

lemma length_decode_array [simp]: "length (decode_array w dec n bs) = n"
  by (induction n arbitrary: bs) simp_all

text \<open>The bytes of an array: its elements' encodings, in order.\<close>

definition encode_array :: "('a \<Rightarrow> bytes) \<Rightarrow> 'a list \<Rightarrow> bytes" where
  "encode_array enc xs = concat (map enc xs)"

lemma encode_array_simps [simp]:
  "encode_array enc [] = []"
  "encode_array enc (x # xs) = enc x @ encode_array enc xs"
  "encode_array enc (xs @ ys) = encode_array enc xs @ encode_array enc ys"
  by (simp_all add: encode_array_def)

locale codec =
  fixes enc :: "'a \<Rightarrow> bytes"
    and dec :: "bytes \<Rightarrow> 'a"
    and width :: nat
  assumes enc_length: "length (enc x) = width"
    and dec_enc: "dec (enc x) = x"
    and enc_dec: "length bs = width \<Longrightarrow> enc (dec bs) = bs"
begin

lemma enc_inject: "enc x = enc y \<longleftrightarrow> x = y"
  by (metis dec_enc)

lemma enc_append_inject: "enc x @ s = enc y @ t \<longleftrightarrow> x = y \<and> s = t"
  by (auto simp: enc_length enc_inject append_eq_append_conv)

lemma dec_prefix: "dec (take width (enc x @ t)) = x"
  by (simp add: enc_length dec_enc)

lemma split_encoded: "width \<le> length d \<Longrightarrow> enc (dec (take width d)) @ drop width d = d"
  by (simp add: enc_dec min_def)

lemma length_encode_array: "length (encode_array enc xs) = width * length xs"
  by (induction xs) (simp_all add: enc_length)

lemma decode_encode_array:
  "length xs = n \<Longrightarrow> decode_array width dec n (encode_array enc xs @ t) = xs"
  by (induction xs arbitrary: n) (auto simp: enc_length dec_enc)

lemma encode_decode_array:
  "length bs = width * n \<Longrightarrow> encode_array enc (decode_array width dec n bs) = bs"
proof (induction n arbitrary: bs)
  case 0
  then show ?case by simp
next
  case (Suc n)
  then have "width \<le> length bs" by simp
  with Suc show ?case by (simp add: split_encoded)
qed

lemma take_encode_array: "take (width * i) (encode_array enc xs) = encode_array enc (take i xs)"
proof (induction xs arbitrary: i)
  case Nil
  then show ?case by simp
next
  case (Cons x xs)
  then show ?case by (cases i) (simp_all add: enc_length)
qed

lemma drop_encode_array: "drop (width * i) (encode_array enc xs) = encode_array enc (drop i xs)"
proof (induction xs arbitrary: i)
  case Nil
  then show ?case by simp
next
  case (Cons x xs)
  then show ?case by (cases i) (simp_all add: enc_length)
qed

lemma slice_encode_array: "i < length xs \<Longrightarrow> slice (width * i) width (encode_array enc xs) = enc (xs ! i)"
  by (simp add: slice_def drop_encode_array enc_length flip: Cons_nth_drop_Suc)

lemma decode_array_nth:
  "k < n \<Longrightarrow> decode_array width dec n bs ! k = dec (slice (width * k) width bs)"
proof (induction n arbitrary: k bs)
  case 0
  then show ?case by simp
next
  case (Suc n)
  then show ?case by (cases k) (simp_all add: slice_def add.commute)
qed

end

lemma le_codec: "LENGTH('a::len) = 8 * n \<Longrightarrow>
  codec (to_le_bytes n :: 'a word \<Rightarrow> bytes) from_le_bytes n"
  by unfold_locales (simp_all add: from_to_le_bytes to_from_le_bytes)

interpretation le16: codec "to_le_bytes 2 :: u16 \<Rightarrow> bytes" from_le_bytes 2
  by (rule le_codec) simp

interpretation le32: codec "to_le_bytes 4 :: u32 \<Rightarrow> bytes" from_le_bytes 4
  by (rule le_codec) simp

interpretation le64: codec "to_le_bytes 8 :: u64 \<Rightarrow> bytes" from_le_bytes 8
  by (rule le_codec) simp

end
