(* ===== verification/Address.thy ===== *)
theory Address
  imports Bytes
begin

text \<open>
  The type of 32-byte arrays: \<open>Address\<close>, which the source uses for account and program
  addresses, and \<open>[u8; 32]\<close>, which it uses for a SHA-256 digest. Addresses are ordered
  lexicographically by their bytes, the order Rust derives for \<open>[u8; 32]\<close>.
\<close>

typedef address = "{bs :: bytes. length bs = 32}"
  morphisms as_array Abs_address
  by (rule exI [of _ "replicate 32 0"]) simp

setup_lifting type_definition_address

text \<open>
  \<open>Address::new_from_array\<close> on a slice of 32 bytes. The model is total; every use is on a
  slice whose length the code has checked to be 32, where it is the inverse of \<open>as_array\<close>.
\<close>

lift_definition new_from_array :: "bytes \<Rightarrow> address" is
  "\<lambda>bs :: bytes. take 32 (bs @ replicate 32 (0 :: u8))"
  by simp

text \<open>\<open>Address::default()\<close>: thirty-two zero bytes.\<close>

definition default_address :: address where
  "default_address = new_from_array (replicate 32 0)"

lemma length_as_array [simp]: "length (as_array a) = 32"
  using as_array by simp

lemma as_array_new_from_array: "length bs = 32 \<Longrightarrow> as_array (new_from_array bs) = bs"
  by transfer simp

lemma new_from_array_as_array [simp]: "new_from_array (as_array a) = a"
  by transfer simp

lemma new_from_array_inject:
  "length x = 32 \<Longrightarrow> length y = 32 \<Longrightarrow> new_from_array x = new_from_array y \<longleftrightarrow> x = y"
  by (metis as_array_new_from_array)

interpretation addr: codec as_array new_from_array 32
  by unfold_locales (simp_all add: as_array_new_from_array)

section \<open>Order and equality\<close>

instantiation address :: linorder
begin

definition less_eq_address :: "address \<Rightarrow> address \<Rightarrow> bool" where
  "less_eq_address a b \<longleftrightarrow> as_array a \<le> as_array b"

definition less_address :: "address \<Rightarrow> address \<Rightarrow> bool" where
  "less_address a b \<longleftrightarrow> as_array a < as_array b"

instance
  by standard
     (auto simp: less_eq_address_def less_address_def less_le as_array_inject)

end

instantiation address :: equal
begin

definition equal_address :: "address \<Rightarrow> address \<Rightarrow> bool" where
  "equal_address a b \<longleftrightarrow> as_array a = as_array b"

instance
  by standard (simp add: equal_address_def as_array_inject)

end

text \<open>An address whose bytes are all equal, as the tests use for their keys.\<close>

definition key :: "u8 \<Rightarrow> address" where
  "key n = new_from_array (replicate 32 n)"

lemma as_array_key [simp]: "as_array (key n) = replicate 32 n"
  by (simp add: key_def as_array_new_from_array)

lemma key_inject [simp]: "key m = key n \<longleftrightarrow> m = n"
  by (metis as_array_key length_greater_0_conv length_replicate nth_replicate zero_less_numeral)

lemma replicate_less: "0 < k \<Longrightarrow> replicate k x < replicate k y \<longleftrightarrow> x < y"
  for x y :: "'a::linorder"
  by (induction k) auto

lemma key_less [simp]: "key m < key n \<longleftrightarrow> m < n"
  by (simp add: less_address_def replicate_less)

lemma key_le [simp]: "key m \<le> key n \<longleftrightarrow> m \<le> n"
  by (simp flip: not_less)

lemma key_default: "key 0 = default_address"
  by (simp add: key_def default_address_def)

lemma key_eq_default [simp]: "key n = default_address \<longleftrightarrow> n = 0"
  by (simp flip: key_default)

end
