(* ===== verification/Errors.thy ===== *)
theory Errors
  imports Address
begin

text \<open>
  The error values of the program: \<open>MultisigError\<close> of src/error.rs with its discriminants, the
  part of \<open>ProgramError\<close> the program returns, and \<open>Panicked\<close> for an abort by a Rust panic
  (an index out of range, a failed slice). A failing instruction has no effect: the runtime
  discards every change, so a result carries a new state only when it is a success.
\<close>

datatype multisig_error =
  NotEnoughAccounts
| InvalidAccountData
| IllegalOwner
| MissingSignature
| InvalidAccount
| InvalidProgramId
| AlreadyInitialized
| InvalidInstructionData
| InvalidOwnerCount
| InvalidThreshold
| OwnersNotSorted
| NotAnOwner
| AlreadyVoted
| StaleTransaction
| InvalidStatus
| UnknownStatus
| MultisigMismatch
| AccountMismatch
| Overflow
| OwnerAlreadyExists
| UnknownConfigAction
| InvalidTimeLock
| TimeLockNotReleased
| InvalidMessage
| TooManyAccounts
| BufferIncomplete
| BufferHashMismatch
| InvalidLookupTable
| UnknownPermission
| NoVoters
| Unauthorized
| TransactionsOutstanding
| NotControlled

fun discriminant :: "multisig_error \<Rightarrow> u32" where
  "discriminant NotEnoughAccounts = 0"
| "discriminant InvalidAccountData = 1"
| "discriminant IllegalOwner = 2"
| "discriminant MissingSignature = 3"
| "discriminant InvalidAccount = 4"
| "discriminant InvalidProgramId = 5"
| "discriminant AlreadyInitialized = 6"
| "discriminant InvalidInstructionData = 7"
| "discriminant InvalidOwnerCount = 8"
| "discriminant InvalidThreshold = 9"
| "discriminant OwnersNotSorted = 10"
| "discriminant NotAnOwner = 11"
| "discriminant AlreadyVoted = 12"
| "discriminant StaleTransaction = 13"
| "discriminant InvalidStatus = 14"
| "discriminant UnknownStatus = 15"
| "discriminant MultisigMismatch = 16"
| "discriminant AccountMismatch = 17"
| "discriminant Overflow = 18"
| "discriminant OwnerAlreadyExists = 19"
| "discriminant UnknownConfigAction = 20"
| "discriminant InvalidTimeLock = 21"
| "discriminant TimeLockNotReleased = 22"
| "discriminant InvalidMessage = 23"
| "discriminant TooManyAccounts = 24"
| "discriminant BufferIncomplete = 25"
| "discriminant BufferHashMismatch = 26"
| "discriminant InvalidLookupTable = 27"
| "discriminant UnknownPermission = 28"
| "discriminant NoVoters = 29"
| "discriminant Unauthorized = 30"
| "discriminant TransactionsOutstanding = 31"
| "discriminant NotControlled = 32"

text \<open>
  \<open>Custom\<close>, \<open>IncorrectProgramId\<close> and \<open>BadInstructionData\<close> (the source's
  \<open>ProgramError::InvalidInstructionData\<close>) are the variants this program makes itself;
  \<open>External\<close> is any error a call outside src/ hands back.
\<close>

datatype program_error =
  Custom u32
| IncorrectProgramId
| BadInstructionData
| External nat

datatype failure =
  Failed program_error
| Panicked

type_synonym 'a result = "failure + 'a"

text \<open>\<open>From<MultisigError> for ProgramError\<close>, under an \<open>Err\<close>.\<close>

definition fail :: "multisig_error \<Rightarrow> 'a result" where
  "fail e = Inl (Failed (Custom (discriminant e)))"

text \<open>A Rust \<open>Option\<close> with \<open>.ok_or(e)?\<close>, and a panic on \<open>None\<close>.\<close>

definition ok_or :: "multisig_error \<Rightarrow> 'a option \<Rightarrow> 'a result" where
  "ok_or e x = (case x of None \<Rightarrow> fail e | Some v \<Rightarrow> Inr v)"

definition or_panic :: "'a option \<Rightarrow> 'a result" where
  "or_panic x = (case x of None \<Rightarrow> Inl Panicked | Some v \<Rightarrow> Inr v)"

definition panics :: "'a result \<Rightarrow> bool" where
  "panics r \<longleftrightarrow> r = Inl Panicked"

definition all_errors :: "multisig_error list" where
  "all_errors =
    [NotEnoughAccounts, InvalidAccountData, IllegalOwner, MissingSignature, InvalidAccount,
     InvalidProgramId, AlreadyInitialized, InvalidInstructionData, InvalidOwnerCount,
     InvalidThreshold, OwnersNotSorted, NotAnOwner, AlreadyVoted, StaleTransaction, InvalidStatus,
     UnknownStatus, MultisigMismatch, AccountMismatch, Overflow, OwnerAlreadyExists,
     UnknownConfigAction, InvalidTimeLock, TimeLockNotReleased, InvalidMessage, TooManyAccounts,
     BufferIncomplete, BufferHashMismatch, InvalidLookupTable, UnknownPermission, NoVoters,
     Unauthorized, TransactionsOutstanding, NotControlled]"

text \<open>The discriminants are the positions in the declaration, so they are pairwise distinct.\<close>

lemma all_errors_discriminant: "all_errors ! unat (discriminant e) = e"
  by (cases e) (simp_all add: all_errors_def)

lemma discriminant_inject [simp]: "discriminant d = discriminant e \<longleftrightarrow> d = e"
  by (metis all_errors_discriminant)

lemma fail_inject [simp]: "fail d = fail e \<longleftrightarrow> d = e"
  by (simp add: fail_def)

lemma fail_simps [simp]:
  "fail e \<noteq> Inr x" "Inr x \<noteq> fail e"
  "fail e \<noteq> Inl Panicked" "Inl Panicked \<noteq> fail e"
  by (simp_all add: fail_def)

lemma and_then_fail [simp]: "and_then (fail e) f = fail e"
  by (simp add: fail_def)

lemma if_fail_eq_Inr [result_simps]:
  "((if b then fail e else r) = Inr y) \<longleftrightarrow> \<not> b \<and> r = Inr y"
  "((if b then r else fail e) = Inr y) \<longleftrightarrow> b \<and> r = Inr y"
  by simp_all

lemma ok_or_simps [simp]: "ok_or e None = fail e" "ok_or e (Some v) = Inr v"
  by (simp_all add: ok_or_def)

lemma ok_or_Inr [result_simps]: "ok_or e x = Inr v \<longleftrightarrow> x = Some v"
  by (cases x) simp_all

lemma or_panic_simps [simp]: "or_panic None = Inl Panicked" "or_panic (Some v) = Inr v"
  by (simp_all add: or_panic_def)

lemma or_panic_Inr [result_simps]: "or_panic x = Inr v \<longleftrightarrow> x = Some v"
  by (cases x) simp_all

lemma panics_simps [simp]:
  "\<not> panics (Inr x)" "\<not> panics (fail e)" "\<not> panics (Inl (Failed p))" "panics (Inl Panicked)"
  "\<not> panics (ok_or e v)" "panics (or_panic v) \<longleftrightarrow> v = None"
  by (auto simp: panics_def fail_def ok_or_def or_panic_def split: option.splits)

lemma panics_and_then [simp]:
  "panics (and_then r f) \<longleftrightarrow> panics r \<or> (\<exists>x. r = Inr x \<and> panics (f x))"
  by (cases r) (auto simp: panics_def)

text \<open>The same as introduction rules, to walk through a handler step by step.\<close>

lemma no_panic_and_then:
  "\<not> panics r \<Longrightarrow> (\<And>x. r = Inr x \<Longrightarrow> \<not> panics (f x)) \<Longrightarrow> \<not> panics (and_then r f)"
  by simp

lemma no_panic_if:
  "(b \<Longrightarrow> \<not> panics r) \<Longrightarrow> (\<not> b \<Longrightarrow> \<not> panics r') \<Longrightarrow> \<not> panics (if b then r else r')"
  by simp

lemma no_panic_prod:
  "(\<And>a b. p = (a, b) \<Longrightarrow> \<not> panics (f a b)) \<Longrightarrow> \<not> panics (case p of (a, b) \<Rightarrow> f a b)"
  by (cases p) simp

lemma no_panic_list:
  "(xs = [] \<Longrightarrow> \<not> panics r) \<Longrightarrow> (\<And>y ys. xs = y # ys \<Longrightarrow> \<not> panics (f y ys)) \<Longrightarrow>
   \<not> panics (case xs of [] \<Rightarrow> r | y # ys \<Rightarrow> f y ys)"
  by (cases xs) simp_all

lemmas no_panic_intros = no_panic_and_then no_panic_if no_panic_prod no_panic_list

lemma panics_if [simp]: "panics (if b then r else s) \<longleftrightarrow> (if b then panics r else panics s)"
  by simp

section \<open>Loops and slices\<close>

text \<open>A \<open>for\<close> loop whose body may return early with an error.\<close>

fun fold_result :: "('a \<Rightarrow> 's \<Rightarrow> 'e + 's) \<Rightarrow> 'a list \<Rightarrow> 's \<Rightarrow> 'e + 's" where
  "fold_result body [] s = Inr s"
| "fold_result body (x # xs) s = and_then (body x s) (fold_result body xs)"

lemma and_then_fold_Nil [simp]: "and_then r (fold_result body []) = r"
  by (cases r) simp_all

lemma fold_result_append: "fold_result body (xs @ ys) s = and_then (fold_result body xs s) (fold_result body ys)"
proof (induction xs arbitrary: s)
  case (Cons x xs)
  then show ?case by (cases "body x s") simp_all
qed simp

lemma fold_result_invariant:
  assumes "fold_result body xs s = Inr t" "P s"
    and "\<And>x s t. x \<in> set xs \<Longrightarrow> P s \<Longrightarrow> body x s = Inr t \<Longrightarrow> P t"
  shows "P t"
  using assms
proof (induction xs arbitrary: s)
  case Nil
  then show ?case by simp
next
  case (Cons x xs)
  then obtain u where "body x s = Inr u" "fold_result body xs u = Inr t"
    by (auto simp: and_then_Inr)
  with Cons show ?case by (metis list.set_intros)
qed

lemma fold_result_ran:
  "fold_result body xs s = Inr t \<Longrightarrow> x \<in> set xs \<Longrightarrow> \<exists>u u'. body x u = Inr u'"
  by (induction xs arbitrary: s) (auto simp: and_then_Inr)

lemma fold_result_cong:
  "(\<And>x. x \<in> set xs \<Longrightarrow> body x = body' x) \<Longrightarrow> fold_result body xs = fold_result body' xs"
proof (induction xs)
  case (Cons x xs)
  then have "fold_result body xs = fold_result body' xs" "body x = body' x" by simp_all
  then show ?case by (intro ext) simp
qed (intro ext, simp)

lemma fold_result_no_panic:
  assumes "P s" and "\<And>x s. x \<in> set xs \<Longrightarrow> P s \<Longrightarrow> \<not> panics (body x s)"
    and "\<And>x s t. x \<in> set xs \<Longrightarrow> P s \<Longrightarrow> body x s = Inr t \<Longrightarrow> P t"
  shows "\<not> panics (fold_result body xs s)"
  using assms
proof (induction xs arbitrary: s)
  case Nil
  then show ?case by simp
next
  case (Cons x xs)
  have "\<not> panics (body x s)" by (rule Cons.prems(2)) (simp_all add: Cons.prems(1))
  moreover have "\<not> panics (fold_result body xs t)" if "body x s = Inr t" for t
  proof (rule Cons.IH)
    show "P t" by (rule Cons.prems(3) [OF _ Cons.prems(1) that]) simp
  next
    fix y u
    assume "y \<in> set xs" "P u"
    then show "\<not> panics (body y u)" using Cons.prems(2) [of y u] by simp
  next
    fix y u w
    assume "y \<in> set xs" "P u" "body y u = Inr w"
    then show "P w" using Cons.prems(3) [of y u w] by simp
  qed
  ultimately show ?case by simp
qed

lemma fold_result_unit:
  "fold_result (\<lambda>x (_ :: unit). check x) xs u = Inr () \<longleftrightarrow> (\<forall>x \<in> set xs. check x = Inr ())"
  by (induction xs) (auto simp: and_then_Inr)

text \<open>\<open>split_at_mut\<close> and \<open>copy_from_slice\<close>, which panic when the lengths do not fit.\<close>

definition split_at_mut :: "nat \<Rightarrow> 'a list \<Rightarrow> ('a list \<times> 'a list) result" where
  "split_at_mut n xs = (if n \<le> length xs then Inr (take n xs, drop n xs) else Inl Panicked)"

definition copy_from_slice :: "'a list \<Rightarrow> 'a list \<Rightarrow> 'a list result" where
  "copy_from_slice dst src = (if length src = length dst then Inr src else Inl Panicked)"

lemma split_at_mut_le [simp]: "n \<le> length xs \<Longrightarrow> split_at_mut n xs = Inr (take n xs, drop n xs)"
  by (simp add: split_at_mut_def)

lemma split_at_mut_Inr [result_simps]:
  "split_at_mut n xs = Inr (ys, zs) \<longleftrightarrow> xs = ys @ zs \<and> length ys = n"
  by (auto simp: split_at_mut_def)

lemma copy_from_slice_eq [simp]: "length src = length dst \<Longrightarrow> copy_from_slice dst src = Inr src"
  by (simp add: copy_from_slice_def)

lemma copy_from_slice_Inr [result_simps]:
  "copy_from_slice dst src = Inr ys \<longleftrightarrow> ys = src \<and> length src = length dst"
  by (auto simp: copy_from_slice_def)

text \<open>\<open>xs[from..to].copy_from_slice(src)\<close>, with both panics.\<close>

definition write_range :: "nat \<Rightarrow> nat \<Rightarrow> 'a list \<Rightarrow> 'a list \<Rightarrow> 'a list result" where
  "write_range from to src region =
     (if from \<le> to \<and> to \<le> length region \<and> length src = to - from
      then Inr (take from region @ src @ drop to region) else Inl Panicked)"

lemma write_range_Inr [result_simps]:
  "write_range from to src region = Inr r \<longleftrightarrow>
     from \<le> to \<and> to \<le> length region \<and> length src = to - from \<and>
     r = take from region @ src @ drop to region"
  by (auto simp: write_range_def)

end
