(* ===== verification/Runtime.thy ===== *)
theory Runtime
  imports Errors
begin

text \<open>
  What the program sees of the Solana runtime. An account is its lamports, its data, its owner
  and the address its data is mapped at; the store maps every address to its account, so two
  account views with one address share one account, as duplicated entries of the accounts slice
  do. A \<open>view\<close> is one entry of that slice.

  The record \<open>runtime\<close> holds the functions the program calls that are not under src/ (pinocchio,
  the system program, the sysvars, SHA-256): they are parameters of every handler. The
  predicates of the last section state what their documentation promises; a property that needs
  one of them has it as a hypothesis, and \<open>sim_runtime\<close> satisfies them all.
\<close>

record account =
  lamports :: u64
  acc_data :: bytes
  acc_owner :: address
  data_ptr :: nat

record view =
  v_address :: address
  v_signer :: bool
  v_writable :: bool

type_synonym store = "address \<Rightarrow> account"

text \<open>An instruction for another program: its address, its account metas (address, writable,
  signer) and its data.\<close>

record cpi_instruction =
  cpi_program :: address
  cpi_metas :: "(address \<times> bool \<times> bool) list"
  cpi_data :: bytes

record runtime =
  rt_rent :: "(nat \<Rightarrow> u64) result"
  rt_clock :: "u64 result"
  rt_create_account :: "view \<Rightarrow> view \<Rightarrow> u64 \<Rightarrow> u64 \<Rightarrow> address \<Rightarrow> bytes list \<Rightarrow> store \<Rightarrow> store result"
  rt_transfer :: "view \<Rightarrow> view \<Rightarrow> u64 \<Rightarrow> store \<Rightarrow> store result"
  rt_resize :: "view \<Rightarrow> nat \<Rightarrow> store \<Rightarrow> store result"
  rt_close :: "view \<Rightarrow> store \<Rightarrow> store result"
  rt_invoke :: "cpi_instruction \<Rightarrow> view list \<Rightarrow> bytes list list \<Rightarrow> store \<Rightarrow> store result"
  rt_sha256 :: "bytes \<Rightarrow> address"
  rt_pda :: "bytes list \<Rightarrow> address \<Rightarrow> address option"

abbreviation account_of :: "store \<Rightarrow> view \<Rightarrow> account" where
  "account_of s v \<equiv> s (v_address v)"

abbreviation data_of :: "store \<Rightarrow> view \<Rightarrow> bytes" where
  "data_of s v \<equiv> acc_data (account_of s v)"

abbreviation ptr_of :: "store \<Rightarrow> view \<Rightarrow> nat" where
  "ptr_of s v \<equiv> data_ptr (account_of s v)"

definition set_lamports :: "view \<Rightarrow> u64 \<Rightarrow> store \<Rightarrow> store" where
  "set_lamports v n s = s(v_address v := (account_of s v)\<lparr>lamports := n\<rparr>)"

text \<open>A write through \<open>borrow_unchecked_mut\<close>.\<close>

definition set_data :: "view \<Rightarrow> bytes \<Rightarrow> store \<Rightarrow> store" where
  "set_data v d s = s(v_address v := (account_of s v)\<lparr>acc_data := d\<rparr>)"

lemma set_data_simps [simp]:
  "acc_data (set_data v d s a) = (if a = v_address v then d else acc_data (s a))"
  "lamports (set_data v d s a) = lamports (s a)"
  "acc_owner (set_data v d s a) = acc_owner (s a)"
  "data_ptr (set_data v d s a) = data_ptr (s a)"
  by (simp_all add: set_data_def)

lemma set_data_other: "a \<noteq> v_address v \<Longrightarrow> set_data v d s a = s a"
  by (simp add: set_data_def)

lemma set_lamports_simps [simp]:
  "lamports (set_lamports v n s a) = (if a = v_address v then n else lamports (s a))"
  "acc_data (set_lamports v n s a) = acc_data (s a)"
  "acc_owner (set_lamports v n s a) = acc_owner (s a)"
  "data_ptr (set_lamports v n s a) = data_ptr (s a)"
  by (simp_all add: set_lamports_def)

lemma set_lamports_other: "a \<noteq> v_address v \<Longrightarrow> set_lamports v n s a = s a"
  by (simp add: set_lamports_def)

section \<open>Address derivation seeds\<close>

text \<open>The seed prefixes of src/constants.rs.\<close>

definition MULTISIG_SEED :: bytes where "MULTISIG_SEED = map of_char ''multisig''"

definition TRANSACTION_SEED :: bytes where "TRANSACTION_SEED = map of_char ''transaction''"

definition VAULT_SEED :: bytes where "VAULT_SEED = map of_char ''vault''"

definition BUFFER_SEED :: bytes where "BUFFER_SEED = map of_char ''buffer''"

definition EPHEMERAL_SEED :: bytes where "EPHEMERAL_SEED = map of_char ''ephemeral''"

lemma unat_space: "n \<le> 10 ^ 18 \<Longrightarrow> unat (of_nat n :: u64) = n"
  by (simp add: unat_of_nat)

lemma space_nonzero:
  "0 < n \<Longrightarrow> n \<le> 10 ^ 18 \<Longrightarrow> (of_nat n :: u64) \<noteq> 0"
  using unat_space [of n] by (metis less_numeral_extra(3) unat_0)

section \<open>Checks shared across instructions\<close>

text \<open>src/helper.rs.\<close>

definition validate_eq :: "'a \<Rightarrow> 'a \<Rightarrow> multisig_error \<Rightarrow> unit result" where
  "validate_eq a b err = (if a \<noteq> b then fail err else Inr ())"

definition check_signer :: "view \<Rightarrow> multisig_error \<Rightarrow> unit result" where
  "check_signer a err = (if \<not> v_signer a then fail err else Inr ())"

definition check_owner :: "store \<Rightarrow> view \<Rightarrow> address \<Rightarrow> multisig_error \<Rightarrow> unit result" where
  "check_owner s a program_id err =
     (if acc_owner (account_of s a) \<noteq> program_id then fail err else Inr ())"

lemma check_Inr [result_simps]:
  "validate_eq a b e = Inr u \<longleftrightarrow> a = b"
  "check_signer v e = Inr u \<longleftrightarrow> v_signer v"
  "check_owner s v p e = Inr u \<longleftrightarrow> acc_owner (account_of s v) = p"
  by (simp_all add: validate_eq_def check_signer_def check_owner_def)

lemma check_simps [simp]:
  "validate_eq a a e = Inr ()"
  "a \<noteq> b \<Longrightarrow> validate_eq a b e = fail e"
  "v_signer v \<Longrightarrow> check_signer v e = Inr ()"
  "\<not> v_signer v \<Longrightarrow> check_signer v e = fail e"
  "acc_owner (account_of s v) = p \<Longrightarrow> check_owner s v p e = Inr ()"
  "acc_owner (account_of s v) \<noteq> p \<Longrightarrow> check_owner s v p e = fail e"
  by (simp_all add: validate_eq_def check_signer_def check_owner_def)

lemma check_no_panic [simp]:
  "\<not> panics (validate_eq a b e)" "\<not> panics (check_signer v e)" "\<not> panics (check_owner s v p e)"
  by (simp_all add: validate_eq_def check_signer_def check_owner_def)

text \<open>Opening a handler that returned: every guard passed, every step has its value.\<close>

lemmas handler_steps =
  Let_def and_then_Inr split_paired_Ex prod.case if_fail_eq_Inr check_Inr ok_or_Inr
  de_Morgan_disj not_not not_less not_le sum.inject

section \<open>What the runtime promises\<close>

definition system_program :: address where
  "system_program = default_address"

text \<open>
  \<open>CreateAccount\<close> with signed seeds: the payer is another account and can afford it, the new
  account is the one the seeds derive (or it signed itself), it holds the lamports the payer
  lost, \<open>space\<close> zero bytes, and the owner named.
\<close>

definition create_account_spec :: "address \<Rightarrow> runtime \<Rightarrow> bool" where
  "create_account_spec pid rt \<longleftrightarrow>
     (\<forall>from to space lam own seeds s s'.
        rt_create_account rt from to space lam own seeds s = Inr s' \<longrightarrow> space \<noteq> 0 \<longrightarrow>
        v_address from \<noteq> v_address to \<and> lam \<le> lamports (account_of s from) \<and>
        (v_signer to \<or> rt_pda rt seeds pid = Some (v_address to)) \<and>
        s' = s(v_address from := (account_of s from)\<lparr>lamports := lamports (account_of s from) - lam\<rparr>,
               v_address to := (account_of s to)\<lparr>lamports := lam,
                   acc_data := replicate (unat space) 0, acc_owner := own\<rparr>))"

lemma create_account_effect:
  assumes "create_account_spec pid rt"
    and "rt_create_account rt from to space lam own seeds s = Inr s'" "space \<noteq> 0"
  shows "v_address from \<noteq> v_address to"
    and "v_signer to \<or> rt_pda rt seeds pid = Some (v_address to)"
    and "lam \<le> lamports (account_of s from)"
    and "account_of s' to = (account_of s to)\<lparr>lamports := lam,
           acc_data := replicate (unat space) 0, acc_owner := own\<rparr>"
    and "account_of s' from = (account_of s from)\<lparr>lamports := lamports (account_of s from) - lam\<rparr>"
    and "a \<noteq> v_address from \<Longrightarrow> a \<noteq> v_address to \<Longrightarrow> s' a = s a"
proof -
  from assms have a: "v_address from \<noteq> v_address to \<and> lam \<le> lamports (account_of s from) \<and>
        (v_signer to \<or> rt_pda rt seeds pid = Some (v_address to)) \<and>
        s' = s(v_address from := (account_of s from)\<lparr>lamports := lamports (account_of s from) - lam\<rparr>,
               v_address to := (account_of s to)\<lparr>lamports := lam,
                   acc_data := replicate (unat space) 0, acc_owner := own\<rparr>)"
    unfolding create_account_spec_def by blast
  then show "v_address from \<noteq> v_address to" "lam \<le> lamports (account_of s from)"
    "v_signer to \<or> rt_pda rt seeds pid = Some (v_address to)" by blast+
  from a show "account_of s' to = (account_of s to)\<lparr>lamports := lam,
           acc_data := replicate (unat space) 0, acc_owner := own\<rparr>"
    "account_of s' from = (account_of s from)\<lparr>lamports := lamports (account_of s from) - lam\<rparr>"
    "a \<noteq> v_address from \<Longrightarrow> a \<noteq> v_address to \<Longrightarrow> s' a = s a" by simp_all
qed

lemma create_account_others:
  assumes "create_account_spec pid rt"
    and "rt_create_account rt from to space lam own seeds s = Inr s'" "space \<noteq> 0"
    and "a \<noteq> v_address to"
  shows "acc_data (s' a) = acc_data (s a) \<and> acc_owner (s' a) = acc_owner (s a) \<and>
         data_ptr (s' a) = data_ptr (s a)"
  using create_account_effect(5,6) [OF assms(1-3)] assms(4) by (cases "a = v_address from") simp_all

text \<open>
  And it succeeds for a writable signing wallet that can pay and a writable, still empty account of the
  system program at the derived address, up to the 10240 bytes an account may grow by in a
  cross-program call.
\<close>

definition create_account_live :: "address \<Rightarrow> runtime \<Rightarrow> bool" where
  "create_account_live pid rt \<longleftrightarrow>
     (\<forall>from to space lam own seeds s.
        v_signer from \<and> v_writable from \<and> v_writable to \<and> v_address from \<noteq> v_address to \<and>
        acc_owner (account_of s from) = system_program \<and> data_of s from = [] \<and>
        lam \<le> lamports (account_of s from) \<and>
        acc_owner (account_of s to) = system_program \<and> data_of s to = [] \<and>
        lamports (account_of s to) = 0 \<and> unat space \<le> 10240 \<and>
        rt_pda rt seeds pid = Some (v_address to) \<longrightarrow>
        (\<exists>s'. rt_create_account rt from to space lam own seeds s = Inr s'))"

definition transfer_spec :: "runtime \<Rightarrow> bool" where
  "transfer_spec rt \<longleftrightarrow>
     (\<forall>from to lam s s'.
        rt_transfer rt from to lam s = Inr s' \<longrightarrow>
        lam \<le> lamports (account_of s from) \<and>
        s' = set_lamports to (lamports (set_lamports from (lamports (account_of s from) - lam) s
               (v_address to)) + lam)
             (set_lamports from (lamports (account_of s from) - lam) s))"

text \<open>Resizing keeps the bytes that fit and zero-fills what is added.\<close>

definition resize_spec :: "runtime \<Rightarrow> bool" where
  "resize_spec rt \<longleftrightarrow>
     (\<forall>v n s s'. rt_resize rt v n s = Inr s' \<longrightarrow>
        s' = set_data v (take n (data_of s v) @ replicate (n - length (data_of s v)) 0) s)"

text \<open>Closing zeroes the account's lamports, data length and owner.\<close>

definition close_spec :: "runtime \<Rightarrow> bool" where
  "close_spec rt \<longleftrightarrow>
     (\<forall>v s s'. rt_close rt v s = Inr s' \<longrightarrow>
        s' = s(v_address v := (account_of s v)\<lparr>lamports := 0, acc_data := [],
                                              acc_owner := system_program\<rparr>))"

text \<open>
  A call into another program cannot write the data of an account the caller's program owns,
  take it away from its owner, or move its data: only the owner may, and the runtime refuses
  re-entry into the caller. An account that becomes the program's during the call has zeroed
  data, because ownership passes only so.
\<close>

definition invoke_spec :: "address \<Rightarrow> runtime \<Rightarrow> bool" where
  "invoke_spec pid rt \<longleftrightarrow>
     (\<forall>ix views signers s s' a. rt_invoke rt ix views signers s = Inr s' \<longrightarrow>
        (acc_owner (s a) = pid \<longrightarrow>
           acc_owner (s' a) = pid \<and> acc_data (s' a) = acc_data (s a)) \<and>
        (acc_owner (s a) \<noteq> pid \<and> acc_owner (s' a) = pid \<longrightarrow> set (acc_data (s' a)) \<subseteq> {0}) \<and>
        data_ptr (s' a) = data_ptr (s a))"

text \<open>A call that fails hands back an error value; it does not panic the caller.\<close>

definition runtime_no_panic :: "runtime \<Rightarrow> bool" where
  "runtime_no_panic rt \<longleftrightarrow>
     \<not> panics (rt_rent rt) \<and> \<not> panics (rt_clock rt) \<and>
     (\<forall>f t sp l own sd s. \<not> panics (rt_create_account rt f t sp l own sd s)) \<and>
     (\<forall>f t l s. \<not> panics (rt_transfer rt f t l s)) \<and>
     (\<forall>v n s. \<not> panics (rt_resize rt v n s)) \<and>
     (\<forall>v s. \<not> panics (rt_close rt v s)) \<and>
     (\<forall>ix vs sg s. \<not> panics (rt_invoke rt ix vs sg s))"

lemma runtime_no_panicD:
  assumes "runtime_no_panic rt"
  shows "\<not> panics (rt_rent rt)" "\<not> panics (rt_clock rt)"
    "\<not> panics (rt_create_account rt f t sp l own sd s)" "\<not> panics (rt_transfer rt f t l s)"
    "\<not> panics (rt_resize rt v n s)" "\<not> panics (rt_close rt v s)"
    "\<not> panics (rt_invoke rt ix vs sg s)"
  using assms unfolding runtime_no_panic_def by blast+

section \<open>A runtime that keeps the promises\<close>

text \<open>
  \<open>sim_runtime now\<close> is a concrete runtime for the witnesses: a rent linear in the size, a fixed
  clock, a stand-in for the hash and for address derivation, and cross-program calls that
  succeed and change nothing.
\<close>

definition sim_pda :: "bytes list \<Rightarrow> address \<Rightarrow> address option" where
  "sim_pda seeds pid = Some (new_from_array (concat (rev seeds)))"

definition sim_rent :: "nat \<Rightarrow> u64" where
  "sim_rent n = of_nat (n + 128)"

definition sim_create :: "view \<Rightarrow> view \<Rightarrow> u64 \<Rightarrow> u64 \<Rightarrow> address \<Rightarrow> bytes list \<Rightarrow> store \<Rightarrow> store result" where
  "sim_create from to space lam own seeds s =
     (if v_signer from \<and> lam \<le> lamports (account_of s from) \<and> v_address from \<noteq> v_address to \<and>
         lamports (account_of s to) = 0 \<and> (v_signer to \<or> sim_pda seeds own = Some (v_address to))
      then Inr (s(v_address from := (account_of s from)\<lparr>lamports := lamports (account_of s from) - lam\<rparr>,
               v_address to := (account_of s to)\<lparr>lamports := lam,
                   acc_data := replicate (unat space) 0, acc_owner := own\<rparr>))
      else Inl (Failed (External 0)))"

definition sim_transfer :: "view \<Rightarrow> view \<Rightarrow> u64 \<Rightarrow> store \<Rightarrow> store result" where
  "sim_transfer from to lam s =
     (if v_signer from \<and> lam \<le> lamports (account_of s from)
      then let s1 = set_lamports from (lamports (account_of s from) - lam) s in
           if lam \<le> - 1 - lamports (account_of s1 to)
           then Inr (set_lamports to (lamports (account_of s1 to) + lam) s1)
           else Inl (Failed (External 1))
      else Inl (Failed (External 1)))"

definition sim_runtime :: "u64 \<Rightarrow> runtime" where
  "sim_runtime now =
     \<lparr>rt_rent = Inr sim_rent, rt_clock = Inr now, rt_create_account = sim_create,
      rt_transfer = sim_transfer,
      rt_resize = (\<lambda>v n s. Inr (set_data v
         (take n (data_of s v) @ replicate (n - length (data_of s v)) 0) s)),
      rt_close = (\<lambda>v s. Inr (s(v_address v := (account_of s v)\<lparr>lamports := 0, acc_data := [],
         acc_owner := system_program\<rparr>))),
      rt_invoke = (\<lambda>ix views signers s. Inr s),
      rt_sha256 = (\<lambda>bs. new_from_array bs),
      rt_pda = sim_pda\<rparr>"

lemma sim_runtime_specs:
  "transfer_spec (sim_runtime now)" "resize_spec (sim_runtime now)" "close_spec (sim_runtime now)"
  "invoke_spec pid (sim_runtime now)" "runtime_no_panic (sim_runtime now)"
  by (simp_all add: sim_runtime_def transfer_spec_def resize_spec_def close_spec_def
        invoke_spec_def runtime_no_panic_def sim_transfer_def sim_create_def Let_def)

lemma sim_runtime_create_spec:
  "create_account_spec pid (sim_runtime now)"
  by (simp add: sim_runtime_def create_account_spec_def sim_create_def sim_pda_def)

lemma sim_runtime_create_live: "create_account_live pid (sim_runtime now)"
  by (simp add: sim_runtime_def create_account_live_def sim_create_def sim_pda_def)

end
