(* ===== verification/Owner_Search.thy ===== *)
theory Owner_Search
  imports Prelude
begin

text \<open>
  \<open>slice::binary_search\<close>, the standard library function the program searches the owner set with,
  and the locale \<open>ordered_search\<close>: what looking up an element of a strictly ascending list
  promises, and what follows for insertion and removal at the position found.
\<close>

section \<open>What a search promises\<close>

text \<open>\<open>Inr i\<close> is \<open>Ok(i)\<close>, \<open>Inl p\<close> is \<open>Err(p)\<close> with the insertion point.\<close>

locale ordered_search =
  fixes search :: "'a::linorder list \<Rightarrow> 'a \<Rightarrow> nat + nat"
  assumes search_Inr: "search xs x = Inr i \<Longrightarrow> i < length xs \<and> xs ! i = x"
    and search_Inl_le: "search xs x = Inl p \<Longrightarrow> p \<le> length xs"
    and search_Inl: "ascending xs \<Longrightarrow> search xs x = Inl p \<Longrightarrow>
      (\<forall>y \<in> set (take p xs). y < x) \<and> (\<forall>y \<in> set (drop p xs). x < y)"
begin

lemma search_absent: "ascending xs \<Longrightarrow> search xs x = Inl p \<Longrightarrow> x \<notin> set xs"
proof -
  assume "ascending xs" "search xs x = Inl p"
  then have "y \<noteq> x" if "y \<in> set (take p xs @ drop p xs)" for y
    using search_Inl [of xs x p] that unfolding set_append by blast
  then show "x \<notin> set xs" unfolding append_take_drop_id by blast
qed

lemma search_present: "search xs x = Inr i \<Longrightarrow> x \<in> set xs"
  using search_Inr [of xs x i] by auto

lemma search_found_iff: "ascending xs \<Longrightarrow> (\<exists>i. search xs x = Inr i) \<longleftrightarrow> x \<in> set xs"
  by (cases "search xs x") (auto dest: search_present search_absent)

lemma search_nth: "ascending xs \<Longrightarrow> i < length xs \<Longrightarrow> search xs (xs ! i) = Inr i"
proof -
  assume a: "ascending xs" and i: "i < length xs"
  then obtain j where j: "search xs (xs ! i) = Inr j"
    using search_found_iff [of xs "xs ! i"] by auto
  with a i show ?thesis
    using search_Inr [OF j] ascending_distinct [OF a] by (auto simp: nth_eq_iff_index_eq)
qed

lemma search_inject:
  "search xs x = Inr i \<Longrightarrow> search xs y = Inr i \<Longrightarrow> x = y"
  using search_Inr [of xs x i] search_Inr [of xs y i] by auto

lemma insert_ascending:
  "ascending xs \<Longrightarrow> search xs x = Inl p \<Longrightarrow> ascending (insert_at p x xs)"
  using search_Inl [of xs x p] by (intro ascending_insert_at) auto

lemma insert_then_found:
  assumes "ascending xs" "search xs x = Inl p"
  shows "search (insert_at p x xs) x = Inr p"
proof -
  have p: "p \<le> length xs" using assms(2) by (rule search_Inl_le)
  with search_nth [OF insert_ascending [OF assms], of p] show ?thesis
    by (simp add: nth_insert_at)
qed

lemma remove_absent:
  assumes "ascending xs" "search xs x = Inr i"
  shows "set (remove_at i xs) = set xs - {x}"
proof -
  have i: "i < length xs" "xs ! i = x" using search_Inr [OF assms(2)] by auto
  then have "insert x (set (remove_at i xs)) = set xs"
    by (metis insert_remove_at set_insert_at)
  moreover have "x \<notin> set (remove_at i xs)"
  proof -
    have "distinct (take i xs @ x # drop (Suc i) xs)"
      using ascending_distinct [OF assms(1)] i by (metis id_take_nth_drop)
    then show ?thesis by (simp add: remove_at_def)
  qed
  ultimately show ?thesis by auto
qed

end

section \<open>Binary search\<close>

text \<open>
  The loop of the standard library: halve the range, keep the upper half unless its first element
  is greater than the one sought. One comparison is left for the element at \<open>base\<close>. The last argument
  counts the calls of the comparison: the search returns them beside its result.
\<close>

function search_loop :: "'a::linorder list \<Rightarrow> 'a \<Rightarrow> nat \<Rightarrow> nat \<Rightarrow> nat \<Rightarrow> nat \<times> nat" where
  "search_loop xs x base sz compared =
     (if 1 < sz
      then search_loop xs x (if x < xs ! (base + sz div 2) then base else base + sz div 2)
             (sz - sz div 2) (compared + 1)
      else (base, compared))"
  by pat_completeness auto
termination
  by (relation "measure (\<lambda>(xs, x, base, sz, compared). sz)") auto

declare search_loop.simps [simp del]

definition counted_search :: "'a::linorder list \<Rightarrow> 'a \<Rightarrow> (nat + nat) \<times> nat" where
  "counted_search xs x =
     (if length xs = 0 then (Inl 0, 0)
      else case search_loop xs x 0 (length xs) 0 of (base, compared) \<Rightarrow>
           (if xs ! base = x then Inr base
            else Inl (if xs ! base < x then base + 1 else base), compared + 1))"

definition binary_search :: "'a::linorder list \<Rightarrow> 'a \<Rightarrow> nat + nat" where
  "binary_search xs x = fst (counted_search xs x)"

abbreviation loop_base :: "'a::linorder list \<Rightarrow> 'a \<Rightarrow> nat \<Rightarrow> nat \<Rightarrow> nat" where
  "loop_base xs x base sz \<equiv> fst (search_loop xs x base sz 0)"

lemma search_loop_count:
  "fst (search_loop xs x base sz n) = loop_base xs x base sz"
  "snd (search_loop xs x base sz n) = snd (search_loop xs x base sz 0) + n"
proof -
  have "fst (search_loop xs x base sz n) = fst (search_loop xs x base sz k) \<and>
      snd (search_loop xs x base sz n) + k = snd (search_loop xs x base sz k) + n" for k
  proof (induction xs x base sz n arbitrary: k rule: search_loop.induct)
    case (1 xs x base sz n)
    show ?case
    proof (cases "1 < sz")
      case True
      with "1.IH" [OF True, of "Suc k"] show ?thesis
        by (simp add: search_loop.simps [of xs x base sz])
    qed (simp add: search_loop.simps [of xs x base sz])
  qed
  from this [of 0] show "fst (search_loop xs x base sz n) = loop_base xs x base sz"
    and "snd (search_loop xs x base sz n) = snd (search_loop xs x base sz 0) + n" by simp_all
qed

lemma loop_base_step:
  "1 < sz \<Longrightarrow> loop_base xs x base sz
     = loop_base xs x (if x < xs ! (base + sz div 2) then base else base + sz div 2) (sz - sz div 2)"
  "\<not> 1 < sz \<Longrightarrow> loop_base xs x base sz = base"
  by (simp_all add: search_loop.simps [of xs x base sz] search_loop_count(1) [of _ _ _ _ "Suc 0"])

lemma binary_search_eq:
  "binary_search xs x =
     (if length xs = 0 then Inl 0
      else let base = loop_base xs x 0 (length xs) in
           if xs ! base = x then Inr base
           else Inl (if xs ! base < x then base + 1 else base))"
  by (simp add: binary_search_def counted_search_def Let_def split: prod.split)

lemma search_loop_range:
  "0 < sz \<Longrightarrow> base \<le> loop_base xs x base sz \<and> loop_base xs x base sz < base + sz"
proof (induction sz arbitrary: base rule: less_induct)
  case (less sz)
  show ?case
  proof (cases "1 < sz")
    case True
    let ?half = "sz div 2"
    let ?base = "if x < xs ! (base + ?half) then base else base + ?half"
    have "?base \<le> loop_base xs x ?base (sz - ?half) \<and>
          loop_base xs x ?base (sz - ?half) < ?base + (sz - ?half)"
      using less.IH [of "sz - ?half" ?base] True by simp
    moreover have "?base + (sz - ?half) \<le> base + sz" "base \<le> ?base" by auto
    ultimately show ?thesis
      using True by (simp add: loop_base_step)
  next
    case False
    with less.prems show ?thesis by (simp add: loop_base_step)
  qed
qed

lemma search_loop_brackets:
  assumes "ascending xs" "0 < sz" "base + sz \<le> length xs"
    and "base = 0 \<or> xs ! base \<le> x"
    and "base + sz = length xs \<or> x < xs ! (base + sz)"
  shows "let b = loop_base xs x base sz in
           (b = 0 \<or> xs ! b \<le> x) \<and> (b + 1 = length xs \<or> x < xs ! (b + 1))"
  using assms
proof (induction sz arbitrary: base rule: less_induct)
  case (less sz)
  show ?case
  proof (cases "1 < sz")
    case True
    let ?half = "sz div 2"
    let ?mid = "base + ?half"
    let ?nb = "if x < xs ! ?mid then base else ?mid"
    have half: "0 < ?half" "?half < sz" using True by auto
    have up: "?mid + (sz - ?half) = base + sz" using half(2) by simp
    have low: "x < xs ! (base + (sz - ?half))" if "x < xs ! ?mid"
    proof -
      have "base + (sz - ?half) = ?mid \<or> base + (sz - ?half) = Suc ?mid" by arith
      moreover have "xs ! ?mid < xs ! Suc ?mid" if "Suc ?mid < length xs"
        using that less.prems(1) by (simp add: ascending_iff_Suc)
      moreover have "base + (sz - ?half) < length xs" using half less.prems(3) by linarith
      ultimately show ?thesis using that by (metis less_trans)
    qed
    have "?nb + (sz - ?half) \<le> length xs" using up less.prems(3) by auto
    moreover have "?nb = 0 \<or> xs ! ?nb \<le> x" using less.prems(4) by (auto simp: not_less)
    moreover have "?nb + (sz - ?half) = length xs \<or> x < xs ! (?nb + (sz - ?half))"
      using low up less.prems(5) by auto
    moreover have "0 < sz - ?half" using half by simp
    moreover have "loop_base xs x base sz = loop_base xs x ?nb (sz - ?half)"
      using True by (simp add: loop_base_step)
    ultimately show ?thesis 
      using less.IH [of "sz - ?half" ?nb] half less.prems(1) by simp
  next
    case False
    with less.prems have "sz = 1" by simp
    moreover from this have "loop_base xs x base sz = base"
      by (subst search_loop.simps) simp
    ultimately show ?thesis using less.prems by (simp add: Let_def)
  qed
qed

interpretation bs: ordered_search binary_search
proof unfold_locales
  fix xs :: "'a list" and x :: 'a and i
  assume "binary_search xs x = Inr i"
  then show "i < length xs \<and> xs ! i = x"
    using search_loop_range [of "length xs" 0 xs x]
    by (auto simp: binary_search_eq Let_def split: if_splits)
next
  fix xs :: "'a list" and x :: 'a and p
  assume "binary_search xs x = Inl p"
  then show "p \<le> length xs"
    using search_loop_range [of "length xs" 0 xs x]
    by (auto simp: binary_search_eq Let_def split: if_splits)
next
  fix xs :: "'a list" and x :: 'a and p
  assume asc: "ascending xs" and p: "binary_search xs x = Inl p"
  let ?b = "loop_base xs x 0 (length xs)"
  show "(\<forall>y \<in> set (take p xs). y < x) \<and> (\<forall>y \<in> set (drop p xs). x < y)"
  proof (cases "xs = []")
    case False
    then have b: "?b < length xs" using search_loop_range [of "length xs" 0 xs x] by simp
    have br: "?b = 0 \<or> xs ! ?b \<le> x" "?b + 1 = length xs \<or> x < xs ! (?b + 1)"
      using search_loop_brackets [of xs "length xs" 0 x] asc False by (simp_all add: Let_def)
    have less: "xs ! i < xs ! j" if "i < j" "j < length xs" for i j
      using asc that by (simp add: ascending_iff_nth_less)
    have pb: "xs ! ?b \<noteq> x" "p = (if xs ! ?b < x then ?b + 1 else ?b)"
      using p False by (auto simp: binary_search_eq Let_def split: if_splits)
    have "xs ! i < x" if "i < p" "i < length xs" for i
    proof (cases "xs ! ?b < x")
      case True
      with that pb have "i < ?b \<or> i = ?b" by auto
      with True less [of i ?b] b show ?thesis by (auto dest: less_trans)
    next
      case False
      with that pb have "i < ?b" by auto
      with less [of i ?b] b br(1) show ?thesis by (auto dest: less_le_trans)
    qed
    moreover have "x < xs ! i" if "p \<le> i" "i < length xs" for i
      using that pb br b less [of "?b + 1" i] less [of ?b i]
      by (cases "xs ! ?b < x") (auto simp: le_less not_less)
    ultimately show ?thesis
      by (auto simp: in_set_conv_nth)
  qed simp
qed

text \<open>The comparisons: one for each time the range is halved, and the last one.\<close>

lemma loop_comparisons:
  "sz \<le> 2 ^ k \<Longrightarrow> snd (search_loop xs x base sz 0) \<le> k"
  "2 ^ k \<le> sz \<Longrightarrow> k \<le> snd (search_loop xs x base sz 0)"
proof (induction k arbitrary: base sz)
  case 0
  { case 1 then show ?case by (simp add: search_loop.simps [of xs x base sz]) }
  { case 2 show ?case by simp }
next
  case (Suc k)
  { case 1
    then have "sz - sz div 2 \<le> 2 ^ k" by simp
    from Suc.IH(1) [OF this] show ?case
      by (simp add: search_loop.simps [of xs x base sz] search_loop_count(2) [of _ _ _ _ "Suc 0"]) }
  { case 2
    then have "2 ^ k \<le> sz - sz div 2" by simp
    moreover have "1 < sz" using 2 one_le_power [of "2 :: nat" k] unfolding power_Suc by linarith
    ultimately show ?case using Suc.IH(2)
      by (simp add: search_loop.simps [of xs x base sz] search_loop_count(2) [of _ _ _ _ "Suc 0"]) }
qed

lemma comparisons_le: "length xs \<le> 2 ^ k \<Longrightarrow> snd (counted_search xs x) \<le> Suc k"
  using loop_comparisons(1) [of "length xs" k xs x 0]
  by (auto simp: counted_search_def split: prod.split)

lemma comparisons_ge: "2 ^ k \<le> length xs \<Longrightarrow> Suc k \<le> snd (counted_search xs x)"
  using loop_comparisons(2) [of k "length xs" xs x 0]
  by (auto simp: counted_search_def split: prod.split)

end
