(* ===== verification/Multisig_State.thy ===== *)
theory Multisig_State
  imports Runtime Owner_Search
begin

text \<open>
  The multisig configuration account of src/state/multisig.rs, with src/state/permission.rs and
  the limits of src/constants.rs it uses. The header is a record, its bytes are \<open>ms_encode\<close>;
  the account is the header, the owners' addresses, and one permission byte for each owner.
  The locale \<open>account_layout\<close> is what the three kinds of accounts share: a fixed-width
  header that says how long the rest of the account is.
\<close>

section \<open>Limits\<close>

definition MAX_OWNER :: nat where "MAX_OWNER = 4096"

definition MAX_TIME_LOCK :: u32 where "MAX_TIME_LOCK = 3 * 30 * 24 * 60 * 60"

definition INITIATE :: u8 where "INITIATE = 1"

definition VOTE :: u8 where "VOTE = 2"

definition EXECUTE :: u8 where "EXECUTE = 4"

definition PERM_ALL :: u8 where "PERM_ALL = INITIATE OR VOTE OR EXECUTE"

section \<open>Accounts that are a header and a tail\<close>

locale account_layout = codec enc dec width
  for enc :: "'h \<Rightarrow> bytes" and dec :: "bytes \<Rightarrow> 'h" and width :: nat +
  fixes align :: nat
    and tail_len :: "'h \<Rightarrow> nat"
    and parts :: "nat \<Rightarrow> bytes \<Rightarrow> ('h \<times> bytes) result"
    and uninit :: "nat \<Rightarrow> bytes \<Rightarrow> ('h \<times> bytes) result"
  assumes parts_eq: "parts p d =
      (if length d < width \<or> p mod align \<noteq> 0 then fail InvalidAccountData
       else if length (drop width d) \<noteq> tail_len (dec (take width d)) then fail InvalidAccountData
       else Inr (dec (take width d), drop width d))"
    and uninit_eq: "uninit p d =
      (if length d < width \<or> p mod align \<noteq> 0 then fail InvalidAccountData
       else Inr (dec (take width d), drop width d))"
begin

lemma header_split:
  "width \<le> length d \<and> h = dec (take width d) \<and> t = drop width d \<longleftrightarrow> d = enc h @ t"
proof
  assume a: "width \<le> length d \<and> h = dec (take width d) \<and> t = drop width d"
  then have "d = enc (dec (take width d)) @ drop width d"
    by (simp only: split_encoded)
  with a show "d = enc h @ t" by simp
qed (simp add: enc_length dec_prefix dec_enc)

lemma parts_Inr:
  "parts p d = Inr (h, t) \<longleftrightarrow> align dvd p \<and> d = enc h @ t \<and> length t = tail_len h"
  using header_split [of d h t] by (auto simp: parts_eq not_less enc_length dec_enc)

lemma uninit_Inr: "uninit p d = Inr (h, t) \<longleftrightarrow> align dvd p \<and> d = enc h @ t"
  using header_split [of d h t] by (auto simp: uninit_eq not_less enc_length dec_enc)

lemma parts_cases: "parts p d = fail InvalidAccountData \<or> (\<exists>h t. parts p d = Inr (h, t))"
  by (simp add: parts_eq)

lemma uninit_cases: "uninit p d = fail InvalidAccountData \<or> (\<exists>h t. uninit p d = Inr (h, t))"
  by (simp add: uninit_eq)

lemma parts_no_panic: "\<not> panics (parts p d)" "\<not> panics (uninit p d)"
  by (simp_all add: parts_eq uninit_eq)

lemma uninit_parts: "parts p d = Inr x \<Longrightarrow> uninit p d = Inr x"
  by (cases x) (simp add: parts_Inr uninit_Inr)

text \<open>A header written over the old one: the account still splits at the same place.\<close>

lemma parts_rewrite:
  "parts p d = Inr (h, t) \<Longrightarrow> tail_len h' = length t' \<Longrightarrow> parts p (enc h' @ t') = Inr (h', t')"
  by (simp add: parts_Inr)

end

section \<open>The header\<close>

record multisig =
  ms_create_key :: address
  ms_config_authority :: address
  ms_rent_collector :: address
  ms_transaction_index :: u64
  ms_stale_transaction_index :: u64
  ms_closed_transaction_count :: u64
  ms_time_lock :: u32
  ms_owners_count :: u32
  ms_voter_count :: u32
  ms_threshold :: u32
  ms_bump :: u8
  ms_pad :: "56 word"

definition MS_LEN :: nat where "MS_LEN = 144"

definition ms_encode :: "multisig \<Rightarrow> bytes" where
  "ms_encode h =
     as_array (ms_create_key h) @ as_array (ms_config_authority h) @ as_array (ms_rent_collector h) @
     to_le_bytes 8 (ms_transaction_index h) @ to_le_bytes 8 (ms_stale_transaction_index h) @
     to_le_bytes 8 (ms_closed_transaction_count h) @
     to_le_bytes 4 (ms_time_lock h) @ to_le_bytes 4 (ms_owners_count h) @
     to_le_bytes 4 (ms_voter_count h) @ to_le_bytes 4 (ms_threshold h) @
     to_le_bytes 1 (ms_bump h) @ to_le_bytes 7 (ms_pad h)"

definition ms_decode :: "bytes \<Rightarrow> multisig" where
  "ms_decode bs =
     \<lparr>ms_create_key = new_from_array (slice 0 32 bs),
      ms_config_authority = new_from_array (slice 32 32 bs),
      ms_rent_collector = new_from_array (slice 64 32 bs),
      ms_transaction_index = from_le_bytes (slice 96 8 bs),
      ms_stale_transaction_index = from_le_bytes (slice 104 8 bs),
      ms_closed_transaction_count = from_le_bytes (slice 112 8 bs),
      ms_time_lock = from_le_bytes (slice 120 4 bs),
      ms_owners_count = from_le_bytes (slice 124 4 bs),
      ms_voter_count = from_le_bytes (slice 128 4 bs),
      ms_threshold = from_le_bytes (slice 132 4 bs),
      ms_bump = from_le_bytes (slice 136 1 bs),
      ms_pad = from_le_bytes (slice 137 7 bs)\<rparr>"

lemma length_ms_encode [simp]: "length (ms_encode h) = 144"
  by (simp add: ms_encode_def)

lemma ms_decode_encode: "ms_decode (ms_encode h) = h"
  by (simp add: ms_decode_def ms_encode_def from_to_le_bytes)

lemma ms_encode_decode: "length bs = 144 \<Longrightarrow> ms_encode (ms_decode bs) = bs"
  by (simp add: ms_decode_def ms_encode_def to_from_le_bytes as_array_new_from_array slice_join)

section \<open>Reading the account\<close>

definition ms_space :: "nat \<Rightarrow> nat" where
  "ms_space owners = MS_LEN + owners * 33"

definition ms_split_parts :: "nat \<Rightarrow> bytes \<Rightarrow> (multisig \<times> bytes) result" where
  "ms_split_parts ptr d =
     (if length d < MS_LEN \<or> ptr mod 8 \<noteq> 0 then fail InvalidAccountData
      else let header = ms_decode (take MS_LEN d); tail = drop MS_LEN d in
        if length tail \<noteq> unat (ms_owners_count header) * 33 then fail InvalidAccountData
        else Inr (header, tail))"

definition ms_load :: "nat \<Rightarrow> bytes \<Rightarrow> (multisig \<times> address list \<times> bytes) result" where
  "ms_load ptr d =
     and_then (ms_split_parts ptr d) (\<lambda>(header, tail).
       let count = unat (ms_owners_count header) in
       Inr (header, decode_array 32 new_from_array count (take (count * 32) tail),
            drop (count * 32) tail))"

text \<open>The mutable counterpart repeats the checks; what is written through it is a new value of the
  account's data, \<open>ms_bytes\<close> of the new parts.\<close>

definition ms_load_mut :: "nat \<Rightarrow> bytes \<Rightarrow> (multisig \<times> address list \<times> bytes) result" where
  "ms_load_mut ptr d =
     (if length d < MS_LEN \<or> ptr mod 8 \<noteq> 0 then fail InvalidAccountData
      else let header = ms_decode (take MS_LEN d); tail = drop MS_LEN d;
               count = unat (ms_owners_count header) in
        if length tail \<noteq> count * 33 then fail InvalidAccountData
        else Inr (header, decode_array 32 new_from_array count (take (count * 32) tail),
                  drop (count * 32) tail))"

definition ms_split_uninitialized :: "nat \<Rightarrow> bytes \<Rightarrow> (multisig \<times> bytes) result" where
  "ms_split_uninitialized ptr d =
     (if length d < MS_LEN \<or> ptr mod 8 \<noteq> 0 then fail InvalidAccountData
      else Inr (ms_decode (take MS_LEN d), drop MS_LEN d))"

definition ms_bytes :: "multisig \<Rightarrow> address list \<Rightarrow> bytes \<Rightarrow> bytes" where
  "ms_bytes h owners permissions = ms_encode h @ encode_array as_array owners @ permissions"

interpretation msl: account_layout ms_encode ms_decode 144 8 "\<lambda>h. unat (ms_owners_count h) * 33"
  ms_split_parts ms_split_uninitialized
  by unfold_locales
     (simp_all add: ms_decode_encode ms_encode_decode ms_split_parts_def
        ms_split_uninitialized_def MS_LEN_def Let_def)

lemma ms_load_mut_eq: "ms_load_mut ptr d = ms_load ptr d"
  by (simp add: ms_load_mut_def ms_load_def ms_split_parts_def Let_def)

lemma ms_load_Inr:
  "ms_load ptr d = Inr (h, os, ps) \<longleftrightarrow>
     8 dvd ptr \<and> d = ms_bytes h os ps \<and>
     length os = unat (ms_owners_count h) \<and> length ps = unat (ms_owners_count h)"
proof
  assume "ms_load ptr d = Inr (h, os, ps)"
  then obtain tail where t: "ms_split_parts ptr d = Inr (h, tail)"
    and os: "os = decode_array 32 new_from_array (unat (ms_owners_count h))
                    (take (unat (ms_owners_count h) * 32) tail)"
    and ps: "ps = drop (unat (ms_owners_count h) * 32) tail"
    by (auto simp: ms_load_def and_then_Inr Let_def split: prod.splits)
  from t have "8 dvd ptr" "d = ms_encode h @ tail" "length tail = unat (ms_owners_count h) * 33"
    by (simp_all add: msl.parts_Inr)
  with os ps show "8 dvd ptr \<and> d = ms_bytes h os ps \<and>
     length os = unat (ms_owners_count h) \<and> length ps = unat (ms_owners_count h)"
    by (simp add: ms_bytes_def addr.encode_decode_array)
next
  assume a: "8 dvd ptr \<and> d = ms_bytes h os ps \<and>
     length os = unat (ms_owners_count h) \<and> length ps = unat (ms_owners_count h)"
  then have "ms_split_parts ptr d = Inr (h, encode_array as_array os @ ps)"
    by (simp add: msl.parts_Inr ms_bytes_def addr.length_encode_array)
  moreover have "take (unat (ms_owners_count h) * 32) (encode_array as_array os @ ps)
      = encode_array as_array os"
    "drop (unat (ms_owners_count h) * 32) (encode_array as_array os @ ps) = ps"
    using a by (simp_all add: addr.length_encode_array mult.commute)
  ultimately show "ms_load ptr d = Inr (h, os, ps)"
    using a addr.decode_encode_array [of os "unat (ms_owners_count h)" "[]"]
    by (simp add: ms_load_def Let_def)
qed

lemma ms_load_cases:
  "ms_load ptr d = fail InvalidAccountData \<or> (\<exists>h os ps. ms_load ptr d = Inr (h, os, ps))"
  using msl.parts_cases [of ptr d] by (auto simp: ms_load_def Let_def)

lemma ms_load_no_panic [simp]: "\<not> panics (ms_load ptr d)"
  using ms_load_cases [of ptr d] by auto

section \<open>Owners and permissions\<close>

definition is_owner :: "address list \<Rightarrow> address \<Rightarrow> nat option" where
  "is_owner owners owner = (case binary_search owners owner of Inr i \<Rightarrow> Some i | Inl _ \<Rightarrow> None)"

definition mask_can_vote :: "u8 \<Rightarrow> bool" where
  "mask_can_vote m \<longleftrightarrow> m = 0 \<or> m AND VOTE \<noteq> 0"

text \<open>\<open>permissions[index]\<close> panics out of range; \<open>index_of\<close> is that read.\<close>

definition index_of :: "'a list \<Rightarrow> nat \<Rightarrow> 'a result" where
  "index_of xs i = (if i < length xs then Inr (xs ! i) else Inl Panicked)"

definition has_permission :: "address list \<Rightarrow> bytes \<Rightarrow> address \<Rightarrow> u8 \<Rightarrow> bool result" where
  "has_permission owners permissions owner permission =
     (case is_owner owners owner of
        Some index \<Rightarrow> and_then (index_of permissions index) (\<lambda>mask.
          Inr (mask = 0 \<or> mask AND permission \<noteq> 0))
      | None \<Rightarrow> Inr False)"

definition cutoff :: "multisig \<Rightarrow> u32" where
  "cutoff h = saturating_sub (ms_voter_count h) (ms_threshold h) + 1"

definition all_transactions_closed :: "multisig \<Rightarrow> bool" where
  "all_transactions_closed h \<longleftrightarrow> ms_closed_transaction_count h = ms_transaction_index h"

definition is_controlled :: "multisig \<Rightarrow> bool" where
  "is_controlled h \<longleftrightarrow> ms_config_authority h \<noteq> default_address"

definition only_executing_transaction_open :: "multisig \<Rightarrow> bool" where
  "only_executing_transaction_open h \<longleftrightarrow>
     checked_add (ms_closed_transaction_count h) 1 = Some (ms_transaction_index h)"

definition invalidate_prior_transactions :: "multisig \<Rightarrow> multisig" where
  "invalidate_prior_transactions h =
     h\<lparr>ms_stale_transaction_index := ms_transaction_index h\<rparr>"

definition ms_invariant :: "multisig \<Rightarrow> unit result" where
  "ms_invariant h =
     (let count = unat (ms_owners_count h) in
      if count = 0 \<or> MAX_OWNER < count then fail InvalidOwnerCount
      else if ms_voter_count h = 0 then fail NoVoters
      else if ms_owners_count h < ms_voter_count h then fail InvalidAccountData
      else if ms_threshold h = 0 \<or> ms_voter_count h < ms_threshold h then fail InvalidThreshold
      else if ms_transaction_index h < ms_stale_transaction_index h \<or>
              ms_transaction_index h < ms_closed_transaction_count h then fail InvalidAccountData
      else if MAX_TIME_LOCK < ms_time_lock h then fail InvalidTimeLock
      else Inr ())"

section \<open>The well-formed configuration\<close>

text \<open>
  What the header alone must satisfy (\<open>ms_invariant\<close>), and what no constant-time check can see:
  the owners are strictly ascending, there is one known permission mask for each, and
  \<open>voter_count\<close> is the number of masks that permit voting.
\<close>

definition voters :: "bytes \<Rightarrow> nat" where
  "voters permissions = length (filter mask_can_vote permissions)"

definition ms_wf :: "multisig \<Rightarrow> address list \<Rightarrow> bytes \<Rightarrow> bool" where
  "ms_wf h owners permissions \<longleftrightarrow>
     ms_invariant h = Inr () \<and>
     length owners = unat (ms_owners_count h) \<and> length permissions = unat (ms_owners_count h) \<and>
     ascending owners \<and>
     unat (ms_voter_count h) = voters permissions \<and>
     (\<forall>mask \<in> set permissions. mask \<le> PERM_ALL)"

lemma ms_invariant_iff:
  "ms_invariant h = Inr u \<longleftrightarrow>
     0 < unat (ms_owners_count h) \<and> unat (ms_owners_count h) \<le> MAX_OWNER \<and>
     0 < unat (ms_threshold h) \<and> unat (ms_threshold h) \<le> unat (ms_voter_count h) \<and>
     unat (ms_voter_count h) \<le> unat (ms_owners_count h) \<and>
     ms_stale_transaction_index h \<le> ms_transaction_index h \<and>
     ms_closed_transaction_count h \<le> ms_transaction_index h \<and>
     ms_time_lock h \<le> MAX_TIME_LOCK"
  by (auto simp: ms_invariant_def Let_def result_simps not_less word_le_nat_alt unat_gt_0
        unat_eq_zero)

lemma ms_invariant_no_panic [simp]: "\<not> panics (ms_invariant h)"
  by (simp add: ms_invariant_def Let_def)

lemma is_owner_Some:
  "is_owner owners owner = Some i \<longleftrightarrow> binary_search owners owner = Inr i"
  by (auto simp: is_owner_def split: sum.splits)

lemma is_owner_nth: "is_owner owners owner = Some i \<Longrightarrow> i < length owners \<and> owners ! i = owner"
  by (simp add: is_owner_Some bs.search_Inr)

lemma is_owner_iff: "ascending owners \<Longrightarrow> (\<exists>i. is_owner owners owner = Some i) \<longleftrightarrow> owner \<in> set owners"
  by (simp add: is_owner_Some bs.search_found_iff)

lemma loaded_owner:
  "ms_load p d = Inr (h, os, ps) \<Longrightarrow> is_owner os a = Some i \<Longrightarrow>
   i < length os \<and> i < length ps \<and> i < unat (ms_owners_count h) \<and> os ! i = a"
  using is_owner_nth [of os a i] by (simp add: ms_load_Inr)

lemma ms_load_nonempty: "ms_load p d = Inr (h, os, ps) \<Longrightarrow> d \<noteq> []"
  by (auto simp: ms_load_Inr ms_bytes_def) (metis length_ms_encode list.size(3) zero_neq_numeral)

lemma index_of_Inr [result_simps]: "index_of xs i = Inr x \<longleftrightarrow> i < length xs \<and> xs ! i = x"
  by (auto simp: index_of_def)

lemma index_of_less [simp]: "i < length xs \<Longrightarrow> index_of xs i = Inr (xs ! i)"
  by (simp add: index_of_def)

lemma has_permission_True:
  "has_permission owners permissions owner p = Inr True \<longleftrightarrow>
     (\<exists>i. is_owner owners owner = Some i \<and> i < length permissions \<and>
          (permissions ! i = 0 \<or> permissions ! i AND p \<noteq> 0))"
  by (auto simp: has_permission_def index_of_def split: option.splits)

lemma has_permission_no_panic:
  "length permissions = length owners \<Longrightarrow> \<not> panics (has_permission owners permissions owner p)"
  by (auto simp: has_permission_def index_of_def dest!: is_owner_nth split: option.splits)

text \<open>Below the cutoff enough voters are left to reach the threshold, and at it they are not.\<close>

lemma cutoff_unreachable:
  assumes "ms_invariant h = Inr ()"
  shows "unat (cutoff h) = unat (ms_voter_count h) - unat (ms_threshold h) + 1"
    and "unat (ms_voter_count h) - unat (cutoff h) < unat (ms_threshold h)"
    and "r < unat (cutoff h) \<Longrightarrow> unat (ms_threshold h) \<le> unat (ms_voter_count h) - r"
proof -
  have b: "unat (ms_voter_count h) \<le> 4096" "0 < unat (ms_threshold h)"
    "unat (ms_threshold h) \<le> unat (ms_voter_count h)"
    using assms by (auto simp: ms_invariant_iff MAX_OWNER_def)
  then show c: "unat (cutoff h) = unat (ms_voter_count h) - unat (ms_threshold h) + 1"
    unfolding cutoff_def
    by (subst unat_add_1_less [of _ 4097]) (simp_all add: unat_saturating_sub)
  show "unat (ms_voter_count h) - unat (cutoff h) < unat (ms_threshold h)"
    and "r < unat (cutoff h) \<Longrightarrow> unat (ms_threshold h) \<le> unat (ms_voter_count h) - r"
    using b by (auto simp: c)
qed

section \<open>Properties\<close>

text \<open>C40: on a strictly ascending owner set the lookup of an owner returns exactly its position, and the search
  behind it compares addresses at most thirteen times on any owner set the program allows, and exactly
  thirteen times on the largest: twelve halvings and the comparison that decides, one more than
  src/constants.rs and the comment at \<open>is_owner\<close> say.\<close>

theorem is_owner_correct:
  assumes "ascending owners"
  shows "(is_owner owners a = Some i \<longleftrightarrow> i < length owners \<and> owners ! i = a) \<and>
     (is_owner owners a = None \<longleftrightarrow> a \<notin> set owners) \<and>
     is_owner owners a = (case fst (counted_search owners a) of Inr j \<Rightarrow> Some j | Inl _ \<Rightarrow> None) \<and>
     (length owners \<le> MAX_OWNER \<longrightarrow> snd (counted_search owners a) \<le> 13) \<and>
     (length owners = MAX_OWNER \<longrightarrow> snd (counted_search owners a) = 13)"
proof -
  have 1: "is_owner owners a = Some i \<longleftrightarrow> i < length owners \<and> owners ! i = a"
    using bs.search_nth [OF assms, of i] by (auto simp: is_owner_Some dest: bs.search_Inr)
  have 2: "is_owner owners a = None \<longleftrightarrow> a \<notin> set owners"
    using is_owner_iff [OF assms, of a] by (cases "is_owner owners a") auto
  have 3: "is_owner owners a = (case fst (counted_search owners a) of Inr j \<Rightarrow> Some j | Inl _ \<Rightarrow> None)"
    by (simp add: is_owner_def binary_search_def)
  have 4: "length owners \<le> MAX_OWNER \<Longrightarrow> snd (counted_search owners a) \<le> 13"
    using comparisons_le [of owners 12 a] by (simp add: MAX_OWNER_def)
  have 5: "length owners = MAX_OWNER \<Longrightarrow> 13 \<le> snd (counted_search owners a)"
    using comparisons_ge [of 12 owners a] by (simp add: MAX_OWNER_def)
  from 1 2 3 4 5 show ?thesis by fastforce
qed

text \<open>\<open>cutoff\<close> is the exact number of rejections at which the threshold is out of reach: as many
  rejections leave too few voters, and one fewer leaves enough.\<close>

lemma cutoff_exact:
  assumes "ms_wf c owners permissions"
  shows "unat (cutoff c) \<le> r \<longleftrightarrow> voters permissions - r < unat (ms_threshold c)"
proof -
  have "ms_invariant c = Inr ()" "unat (ms_voter_count c) = voters permissions"
    using assms by (simp_all add: ms_wf_def)
  then show ?thesis
    using cutoff_unreachable(1) [of c] by (auto simp: ms_invariant_iff)
qed

end
