(* ===== verification/Bitmap.thy ===== *)
theory Bitmap
  imports Bytes
begin

text \<open>
  The vote bitmaps of src/state/bitmap.rs, and the locale \<open>vote_set\<close>: what a set of votes
  promises its users. The bitmap is its interpretation.
\<close>

definition len_for :: "nat \<Rightarrow> nat" where
  "len_for n = (n + 7) div 8"

definition bitmap_get :: "bytes \<Rightarrow> nat \<Rightarrow> bool" where
  "bitmap_get bits index =
     (if index div 8 < length bits
      then bits ! (index div 8) AND push_bit (index mod 8) 1 \<noteq> 0
      else False)"

text \<open>\<open>bitmap::set\<close>: the updated bytes, and whether the bit was clear before.\<close>

definition bitmap_set :: "bytes \<Rightarrow> nat \<Rightarrow> bytes \<times> bool" where
  "bitmap_set bits index =
     (if index div 8 < length bits
      then let byte = bits ! (index div 8); mask = push_bit (index mod 8) 1 in
           (bits[index div 8 := byte OR mask], byte AND mask = 0)
      else (bits, False))"

definition count_ones :: "u8 \<Rightarrow> nat" where
  "count_ones b = length (filter (bit b) [0..<8])"

definition bitmap_count :: "bytes \<Rightarrow> nat" where
  "bitmap_count bits = sum_list (map count_ones bits)"

section \<open>Bits\<close>

lemma and_mask_eq_0: "w AND 2 ^ n \<noteq> 0 \<longleftrightarrow> bit w n" for w :: u8
proof -
  have "bit w n" if "bit (w AND 2 ^ n) k" for k
    using that by (auto simp: bit_and_iff bit_exp_iff)
  moreover have "bit (w AND 2 ^ n) n" if "bit w n"
    using that bit_imp_le_length [OF that] by (auto simp: bit_and_iff bit_exp_iff)
  ultimately show ?thesis by (metis bit_0_eq bit_eqI bot_apply bot_bool_def)
qed

lemma bitmap_get_iff:
  "bitmap_get bits i \<longleftrightarrow> i div 8 < length bits \<and> bit (bits ! (i div 8)) (i mod 8)"
  using and_mask_eq_0 [of "bits ! (i div 8)" "i mod 8"] by (simp add: bitmap_get_def)

lemma length_bitmap_set [simp]: "length (fst (bitmap_set bits i)) = length bits"
  by (simp add: bitmap_set_def Let_def)

lemma bitmap_set_was_clear:
  "snd (bitmap_set bits i) \<longleftrightarrow> i div 8 < length bits \<and> \<not> bitmap_get bits i"
  using and_mask_eq_0 [of "bits ! (i div 8)" "i mod 8"]
  by (auto simp: bitmap_set_def bitmap_get_def Let_def)

lemma bit_or_mask: "n < 8 \<Longrightarrow> bit (w OR 2 ^ n) k \<longleftrightarrow> k = n \<or> bit w k" for w :: u8
  by (auto simp: bit_or_iff bit_exp_iff)

lemma eq_iff_div_mod_8: "j = i \<longleftrightarrow> j div 8 = i div 8 \<and> j mod 8 = i mod 8" for i j :: nat
  by (metis mult_div_mod_eq)

lemma bitmap_get_set:
  assumes "i div 8 < length bits"
  shows "bitmap_get (fst (bitmap_set bits i)) j \<longleftrightarrow> j = i \<or> bitmap_get bits j"
  unfolding eq_iff_div_mod_8 [of j i]
  using assms
  by (cases "j div 8 = i div 8")
     (simp_all add: bitmap_set_def bitmap_get_iff Let_def bit_or_mask)

lemma bitmap_get_replicate_0 [simp]: "\<not> bitmap_get (replicate n 0) i"
  by (simp add: bitmap_get_iff)

lemma le_len_for: "i < n \<Longrightarrow> i div 8 < len_for n"
  by (simp add: len_for_def less_eq_div_iff_mult_less_eq flip: Suc_le_eq)

lemma len_for_pos: "0 < n \<Longrightarrow> 0 < len_for n"
  by (simp add: len_for_def)

lemma len_for_mono: "m \<le> n \<Longrightarrow> len_for m \<le> len_for n"
  by (simp add: len_for_def div_le_mono)

section \<open>The number of set bits\<close>

lemma bitmap_count_Cons: "bitmap_count (b # bs) = count_ones b + bitmap_count bs"
  by (simp add: bitmap_count_def)

lemma count_ones_card: "count_ones b = card {k. k < 8 \<and> bit b k}"
proof -
  have "set (filter (bit b) [0..<8]) = {k. k < 8 \<and> bit b k}" by auto
  then show ?thesis
    by (metis count_ones_def distinct_card distinct_filter distinct_upt)
qed

lemma bitmap_get_Cons:
  "bitmap_get (b # bs) i \<longleftrightarrow> (if i < 8 then bit b i else bitmap_get bs (i - 8))"
  by (auto simp: bitmap_get_iff le_div_geq le_mod_geq)

lemma finite_bitmap [simp]: "finite {i. bitmap_get bits i}"
proof (rule finite_subset)
  show "{i. bitmap_get bits i} \<subseteq> {..< 8 * length bits}"
    by (auto simp: bitmap_get_iff)
qed simp

lemma bitmap_count_card: "bitmap_count bits = card {i. bitmap_get bits i}"
proof (induction bits)
  case Nil
  then show ?case by (simp add: bitmap_count_def bitmap_get_iff)
next
  case (Cons b bs)
  let ?low = "{k. k < 8 \<and> bit b k}" and ?high = "(+) 8 ` {i. bitmap_get bs i}"
  have "{i. bitmap_get (b # bs) i} = ?low \<union> ?high"
  proof (intro set_eqI iffI)
    fix i
    assume "i \<in> {i. bitmap_get (b # bs) i}"
    then show "i \<in> ?low \<union> ?high"
      by (cases "i < 8") (auto simp: bitmap_get_Cons intro: image_eqI [of _ _ "i - 8"])
  qed (auto simp: bitmap_get_Cons)
  moreover have "?low \<inter> ?high = {}" by auto
  moreover have "card ?high = bitmap_count bs"
    by (simp add: Cons.IH card_image)
  ultimately show ?case
    by (simp add: card_Un_disjoint bitmap_count_Cons count_ones_card)
qed

section \<open>What a set of votes promises\<close>

text \<open>
  \<open>votes\<close> reads a position, \<open>cast\<close> adds one and says whether it was new, \<open>cap\<close> bounds the
  positions that can be stored, \<open>tally\<close> counts the positions present.
\<close>

locale vote_set =
  fixes votes :: "'s \<Rightarrow> nat \<Rightarrow> bool"
    and cast :: "'s \<Rightarrow> nat \<Rightarrow> 's \<times> bool"
    and cap :: "'s \<Rightarrow> nat"
    and tally :: "'s \<Rightarrow> nat"
  assumes votes_cap: "votes s i \<Longrightarrow> i < cap s"
    and votes_cast: "i < cap s \<Longrightarrow> votes (fst (cast s i)) j \<longleftrightarrow> j = i \<or> votes s j"
    and cast_fresh: "snd (cast s i) \<longleftrightarrow> i < cap s \<and> \<not> votes s i"
    and cap_cast: "cap (fst (cast s i)) = cap s"
    and tally_card: "tally s = card {i. votes s i}"
begin

lemma finite_votes: "finite {i. votes s i}"
  by (rule finite_subset [of _ "{..< cap s}"]) (auto dest: votes_cap)

lemma tally_cast_fresh:
  assumes "snd (cast s i)"
  shows "tally (fst (cast s i)) = Suc (tally s)"
proof -
  have i: "i < cap s" "\<not> votes s i" using assms by (simp_all add: cast_fresh)
  then have "{j. votes (fst (cast s i)) j} = insert i {j. votes s j}"
    by (auto simp: votes_cast)
  with i show ?thesis by (simp add: tally_card finite_votes)
qed

lemma cast_twice: "\<not> snd (cast (fst (cast s i)) i)"
  by (cases "i < cap s") (simp_all add: cast_fresh votes_cast cap_cast)

lemma tally_le_bound: "(\<And>i. votes s i \<Longrightarrow> i < n) \<Longrightarrow> tally s \<le> n"
  using card_mono [of "{..<n}" "{i. votes s i}"] by (auto simp: tally_card subset_eq)

lemma tally_disjoint_bound:
  assumes "\<And>i. votes s i \<Longrightarrow> i < n" "\<And>i. votes t i \<Longrightarrow> i < n"
    and "\<And>i. \<not> (votes s i \<and> votes t i)"
  shows "tally s + tally t \<le> n"
proof -
  have "tally s + tally t = card ({i. votes s i} \<union> {i. votes t i})"
    unfolding tally_card using assms(3)
    by (subst card_Un_disjoint) (auto simp: finite_votes)
  also have "\<dots> \<le> card {..<n}" using assms(1,2) by (intro card_mono) auto
  finally show ?thesis by simp
qed

lemma tally_pigeon:
  assumes "\<And>i. votes s i \<Longrightarrow> i < n" "i < n" "\<not> votes s i"
  shows "tally s < n"
proof -
  have "{i. votes s i} \<subset> {..<n}" using assms by auto
  then show ?thesis unfolding tally_card using psubset_card_mono [of "{..<n}"] by simp
qed

end

interpretation bm: vote_set bitmap_get bitmap_set "\<lambda>bits. 8 * length bits" bitmap_count
proof unfold_locales
  fix bits :: bytes and i j :: nat
  show "i < 8 * length bits" if "bitmap_get bits i"
    using that by (auto simp: bitmap_get_iff)
  show "bitmap_get (fst (bitmap_set bits i)) j \<longleftrightarrow> j = i \<or> bitmap_get bits j"
    if "i < 8 * length bits"
  proof -
    from that have "i div 8 < length bits" by auto
    then show ?thesis by (rule bitmap_get_set)
  qed
  show "snd (bitmap_set bits i) \<longleftrightarrow> i < 8 * length bits \<and> \<not> bitmap_get bits i"
    by (auto simp: bitmap_set_was_clear)
  show "8 * length (fst (bitmap_set bits i)) = 8 * length bits" by simp
  show "bitmap_count bits = card {i. bitmap_get bits i}" by (rule bitmap_count_card)
qed

section \<open>Properties\<close>

text \<open>Setting the bit of an owner's position in a bitmap sized for the owner set sets that bit and
  no other, keeps the size, adds one to the count exactly when the bit was clear, and says which.\<close>

lemma bitmap_set_correct:
  assumes "i < n" "length bits = len_for n"
  shows "length (fst (bitmap_set bits i)) = len_for n \<and>
     (\<forall>j. bitmap_get (fst (bitmap_set bits i)) j \<longleftrightarrow> j = i \<or> bitmap_get bits j) \<and>
     (snd (bitmap_set bits i) \<longleftrightarrow> \<not> bitmap_get bits i) \<and>
     bitmap_count (fst (bitmap_set bits i)) = bitmap_count bits + (if bitmap_get bits i then 0 else 1)"
proof -
  have cap: "i < 8 * length bits" using le_len_for [OF assms(1)] assms(2) by simp
  have fresh: "snd (bitmap_set bits i) \<longleftrightarrow> \<not> bitmap_get bits i" using cap by (simp add: bm.cast_fresh)
  have get: "bitmap_get (fst (bitmap_set bits i)) j \<longleftrightarrow> j = i \<or> bitmap_get bits j" for j
    by (rule bm.votes_cast [OF cap])
  have "bitmap_count (fst (bitmap_set bits i)) = bitmap_count bits" if "bitmap_get bits i"
  proof -
    have "{j. bitmap_get (fst (bitmap_set bits i)) j} = {j. bitmap_get bits j}" using that get by auto
    then show ?thesis by (simp add: bm.tally_card)
  qed
  moreover have "bitmap_count (fst (bitmap_set bits i)) = Suc (bitmap_count bits)" if "\<not> bitmap_get bits i"
    using that fresh by (intro bm.tally_cast_fresh) simp
  ultimately show ?thesis using assms(2) get fresh by simp
qed

end
