(* ===== verification/Transaction_State.thy ===== *)
theory Transaction_State
  imports Multisig_State Bitmap
begin

text \<open>
  The proposal account of src/state/transaction.rs: a 112-byte header, three vote bitmaps sized
  to the owner count at creation, and the compiled message. \<open>tx_wf\<close> is the well-formedness of
  a proposal: the counters are the numbers of bits set, no owner both approved and rejected, and no
  bit is set past the owner count.
\<close>

definition MAX_MESSAGE_SIZE :: nat where "MAX_MESSAGE_SIZE = 4096"

definition MAX_EPHEMERAL_SIGNERS :: nat where "MAX_EPHEMERAL_SIGNERS = 4"

section \<open>Status\<close>

datatype transaction_status = Active | Approved | Rejected | Executed | Cancelled

fun status_to_u8 :: "transaction_status \<Rightarrow> u8" where
  "status_to_u8 Active = 0"
| "status_to_u8 Approved = 1"
| "status_to_u8 Rejected = 2"
| "status_to_u8 Executed = 3"
| "status_to_u8 Cancelled = 4"

definition status_from_u8 :: "u8 \<Rightarrow> transaction_status result" where
  "status_from_u8 v =
     (if v = 0 then Inr Active
      else if v = 1 then Inr Approved
      else if v = 2 then Inr Rejected
      else if v = 3 then Inr Executed
      else if v = 4 then Inr Cancelled
      else fail UnknownStatus)"

lemma status_round_trip [simp]: "status_from_u8 (status_to_u8 st) = Inr st"
  by (cases st) (simp_all add: status_from_u8_def)

lemma status_from_u8_Inr: "status_from_u8 v = Inr st \<longleftrightarrow> v = status_to_u8 st"
  by (cases st) (auto simp: status_from_u8_def)

lemma status_to_u8_inject [simp]: "status_to_u8 a = status_to_u8 b \<longleftrightarrow> a = b"
  by (metis status_round_trip sum.inject(2))

lemma status_no_panic [simp]: "\<not> panics (status_from_u8 v)"
  by (simp add: status_from_u8_def)

text \<open>The transitions the enum's documentation calls legal.\<close>

inductive status_step :: "transaction_status \<Rightarrow> transaction_status \<Rightarrow> bool" where
  "status_step Active Approved"
| "status_step Active Rejected"
| "status_step Active Cancelled"
| "status_step Approved Executed"
| "status_step Approved Cancelled"

code_pred status_step .

inductive_cases status_step_from_terminal:
  "status_step Rejected t" "status_step Executed t" "status_step Cancelled t"

inductive_simps status_step_simps [simp]:
  "status_step Active t" "status_step Approved t" "status_step Rejected t"
  "status_step Executed t" "status_step Cancelled t"

section \<open>The header\<close>

text \<open>\<open>[u8; MAX_EPHEMERAL_SIGNERS]\<close>.\<close>

type_synonym bumps4 = "u8 \<times> u8 \<times> u8 \<times> u8"

fun bumps_list :: "bumps4 \<Rightarrow> bytes" where
  "bumps_list (a, b, c, d) = [a, b, c, d]"

definition bumps_of :: "bytes \<Rightarrow> bumps4" where
  "bumps_of bs = (bs ! 0, bs ! 1, bs ! 2, bs ! 3)"

lemma length_bumps_list [simp]: "length (bumps_list b) = 4"
  by (cases b) simp

lemma bumps_of_list [simp]: "bumps_of (bumps_list b) = b"
  by (cases b) (simp add: bumps_of_def)

lemma bumps_list_of: "length bs = 4 \<Longrightarrow> bumps_list (bumps_of bs) = bs"
  by (auto simp: bumps_of_def length_Suc_conv numeral_eq_Suc)

record transaction =
  tx_multisig :: address
  tx_creator :: address
  tx_index :: u64
  tx_approved_at :: u64
  tx_owners_count :: u32
  tx_approved_count :: u32
  tx_rejected_count :: u32
  tx_cancelled_count :: u32
  tx_message_len :: u32
  tx_status :: u8
  tx_bump :: u8
  tx_vault_index :: u8
  tx_vault_bump :: u8
  tx_ephemeral_count :: u8
  tx_ephemeral_bumps :: bumps4
  tx_pad :: "24 word"

definition TX_LEN :: nat where "TX_LEN = 112"

definition tx_encode :: "transaction \<Rightarrow> bytes" where
  "tx_encode h =
     as_array (tx_multisig h) @ as_array (tx_creator h) @
     to_le_bytes 8 (tx_index h) @ to_le_bytes 8 (tx_approved_at h) @
     to_le_bytes 4 (tx_owners_count h) @ to_le_bytes 4 (tx_approved_count h) @
     to_le_bytes 4 (tx_rejected_count h) @ to_le_bytes 4 (tx_cancelled_count h) @
     to_le_bytes 4 (tx_message_len h) @
     to_le_bytes 1 (tx_status h) @ to_le_bytes 1 (tx_bump h) @
     to_le_bytes 1 (tx_vault_index h) @ to_le_bytes 1 (tx_vault_bump h) @
     to_le_bytes 1 (tx_ephemeral_count h) @
     bumps_list (tx_ephemeral_bumps h) @ to_le_bytes 3 (tx_pad h)"

definition tx_decode :: "bytes \<Rightarrow> transaction" where
  "tx_decode bs =
     \<lparr>tx_multisig = new_from_array (slice 0 32 bs),
      tx_creator = new_from_array (slice 32 32 bs),
      tx_index = from_le_bytes (slice 64 8 bs),
      tx_approved_at = from_le_bytes (slice 72 8 bs),
      tx_owners_count = from_le_bytes (slice 80 4 bs),
      tx_approved_count = from_le_bytes (slice 84 4 bs),
      tx_rejected_count = from_le_bytes (slice 88 4 bs),
      tx_cancelled_count = from_le_bytes (slice 92 4 bs),
      tx_message_len = from_le_bytes (slice 96 4 bs),
      tx_status = from_le_bytes (slice 100 1 bs),
      tx_bump = from_le_bytes (slice 101 1 bs),
      tx_vault_index = from_le_bytes (slice 102 1 bs),
      tx_vault_bump = from_le_bytes (slice 103 1 bs),
      tx_ephemeral_count = from_le_bytes (slice 104 1 bs),
      tx_ephemeral_bumps = bumps_of (slice 105 4 bs),
      tx_pad = from_le_bytes (slice 109 3 bs)\<rparr>"

lemma length_tx_encode [simp]: "length (tx_encode h) = 112"
  by (simp add: tx_encode_def)

lemma tx_decode_encode: "tx_decode (tx_encode h) = h"
  by (simp add: tx_decode_def tx_encode_def from_to_le_bytes)

lemma tx_encode_decode: "length bs = 112 \<Longrightarrow> tx_encode (tx_decode bs) = bs"
  by (simp add: tx_decode_def tx_encode_def to_from_le_bytes as_array_new_from_array bumps_list_of
      slice_join)

section \<open>Reading the account\<close>

record votes =
  v_approved :: bytes
  v_rejected :: bytes
  v_cancelled :: bytes

definition has_voted :: "votes \<Rightarrow> nat \<Rightarrow> bool" where
  "has_voted v index \<longleftrightarrow>
     bitmap_get (v_approved v) index \<or> bitmap_get (v_rejected v) index \<or>
     bitmap_get (v_cancelled v) index"

definition tx_space :: "nat \<Rightarrow> nat \<Rightarrow> nat" where
  "tx_space owners message_len = TX_LEN + 3 * len_for owners + message_len"

definition tx_check :: "nat \<Rightarrow> bytes \<Rightarrow> unit result" where
  "tx_check ptr d =
     (if length d < TX_LEN \<or> ptr mod 8 \<noteq> 0 then fail InvalidAccountData else Inr ())"

text \<open>\<open>split_at(bits)\<close> three times on the tail.\<close>

definition split_votes :: "nat \<Rightarrow> bytes \<Rightarrow> votes \<times> bytes" where
  "split_votes bits tail =
     (\<lparr>v_approved = take bits tail, v_rejected = take bits (drop bits tail),
       v_cancelled = take bits (drop (bits + bits) tail)\<rparr>, drop (bits + bits + bits) tail)"

definition tx_load :: "nat \<Rightarrow> bytes \<Rightarrow> (transaction \<times> votes \<times> bytes) result" where
  "tx_load ptr d =
     and_then (tx_check ptr d) (\<lambda>_.
       let header = tx_decode (take TX_LEN d); tail = drop TX_LEN d;
           bits = len_for (unat (tx_owners_count header)) in
       if length tail \<noteq> 3 * bits + unat (tx_message_len header) then fail InvalidAccountData
       else let (v, message) = split_votes bits tail in Inr (header, v, message))"

definition tx_load_mut :: "nat \<Rightarrow> bytes \<Rightarrow> (transaction \<times> votes \<times> bytes) result" where
  "tx_load_mut ptr d =
     (if length d < TX_LEN \<or> ptr mod 8 \<noteq> 0 then fail InvalidAccountData
      else let header = tx_decode (take TX_LEN d); tail = drop TX_LEN d;
               bits = len_for (unat (tx_owners_count header)) in
        if length tail \<noteq> 3 * bits + unat (tx_message_len header) then fail InvalidAccountData
        else let (v, message) = split_votes bits tail in Inr (header, v, message))"

definition tx_split_uninitialized :: "nat \<Rightarrow> bytes \<Rightarrow> (transaction \<times> bytes) result" where
  "tx_split_uninitialized ptr d =
     (if length d < TX_LEN \<or> ptr mod 8 \<noteq> 0 then fail InvalidAccountData
      else Inr (tx_decode (take TX_LEN d), drop TX_LEN d))"

definition tx_bytes :: "transaction \<Rightarrow> votes \<Rightarrow> bytes \<Rightarrow> bytes" where
  "tx_bytes h v message =
     tx_encode h @ v_approved v @ v_rejected v @ v_cancelled v @ message"

text \<open>The checks and the split of a proposal, in the shape the three kinds of accounts share.\<close>

definition tx_parts :: "nat \<Rightarrow> bytes \<Rightarrow> (transaction \<times> bytes) result" where
  "tx_parts ptr d =
     and_then (tx_check ptr d) (\<lambda>_.
       let header = tx_decode (take TX_LEN d); tail = drop TX_LEN d in
       if length tail \<noteq> 3 * len_for (unat (tx_owners_count header)) + unat (tx_message_len header)
       then fail InvalidAccountData else Inr (header, tail))"

interpretation txl: account_layout tx_encode tx_decode 112 8
  "\<lambda>h. 3 * len_for (unat (tx_owners_count h)) + unat (tx_message_len h)"
  tx_parts tx_split_uninitialized
  by unfold_locales
     (simp_all add: tx_decode_encode tx_encode_decode tx_parts_def tx_check_def
        tx_split_uninitialized_def TX_LEN_def Let_def)

definition votes_fit :: "transaction \<Rightarrow> votes \<Rightarrow> bool" where
  "votes_fit h v \<longleftrightarrow>
     length (v_approved v) = len_for (unat (tx_owners_count h)) \<and>
     length (v_rejected v) = len_for (unat (tx_owners_count h)) \<and>
     length (v_cancelled v) = len_for (unat (tx_owners_count h))"

lemma tx_load_mut_eq: "tx_load_mut ptr d = tx_load ptr d"
  by (simp add: tx_load_mut_def tx_load_def tx_check_def)

lemma tx_load_parts:
  "tx_load ptr d = and_then (tx_parts ptr d) (\<lambda>(h, tail).
     let (v, message) = split_votes (len_for (unat (tx_owners_count h))) tail in
     Inr (h, v, message))"
  by (simp add: tx_load_def tx_parts_def tx_check_def Let_def)

lemma split_votes_iff:
  "length tail = 3 * bits + n \<Longrightarrow>
   split_votes bits tail = (v, message) \<longleftrightarrow>
     tail = v_approved v @ v_rejected v @ v_cancelled v @ message \<and>
     length (v_approved v) = bits \<and> length (v_rejected v) = bits \<and> length (v_cancelled v) = bits"
proof
  assume len: "length tail = 3 * bits + n" and s: "split_votes bits tail = (v, message)"
  have "take bits tail @ take bits (drop bits tail) @ take bits (drop (bits + bits) tail) @
        drop (bits + bits + bits) tail = tail"
    by (metis append_take_drop_id drop_drop add.commute)
  with len s show "tail = v_approved v @ v_rejected v @ v_cancelled v @ message \<and>
     length (v_approved v) = bits \<and> length (v_rejected v) = bits \<and> length (v_cancelled v) = bits"
    by (auto simp: split_votes_def)
qed (cases v, simp add: split_votes_def)

lemma tx_load_Inr:
  "tx_load ptr d = Inr (h, v, message) \<longleftrightarrow>
     8 dvd ptr \<and> d = tx_bytes h v message \<and> votes_fit h v \<and>
     length message = unat (tx_message_len h)"
proof -
  have "tx_load ptr d = Inr (h, v, message) \<longleftrightarrow>
      (\<exists>tail. 8 dvd ptr \<and> d = tx_encode h @ tail \<and>
         length tail = 3 * len_for (unat (tx_owners_count h)) + unat (tx_message_len h) \<and>
         split_votes (len_for (unat (tx_owners_count h))) tail = (v, message))"
    by (auto simp: tx_load_parts and_then_Inr txl.parts_Inr split: prod.splits)
  also have "\<dots> \<longleftrightarrow> 8 dvd ptr \<and> d = tx_bytes h v message \<and> votes_fit h v \<and>
     length message = unat (tx_message_len h)"
    by (auto simp: split_votes_iff tx_bytes_def votes_fit_def)
  finally show ?thesis .
qed

lemma tx_load_cases:
  "tx_load ptr d = fail InvalidAccountData \<or> (\<exists>h v m. tx_load ptr d = Inr (h, v, m))"
  using txl.parts_cases [of ptr d] by (auto simp: tx_load_parts split: prod.splits)

lemma tx_load_no_panic [simp]: "\<not> panics (tx_load ptr d)"
  using tx_load_cases [of ptr d] by auto

section \<open>Rules of the header\<close>

definition tx_invariant :: "transaction \<Rightarrow> unit result" where
  "tx_invariant h =
     and_then (status_from_u8 (tx_status h)) (\<lambda>_.
       let owners = unat (tx_owners_count h) in
       if owners = 0 \<or> MAX_OWNER < owners then fail InvalidOwnerCount
       else if owners < unat (tx_approved_count h) + unat (tx_rejected_count h) \<or>
               owners < unat (tx_cancelled_count h) then fail InvalidAccountData
       else if MAX_MESSAGE_SIZE < unat (tx_message_len h) then fail InvalidMessage
       else if MAX_EPHEMERAL_SIGNERS < unat (tx_ephemeral_count h) then fail InvalidAccountData
       else Inr ())"

text \<open>\<open>ephemeral_bumps[..ephemeral_count]\<close>, which panics when the count is past the array.\<close>

definition ephemeral_bumps :: "transaction \<Rightarrow> bytes result" where
  "ephemeral_bumps h =
     (if unat (tx_ephemeral_count h) \<le> length (bumps_list (tx_ephemeral_bumps h))
      then Inr (take (unat (tx_ephemeral_count h)) (bumps_list (tx_ephemeral_bumps h)))
      else Inl Panicked)"

lemma tx_invariant_iff:
  "tx_invariant h = Inr u \<longleftrightarrow>
     (\<exists>st. tx_status h = status_to_u8 st) \<and>
     0 < unat (tx_owners_count h) \<and> unat (tx_owners_count h) \<le> MAX_OWNER \<and>
     unat (tx_approved_count h) + unat (tx_rejected_count h) \<le> unat (tx_owners_count h) \<and>
     unat (tx_cancelled_count h) \<le> unat (tx_owners_count h) \<and>
     unat (tx_message_len h) \<le> MAX_MESSAGE_SIZE \<and>
     unat (tx_ephemeral_count h) \<le> MAX_EPHEMERAL_SIGNERS"
  by (auto simp: tx_invariant_def Let_def result_simps not_less status_from_u8_Inr)

lemma tx_invariant_no_panic [simp]: "\<not> panics (tx_invariant h)"
  by (simp add: tx_invariant_def Let_def)

section \<open>The well-formed proposal\<close>

definition tx_wf :: "transaction \<Rightarrow> votes \<Rightarrow> bytes \<Rightarrow> bool" where
  "tx_wf h v message \<longleftrightarrow>
     tx_invariant h = Inr () \<and> votes_fit h v \<and> length message = unat (tx_message_len h) \<and>
     unat (tx_approved_count h) = bitmap_count (v_approved v) \<and>
     unat (tx_rejected_count h) = bitmap_count (v_rejected v) \<and>
     unat (tx_cancelled_count h) = bitmap_count (v_cancelled v) \<and>
     (\<forall>i. bitmap_get (v_approved v) i \<or> bitmap_get (v_rejected v) i \<or> bitmap_get (v_cancelled v) i
        \<longrightarrow> i < unat (tx_owners_count h)) \<and>
     (\<forall>i. \<not> (bitmap_get (v_approved v) i \<and> bitmap_get (v_rejected v) i))"

end
