(* ===== verification/Ballot.thy ===== *)
theory Ballot
  imports Transaction_State
begin

text \<open>
  What voting on a proposal promises, without bytes: a ballot is a status and three sets of owners, and
  \<open>ballot_step V k\<close> is one decision among the voters \<open>V\<close> with threshold \<open>k\<close>. The documentation of
  the status enum in src/state/transaction.rs and of the vote instructions is the source of the
  rules. \<open>Proposal_Life\<close> shows that the handlers implement them.
\<close>

record ballot =
  b_status :: transaction_status
  b_approved :: "address set"
  b_rejected :: "address set"
  b_cancelled :: "address set"

definition fresh_ballot :: ballot where
  "fresh_ballot = \<lparr>b_status = Active, b_approved = {}, b_rejected = {}, b_cancelled = {}\<rparr>"

inductive ballot_step :: "address set \<Rightarrow> nat \<Rightarrow> ballot \<Rightarrow> ballot \<Rightarrow> bool" for V k where
  approve: "b_status b = Active \<Longrightarrow> a \<in> V \<Longrightarrow> a \<notin> b_approved b \<union> b_rejected b \<Longrightarrow>
    ballot_step V k b (b\<lparr>b_approved := insert a (b_approved b),
      b_status := (if k \<le> card (insert a (b_approved b)) then Approved else Active)\<rparr>)"
| reject: "b_status b = Active \<Longrightarrow> a \<in> V \<Longrightarrow> a \<notin> b_approved b \<union> b_rejected b \<Longrightarrow>
    ballot_step V k b (b\<lparr>b_rejected := insert a (b_rejected b),
      b_status := (if card V - card (insert a (b_rejected b)) < k then Rejected else Active)\<rparr>)"
| withdraw: "b_status b = Active \<Longrightarrow> ballot_step V k b (b\<lparr>b_status := Cancelled\<rparr>)"
| vote_cancel: "b_status b = Approved \<Longrightarrow> a \<in> V \<Longrightarrow> a \<notin> b_cancelled b \<Longrightarrow>
    ballot_step V k b (b\<lparr>b_cancelled := insert a (b_cancelled b),
      b_status := (if k \<le> card (insert a (b_cancelled b)) then Cancelled else Approved)\<rparr>)"
| execute: "b_status b = Approved \<Longrightarrow> ballot_step V k b (b\<lparr>b_status := Executed\<rparr>)"

inductive_cases ballot_stepE: "ballot_step V k b b'"

text \<open>What holds of a ballot in each status.\<close>

definition ballot_ok :: "address set \<Rightarrow> nat \<Rightarrow> ballot \<Rightarrow> bool" where
  "ballot_ok V k b \<longleftrightarrow>
     b_approved b \<union> b_rejected b \<union> b_cancelled b \<subseteq> V \<and> b_approved b \<inter> b_rejected b = {} \<and>
     (case b_status b of
        Active \<Rightarrow> card (b_approved b) < k \<and> k \<le> card V - card (b_rejected b) \<and> b_cancelled b = {}
      | Approved \<Rightarrow> k \<le> card (b_approved b) \<and> card (b_cancelled b) < k
      | Rejected \<Rightarrow> card V - card (b_rejected b) < k \<and> card (b_approved b) < k
      | Executed \<Rightarrow> k \<le> card (b_approved b) \<and> card (b_cancelled b) < k
      | Cancelled \<Rightarrow> card (b_approved b) < k \<and> b_cancelled b = {} \<or>
                    k \<le> card (b_approved b) \<and> k \<le> card (b_cancelled b))"

text \<open>How much can still happen: the votes not cast, and the status changes left.\<close>

definition ballot_left :: "address set \<Rightarrow> ballot \<Rightarrow> nat" where
  "ballot_left V b = card (V - (b_approved b \<union> b_rejected b)) + card (V - b_cancelled b) +
     (case b_status b of Active \<Rightarrow> 2 | Approved \<Rightarrow> 1 | _ \<Rightarrow> 0)"

inductive ballot_run :: "address set \<Rightarrow> nat \<Rightarrow> nat \<Rightarrow> ballot \<Rightarrow> ballot \<Rightarrow> bool" for V k where
  stop: "ballot_run V k 0 b b"
| move: "ballot_step V k b b' \<Longrightarrow> ballot_run V k n b' b'' \<Longrightarrow> ballot_run V k (Suc n) b b''"

text \<open>A run may also go on at its end; no decision is taken back, and an executed ballot is over.\<close>

lemma ballot_run_snoc: "ballot_run V k n b b' \<Longrightarrow> ballot_step V k b' b'' \<Longrightarrow> ballot_run V k (Suc n) b b''"
  by (induction rule: ballot_run.induct) (auto intro: ballot_run.intros)

lemma ballot_step_keeps:
  "ballot_step V k b b' \<Longrightarrow> b_approved b \<subseteq> b_approved b' \<and> b_rejected b \<subseteq> b_rejected b' \<and> b_cancelled b \<subseteq> b_cancelled b'"
  by (auto elim!: ballot_stepE)

lemma ballot_run_keeps:
  "ballot_run V k n b b' \<Longrightarrow> b_approved b \<subseteq> b_approved b' \<and> b_rejected b \<subseteq> b_rejected b' \<and> b_cancelled b \<subseteq> b_cancelled b'"
  by (induction rule: ballot_run.induct) (blast dest: ballot_step_keeps)+

section \<open>An electorate\<close>

text \<open>The contract between a configuration and the votes taken under it: who may vote, and how many
  are needed, a number the voters can reach.\<close>

locale electorate =
  fixes valid :: "'c \<Rightarrow> bool" and members :: "'c \<Rightarrow> address set" and quorum :: "'c \<Rightarrow> nat"
  assumes members_finite: "finite (members c)"
    and quorum_pos: "valid c \<Longrightarrow> 0 < quorum c"
    and quorum_le: "valid c \<Longrightarrow> quorum c \<le> card (members c)"
begin

lemma fresh_ok: "valid c \<Longrightarrow> ballot_ok (members c) (quorum c) fresh_ballot"
  using quorum_pos quorum_le by (simp add: ballot_ok_def fresh_ballot_def)

lemma step_ok:
  assumes "valid c" "ballot_step (members c) (quorum c) b b'" "ballot_ok (members c) (quorum c) b"
  shows "ballot_ok (members c) (quorum c) b'"
  using assms(2,3)
proof (cases rule: ballot_step.cases)
  case (reject a)
  with assms(3) show ?thesis by (auto simp: ballot_ok_def)
next
  case (vote_cancel a)
  with assms(3) show ?thesis by (auto simp: ballot_ok_def)
qed (use assms(3) in \<open>auto simp: ballot_ok_def\<close>)

lemma run_ok:
  assumes "valid c" "ballot_run (members c) (quorum c) n b b'" "ballot_ok (members c) (quorum c) b"
  shows "ballot_ok (members c) (quorum c) b'"
  using assms(2,3) by (induction rule: ballot_run.induct) (auto dest: step_ok [OF assms(1)])

text \<open>An open ballot always has a voter who has not decided: it cannot get stuck.\<close>

lemma undecided:
  assumes "ballot_ok (members c) (quorum c) b" "b_status b = Active"
  shows "\<exists>a \<in> members c. a \<notin> b_approved b \<union> b_rejected b"
proof (rule ccontr)
  assume "\<not> ?thesis"
  then have V: "members c = b_approved b \<union> b_rejected b" and d: "b_approved b \<inter> b_rejected b = {}"
    using assms(1) by (auto simp: ballot_ok_def)
  have "finite (b_approved b \<union> b_rejected b)" using members_finite [of c] V by simp
  then have "card (members c) = card (b_approved b) + card (b_rejected b)"
    using d by (simp add: V card_Un_disjoint)
  moreover have "card (b_approved b) < quorum c" "quorum c \<le> card (members c) - card (b_rejected b)"
    using assms by (simp_all add: ballot_ok_def)
  ultimately show False by linarith
qed

text \<open>An open ballot can still be approved, by the approvals it lacks.\<close>

lemma approvable:
  assumes "valid c" "ballot_ok (members c) (quorum c) b" "b_status b = Active"
  shows "\<exists>b'. ballot_run (members c) (quorum c) (quorum c - card (b_approved b)) b b' \<and> b_status b' = Approved"
  using assms(2,3)
proof (induction "quorum c - card (b_approved b)" arbitrary: b)
  case 0
  then show ?case by (simp add: ballot_ok_def)
next
  case (Suc n)
  obtain a where a: "a \<in> members c" "a \<notin> b_approved b \<union> b_rejected b"
    using undecided [OF Suc.prems] by blast
  let ?b = "b\<lparr>b_approved := insert a (b_approved b),
      b_status := (if quorum c \<le> card (insert a (b_approved b)) then Approved else Active)\<rparr>"
  have step: "ballot_step (members c) (quorum c) b ?b"
    using Suc.prems(2) a by (rule ballot_step.approve)
  have "b_approved b \<subseteq> members c" using Suc.prems(1) by (simp add: ballot_ok_def)
  then have "finite (b_approved b)" using members_finite finite_subset by blast
  then have n: "n = quorum c - card (insert a (b_approved b))" using Suc.hyps(2) a(2) by simp
  show ?case
  proof (cases "quorum c \<le> card (insert a (b_approved b))")
    case True
    then have "ballot_run (members c) (quorum c) (Suc n) b ?b" "b_status ?b = Approved"
      using step n by (auto intro: ballot_run.intros)
    with Suc.hyps(2) show ?thesis by metis
  next
    case False
    then have "b_status ?b = Active" by simp
    from Suc.hyps(1) [of ?b] n step_ok [OF assms(1) step Suc.prems(1)] this
    obtain b' where "ballot_run (members c) (quorum c) n ?b b'" "b_status b' = Approved" by auto
    with step have "ballot_run (members c) (quorum c) (Suc n) b b'" by (blast intro: ballot_run.move)
    with Suc.hyps(2) \<open>b_status b' = Approved\<close> show ?thesis by metis
  qed
qed

text \<open>Every decision uses something up, so no ballot goes on for ever.\<close>

lemma step_left:
  assumes "ballot_step (members c) k b b'"
  shows "ballot_left (members c) b' < ballot_left (members c) b"
proof -
  have less: "card (members c - insert a A) < card (members c - A)" if "a \<in> members c" "a \<notin> A" for a A
    using members_finite that by (intro psubset_card_mono) auto
  from assms show ?thesis
  proof (cases rule: ballot_step.cases)
    case (approve a)
    with less [of a "b_approved b \<union> b_rejected b"] show ?thesis by (simp add: ballot_left_def)
  next
    case (reject a)
    with less [of a "b_approved b \<union> b_rejected b"] show ?thesis by (simp add: ballot_left_def) linarith
  next
    case (vote_cancel a)
    with less [of a "b_cancelled b"] show ?thesis by (simp add: ballot_left_def) linarith
  qed (simp_all add: ballot_left_def)
qed

lemma run_left: "ballot_run (members c) k n b b' \<Longrightarrow> n + ballot_left (members c) b' \<le> ballot_left (members c) b"
  by (induction rule: ballot_run.induct) (auto dest: step_left)

lemma run_length:
  assumes "ballot_run (members c) k n b b'"
  shows "n \<le> 2 * card (members c) + 2"
proof -
  have "card (members c - A) \<le> card (members c)" for A
    using members_finite by (intro card_mono) auto
  from this [of "b_approved b \<union> b_rejected b"] this [of "b_cancelled b"]
  have "ballot_left (members c) b \<le> 2 * card (members c) + 2"
    by (simp add: ballot_left_def split: transaction_status.split)
  with run_left [OF assms] show ?thesis by simp
qed

end

text \<open>The status of a ballot moves only as the documentation allows.\<close>

lemma ballot_step_status: "ballot_step V k b b' \<Longrightarrow> b_status b' = b_status b \<or> status_step (b_status b) (b_status b')"
  by (auto elim!: ballot_stepE)

end
