(* ===== verification/Vote.thy ===== *)
theory Vote
  imports Transaction_State
begin

text \<open>
  Instructions 2, 3 and 5: src/instruction/vote.rs, approve.rs, reject.rs and cancel.rs. The
  abstract view of a proposal's votes is \<open>cast_by\<close>, the set of owners whose bit is set; each
  handler adds its signer to exactly one of the three sets and latches the status on the count.
\<close>

record voter =
  vt_index :: nat
  vt_threshold :: u32
  vt_cutoff :: u32
  vt_owners_count :: u32
  vt_stale_index :: u64
  vt_can_vote :: bool

definition prepare ::
  "address \<Rightarrow> view \<Rightarrow> view \<Rightarrow> view \<Rightarrow> bytes \<Rightarrow> bool \<Rightarrow> store \<Rightarrow> voter result" where
  "prepare program_id signer multisig transaction instruction require_vote_permission s =
     (if instruction \<noteq> [] then fail InvalidInstructionData
      else
        and_then (check_signer signer MissingSignature) (\<lambda>_.
        and_then (check_owner s multisig program_id IllegalOwner) (\<lambda>_.
        and_then (check_owner s transaction program_id IllegalOwner) (\<lambda>_.
        and_then (ms_load (ptr_of s multisig) (data_of s multisig)) (\<lambda>(ms, owners, permissions).
        and_then (ok_or NotAnOwner (is_owner owners (v_address signer))) (\<lambda>index.
        and_then (index_of permissions index) (\<lambda>mask.
        if require_vote_permission \<and> \<not> mask_can_vote mask then fail Unauthorized
        else Inr \<lparr>vt_index = index, vt_threshold = ms_threshold ms, vt_cutoff = cutoff ms,
                  vt_owners_count = ms_owners_count ms,
                  vt_stale_index = ms_stale_transaction_index ms,
                  vt_can_vote = mask_can_vote mask\<rparr>)))))))"

definition check_votable ::
  "transaction \<Rightarrow> view \<Rightarrow> voter \<Rightarrow> transaction_status \<Rightarrow> unit result" where
  "check_votable state multisig voter expected =
     and_then (validate_eq (tx_multisig state) (v_address multisig) MultisigMismatch) (\<lambda>_.
     and_then (status_from_u8 (tx_status state)) (\<lambda>status.
     if status \<noteq> expected then fail InvalidStatus
     else if tx_index state \<le> vt_stale_index voter then fail StaleTransaction
     else if tx_owners_count state \<noteq> vt_owners_count voter then fail StaleTransaction
     else Inr ()))"

definition latch_approved :: "transaction \<Rightarrow> u64 \<Rightarrow> transaction" where
  "latch_approved state now = state\<lparr>tx_status := status_to_u8 Approved, tx_approved_at := now\<rparr>"

definition process_approve ::
  "runtime \<Rightarrow> address \<Rightarrow> view list \<Rightarrow> bytes \<Rightarrow> store \<Rightarrow> store result" where
  "process_approve rt program_id accounts instruction s =
     (case accounts of
        owner # multisig # transaction # remaining \<Rightarrow>
          and_then (prepare program_id owner multisig transaction instruction True s) (\<lambda>voter.
          and_then (tx_load_mut (ptr_of s transaction) (data_of s transaction))
            (\<lambda>(state, votes, message).
          and_then (check_votable state multisig voter Active) (\<lambda>_.
          if has_voted votes (vt_index voter) then fail AlreadyVoted
          else
            let (approved, fresh) = bitmap_set (v_approved votes) (vt_index voter) in
            if \<not> fresh then fail AlreadyVoted
            else
              let votes = votes\<lparr>v_approved := approved\<rparr>;
                  state = state\<lparr>tx_approved_count := tx_approved_count state + 1\<rparr> in
              and_then (if vt_threshold voter \<le> tx_approved_count state
                        then and_then (rt_clock rt) (\<lambda>now. Inr (latch_approved state now))
                        else Inr state) (\<lambda>state.
              let s = set_data transaction (tx_bytes state votes message) s in
              and_then (tx_invariant state) (\<lambda>_. Inr s)))))
      | _ \<Rightarrow> fail NotEnoughAccounts)"

definition process_reject ::
  "address \<Rightarrow> view list \<Rightarrow> bytes \<Rightarrow> store \<Rightarrow> store result" where
  "process_reject program_id accounts instruction s =
     (case accounts of
        owner # multisig # transaction # remaining \<Rightarrow>
          and_then (prepare program_id owner multisig transaction instruction True s) (\<lambda>voter.
          and_then (tx_load_mut (ptr_of s transaction) (data_of s transaction))
            (\<lambda>(state, votes, message).
          and_then (check_votable state multisig voter Active) (\<lambda>_.
          if has_voted votes (vt_index voter) then fail AlreadyVoted
          else
            let (rejected, fresh) = bitmap_set (v_rejected votes) (vt_index voter) in
            if \<not> fresh then fail AlreadyVoted
            else
              let votes = votes\<lparr>v_rejected := rejected\<rparr>;
                  state = state\<lparr>tx_rejected_count := tx_rejected_count state + 1\<rparr>;
                  state = (if vt_cutoff voter \<le> tx_rejected_count state
                           then state\<lparr>tx_status := status_to_u8 Rejected\<rparr> else state);
                  s = set_data transaction (tx_bytes state votes message) s in
              and_then (tx_invariant state) (\<lambda>_. Inr s))))
      | _ \<Rightarrow> fail NotEnoughAccounts)"

definition process_cancel ::
  "address \<Rightarrow> view list \<Rightarrow> bytes \<Rightarrow> store \<Rightarrow> store result" where
  "process_cancel program_id accounts instruction s =
     (case accounts of
        signer # multisig # transaction # remaining \<Rightarrow>
          and_then (prepare program_id signer multisig transaction instruction False s) (\<lambda>voter.
          and_then (tx_load_mut (ptr_of s transaction) (data_of s transaction))
            (\<lambda>(state, votes, message).
          and_then (status_from_u8 (tx_status state)) (\<lambda>status.
          and_then
            (case status of
               Active \<Rightarrow>
                 and_then (check_votable state multisig voter Active) (\<lambda>_.
                 and_then (validate_eq (tx_creator state) (v_address signer) InvalidAccount) (\<lambda>_.
                 Inr (state\<lparr>tx_status := status_to_u8 Cancelled\<rparr>, votes)))
             | Approved \<Rightarrow>
                 and_then (check_votable state multisig voter Approved) (\<lambda>_.
                 if \<not> vt_can_vote voter then fail Unauthorized
                 else if bitmap_get (v_cancelled votes) (vt_index voter) then fail AlreadyVoted
                 else
                   let (cancelled, fresh) = bitmap_set (v_cancelled votes) (vt_index voter) in
                   if \<not> fresh then fail AlreadyVoted
                   else
                     let votes = votes\<lparr>v_cancelled := cancelled\<rparr>;
                         state = state\<lparr>tx_cancelled_count := tx_cancelled_count state + 1\<rparr>;
                         state = (if vt_threshold voter \<le> tx_cancelled_count state
                                  then state\<lparr>tx_status := status_to_u8 Cancelled\<rparr> else state) in
                     Inr (state, votes))
             | _ \<Rightarrow> fail InvalidStatus)
            (\<lambda>(state, votes).
          let s = set_data transaction (tx_bytes state votes message) s in
          and_then (tx_invariant state) (\<lambda>_. Inr s)))))
      | _ \<Rightarrow> fail NotEnoughAccounts)"

section \<open>The guards\<close>

lemma prepare_Inr:
  "prepare pid signer multisig transaction instr req s = Inr vt \<longleftrightarrow>
     instr = [] \<and> v_signer signer \<and> acc_owner (account_of s multisig) = pid \<and>
     acc_owner (account_of s transaction) = pid \<and>
     (\<exists>h os ps i. ms_load (ptr_of s multisig) (data_of s multisig) = Inr (h, os, ps) \<and>
        is_owner os (v_address signer) = Some i \<and> (req \<longrightarrow> mask_can_vote (ps ! i)) \<and>
        vt = \<lparr>vt_index = i, vt_threshold = ms_threshold h, vt_cutoff = cutoff h,
              vt_owners_count = ms_owners_count h, vt_stale_index = ms_stale_transaction_index h,
              vt_can_vote = mask_can_vote (ps ! i)\<rparr>)"
proof -
  have "index_of ps i = Inr (ps ! i)"
    if "ms_load (ptr_of s multisig) (data_of s multisig) = Inr (h, os, ps)"
      "is_owner os (v_address signer) = Some i" for h os ps i
    using loaded_owner [OF that] by simp
  then show ?thesis
    unfolding prepare_def handler_steps de_Morgan_conj by (auto; metis sum.inject(2))
qed

lemma check_votable_Inr:
  "check_votable state multisig vt expected = Inr () \<longleftrightarrow>
     tx_multisig state = v_address multisig \<and> tx_status state = status_to_u8 expected \<and>
     vt_stale_index vt < tx_index state \<and> tx_owners_count state = vt_owners_count vt"
  by (auto simp: check_votable_def handler_steps status_from_u8_Inr)

lemma prepare_no_panic [simp]: "\<not> panics (prepare pid signer multisig transaction instr req s)"
proof -
  have "\<not> panics (index_of ps i)"
    if "ms_load (ptr_of s multisig) (data_of s multisig) = Inr (h, os, ps)"
      "is_owner os (v_address signer) = Some i" for h os ps i
    using loaded_owner [OF that] by simp
  then show ?thesis by (auto simp: prepare_def ok_or_Inr)
qed

lemma check_votable_no_panic [simp]: "\<not> panics (check_votable state multisig vt expected)"
  by (simp add: check_votable_def)

section \<open>Counting one more vote\<close>

lemma owner_bit_fits: "i < n \<Longrightarrow> i < 8 * len_for n"
  using le_len_for [of i n] by simp

lemma bitmap_set_new:
  assumes "bitmap_set bits i = (bits', True)"
  shows "length bits' = length bits" "\<not> bitmap_get bits i"
    and "\<And>j. bitmap_get bits' j \<longleftrightarrow> j = i \<or> bitmap_get bits j"
    and "bitmap_count bits' = Suc (bitmap_count bits)"
proof -
  have f: "fst (bitmap_set bits i) = bits'" "snd (bitmap_set bits i)" using assms by simp_all
  then have "i < 8 * length bits" "\<not> bitmap_get bits i" by (simp_all add: bm.cast_fresh)
  with f show "length bits' = length bits" "\<not> bitmap_get bits i"
    "\<And>j. bitmap_get bits' j \<longleftrightarrow> j = i \<or> bitmap_get bits j"
    "bitmap_count bits' = Suc (bitmap_count bits)"
    using bm.tally_cast_fresh [of bits i] bm.votes_cast [of i bits] length_bitmap_set [of bits i]
    by auto
qed

lemma bitmap_set_fresh_iff:
  "i < n \<Longrightarrow> length bits = len_for n \<Longrightarrow>
   (\<exists>bits'. bitmap_set bits i = (bits', True)) \<longleftrightarrow> \<not> bitmap_get bits i"
  using bm.cast_fresh [of bits i] owner_bit_fits [of i n]
  by (cases "bitmap_set bits i") auto

text \<open>The owners whose bit is set.\<close>

definition cast_by :: "address list \<Rightarrow> bytes \<Rightarrow> address set" where
  "cast_by owners bits = {owners ! i | i. i < length owners \<and> bitmap_get bits i}"

lemma cast_by_new:
  assumes "bitmap_set bits i = (bits', True)" "i < length owners"
  shows "cast_by owners bits' = insert (owners ! i) (cast_by owners bits)"
  using assms(2) by (auto simp: cast_by_def bitmap_set_new(3) [OF assms(1)])

lemma card_cast_by:
  assumes "distinct owners" "\<And>i. bitmap_get bits i \<Longrightarrow> i < length owners"
  shows "card (cast_by owners bits) = bitmap_count bits"
proof -
  have "cast_by owners bits = (\<lambda>i. owners ! i) ` {i. bitmap_get bits i}"
    using assms(2) by (auto simp: cast_by_def)
  moreover have "inj_on (\<lambda>i. owners ! i) {i. bitmap_get bits i}"
    using assms by (auto simp: inj_on_def nth_eq_iff_index_eq)
  ultimately show ?thesis by (simp add: card_image bm.tally_card)
qed

lemma tx_wf_bit: "tx_wf h v m \<Longrightarrow> bitmap_get (v_approved v) i \<or> bitmap_get (v_rejected v) i \<or>
    bitmap_get (v_cancelled v) i \<Longrightarrow> i < unat (tx_owners_count h)"
  by (auto simp: tx_wf_def)

lemma tx_wf_fits: "tx_wf h v m \<Longrightarrow> votes_fit h v \<and> length m = unat (tx_message_len h)"
  by (simp add: tx_wf_def)

lemma tx_wf_counts:
  assumes "tx_wf h v m"
  shows "unat (tx_approved_count h) \<le> MAX_OWNER" "unat (tx_rejected_count h) \<le> MAX_OWNER"
    "unat (tx_cancelled_count h) \<le> MAX_OWNER"
  using assms by (auto simp: tx_wf_def tx_invariant_iff)

lemma count_plus_1: "unat c \<le> MAX_OWNER \<Longrightarrow> unat (c + 1 :: u32) = Suc (unat c)"
  by (intro unat_add_1_less [of _ 4097]) (simp_all add: MAX_OWNER_def)

lemma not_cast_by:
  "distinct owners \<Longrightarrow> i < length owners \<Longrightarrow> \<not> bitmap_get bits i \<Longrightarrow> owners ! i \<notin> cast_by owners bits"
  by (auto simp: cast_by_def nth_eq_iff_index_eq)

text \<open>What a vote of an owner does to the sets of those who voted, and the counts of a well-formed proposal.\<close>

lemma voter_facts:
  assumes "ms_load p d = Inr (c, os, ps)" "ms_wf c os ps" "is_owner os a = Some i" "tx_owners_count h = ms_owners_count c"
  shows "i < unat (tx_owners_count h)" "a \<in> set os"
    and "bitmap_set bits i = (bits', True) \<Longrightarrow> cast_by os bits' = insert a (cast_by os bits)"
    and "\<not> bitmap_get bits i \<Longrightarrow> a \<notin> cast_by os bits"
    and "tx_wf h v m \<Longrightarrow> unat (tx_approved_count h) = card (cast_by os (v_approved v)) \<and>
       unat (tx_rejected_count h) = card (cast_by os (v_rejected v)) \<and>
       unat (tx_cancelled_count h) = card (cast_by os (v_cancelled v))"
proof -
  have i: "i < length os" "os ! i = a" "i < unat (ms_owners_count c)"
    using loaded_owner [OF assms(1,3)] by simp_all
  have d: "distinct os" using assms(2) by (simp add: ms_wf_def ascending_distinct)
  have len: "length os = unat (tx_owners_count h)" using assms(1,4) by (simp add: ms_load_Inr)
  show "i < unat (tx_owners_count h)" "a \<in> set os" using i assms(4) by auto
  show "bitmap_set bits i = (bits', True) \<Longrightarrow> cast_by os bits' = insert a (cast_by os bits)"
    using cast_by_new [OF _ i(1)] i(2) by simp
  show "\<not> bitmap_get bits i \<Longrightarrow> a \<notin> cast_by os bits" using not_cast_by [OF d i(1)] i(2) by simp
  have card: "card (cast_by os bs) = bitmap_count bs"
    if "tx_wf h v m" "bs \<in> {v_approved v, v_rejected v, v_cancelled v}" for bs
    by (rule card_cast_by [OF d]) (use tx_wf_bit [OF that(1)] that(2) len in auto)
  show "tx_wf h v m \<Longrightarrow> unat (tx_approved_count h) = card (cast_by os (v_approved v)) \<and>
       unat (tx_rejected_count h) = card (cast_by os (v_rejected v)) \<and>
       unat (tx_cancelled_count h) = card (cast_by os (v_cancelled v))"
    using card by (simp add: tx_wf_def)
qed

lemma tx_wf_add_approval:
  assumes wf: "tx_wf h v m" and i: "i < unat (tx_owners_count h)" "\<not> has_voted v i"
    and set: "bitmap_set (v_approved v) i = (bits, True)"
    and inv: "tx_invariant h' = Inr ()"
    and h': "tx_owners_count h' = tx_owners_count h" "tx_message_len h' = tx_message_len h"
      "tx_approved_count h' = tx_approved_count h + 1"
      "tx_rejected_count h' = tx_rejected_count h" "tx_cancelled_count h' = tx_cancelled_count h"
  shows "tx_wf h' (v\<lparr>v_approved := bits\<rparr>) m"
  using wf i inv count_plus_1 [OF tx_wf_counts(1) [OF wf]] bitmap_set_new [OF set]
  unfolding tx_wf_def has_voted_def votes_fit_def h' by auto

lemma tx_wf_add_rejection:
  assumes wf: "tx_wf h v m" and i: "i < unat (tx_owners_count h)" "\<not> has_voted v i"
    and set: "bitmap_set (v_rejected v) i = (bits, True)"
    and inv: "tx_invariant h' = Inr ()"
    and h': "tx_owners_count h' = tx_owners_count h" "tx_message_len h' = tx_message_len h"
      "tx_approved_count h' = tx_approved_count h"
      "tx_rejected_count h' = tx_rejected_count h + 1" "tx_cancelled_count h' = tx_cancelled_count h"
  shows "tx_wf h' (v\<lparr>v_rejected := bits\<rparr>) m"
  using wf i inv count_plus_1 [OF tx_wf_counts(2) [OF wf]] bitmap_set_new [OF set]
  unfolding tx_wf_def has_voted_def votes_fit_def h' by auto

lemma tx_wf_add_cancellation:
  assumes wf: "tx_wf h v m" and i: "i < unat (tx_owners_count h)"
    and set: "bitmap_set (v_cancelled v) i = (bits, True)"
    and inv: "tx_invariant h' = Inr ()"
    and h': "tx_owners_count h' = tx_owners_count h" "tx_message_len h' = tx_message_len h"
      "tx_approved_count h' = tx_approved_count h"
      "tx_rejected_count h' = tx_rejected_count h" "tx_cancelled_count h' = tx_cancelled_count h + 1"
  shows "tx_wf h' (v\<lparr>v_cancelled := bits\<rparr>) m"
  using wf i inv count_plus_1 [OF tx_wf_counts(3) [OF wf]] bitmap_set_new [OF set]
  unfolding tx_wf_def votes_fit_def h' by auto

section \<open>Approving\<close>

text \<open>A successful approval, opened once: the guards it passed and the header it wrote.\<close>

lemma bitmap_set_Inr:
  "((case bitmap_set bits i of (bits', fresh) \<Rightarrow> f bits' fresh) = Inr y) \<longleftrightarrow>
     (\<exists>bits' fresh. bitmap_set bits i = (bits', fresh) \<and> f bits' fresh = Inr y)"
  by (cases "bitmap_set bits i") simp

lemma approve_run:
  assumes run: "process_approve rt pid (owner # multisig # transaction # remaining) instr s = Inr s'"
    and ms: "ms_load (ptr_of s multisig) (data_of s multisig) = Inr (c, os, ps)"
    and tx: "tx_load (ptr_of s transaction) (data_of s transaction) = Inr (h, v, m)"
  obtains i bits h' where
    "instr = []" "v_signer owner" "acc_owner (account_of s multisig) = pid"
    "acc_owner (account_of s transaction) = pid"
    "is_owner os (v_address owner) = Some i" "mask_can_vote (ps ! i)"
    "tx_multisig h = v_address multisig" "tx_status h = status_to_u8 Active"
    "ms_stale_transaction_index c < tx_index h" "tx_owners_count h = ms_owners_count c"
    "\<not> has_voted v i" "bitmap_set (v_approved v) i = (bits, True)"
    "if ms_threshold c \<le> tx_approved_count h + 1
     then \<exists>now. rt_clock rt = Inr now \<and>
       h' = latch_approved (h\<lparr>tx_approved_count := tx_approved_count h + 1\<rparr>) now
     else h' = h\<lparr>tx_approved_count := tx_approved_count h + 1\<rparr>"
    "tx_invariant h' = Inr ()" "s' = set_data transaction (tx_bytes h' (v\<lparr>v_approved := bits\<rparr>) m) s"
proof -
  from run obtain vt bits h' where
      prep: "prepare pid owner multisig transaction instr True s = Inr vt"
    and votable: "check_votable h multisig vt Active = Inr ()"
    and fresh: "\<not> has_voted v (vt_index vt)" "bitmap_set (v_approved v) (vt_index vt) = (bits, True)"
    and h': "(if vt_threshold vt \<le> tx_approved_count h + 1
       then and_then (rt_clock rt) (\<lambda>now. Inr (latch_approved (h\<lparr>tx_approved_count := tx_approved_count h + 1\<rparr>) now))
       else Inr (h\<lparr>tx_approved_count := tx_approved_count h + 1\<rparr>)) = Inr h'"
    and inv: "tx_invariant h' = Inr ()"
    and s': "s' = set_data transaction (tx_bytes h' (v\<lparr>v_approved := bits\<rparr>) m) s"
    unfolding process_approve_def list.case tx_load_mut_eq tx
    by (auto simp: and_then_Inr Let_def if_fail_eq_Inr bitmap_set_Inr)
  from prep ms have p: "instr = []" "v_signer owner" "acc_owner (account_of s multisig) = pid"
      "acc_owner (account_of s transaction) = pid"
      "is_owner os (v_address owner) = Some (vt_index vt)" "mask_can_vote (ps ! vt_index vt)"
    and vt: "vt_threshold vt = ms_threshold c" "vt_owners_count vt = ms_owners_count c"
      "vt_stale_index vt = ms_stale_transaction_index c"
    by (auto simp: prepare_Inr)
  have hh: "if ms_threshold c \<le> tx_approved_count h + 1
     then \<exists>now. rt_clock rt = Inr now \<and>
       h' = latch_approved (h\<lparr>tx_approved_count := tx_approved_count h + 1\<rparr>) now
     else h' = h\<lparr>tx_approved_count := tx_approved_count h + 1\<rparr>"
    using h' by (auto simp: vt and_then_Inr split: if_splits)
  show thesis
    using p votable fresh hh inv s' vt by (intro that [of "vt_index vt" bits h']) (simp_all add: check_votable_Inr)
qed

lemma approve_effect:
  assumes run: "process_approve rt pid (owner # multisig # transaction # remaining) instr s = Inr s'"
    and ms: "ms_load (ptr_of s multisig) (data_of s multisig) = Inr (c, os, ps)" "ms_wf c os ps"
    and tx: "tx_load (ptr_of s transaction) (data_of s transaction) = Inr (h, v, m)" "tx_wf h v m"
  shows "\<exists>h' v' i. v_signer owner \<and> is_owner os (v_address owner) = Some i \<and> mask_can_vote (ps ! i) \<and>
     tx_multisig h = v_address multisig \<and> tx_status h = status_to_u8 Active \<and>
     ms_stale_transaction_index c < tx_index h \<and>
     v_address owner \<notin> cast_by os (v_approved v) \<union> cast_by os (v_rejected v) \<and>
     s' = set_data transaction (tx_bytes h' v' m) s \<and> tx_wf h' v' m \<and>
     cast_by os (v_approved v') = insert (v_address owner) (cast_by os (v_approved v)) \<and>
     v_rejected v' = v_rejected v \<and> v_cancelled v' = v_cancelled v \<and>
     unat (tx_approved_count h') = card (cast_by os (v_approved v')) \<and>
     (if unat (ms_threshold c) \<le> card (cast_by os (v_approved v'))
      then tx_status h' = status_to_u8 Approved \<and> rt_clock rt = Inr (tx_approved_at h')
      else tx_status h' = status_to_u8 Active \<and> tx_approved_at h' = tx_approved_at h) \<and>
     h' = h\<lparr>tx_approved_count := tx_approved_count h + 1, tx_status := tx_status h',
            tx_approved_at := tx_approved_at h'\<rparr>"
proof -
  obtain i bits h' where r: "v_signer owner"
    "is_owner os (v_address owner) = Some i" "mask_can_vote (ps ! i)"
    "tx_multisig h = v_address multisig" "tx_status h = status_to_u8 Active"
    "ms_stale_transaction_index c < tx_index h" "tx_owners_count h = ms_owners_count c"
    "\<not> has_voted v i" and set: "bitmap_set (v_approved v) i = (bits, True)"
    and h': "if ms_threshold c \<le> tx_approved_count h + 1
     then \<exists>now. rt_clock rt = Inr now \<and>
       h' = latch_approved (h\<lparr>tx_approved_count := tx_approved_count h + 1\<rparr>) now
     else h' = h\<lparr>tx_approved_count := tx_approved_count h + 1\<rparr>"
    and inv: "tx_invariant h' = Inr ()"
    and s': "s' = set_data transaction (tx_bytes h' (v\<lparr>v_approved := bits\<rparr>) m) s"
    by (rule approve_run [OF run ms(1) tx(1)])
  let ?v = "v\<lparr>v_approved := bits\<rparr>"
  note voter = voter_facts [OF ms r(2)]
  have eq: "tx_owners_count h' = tx_owners_count h" "tx_message_len h' = tx_message_len h"
      "tx_approved_count h' = tx_approved_count h + 1"
      "tx_rejected_count h' = tx_rejected_count h" "tx_cancelled_count h' = tx_cancelled_count h"
    using h' by (auto simp: latch_approved_def split: if_splits)
  have wf: "tx_wf h' ?v m" by (rule tx_wf_add_approval [OF tx(2) voter(1) [OF r(7)] r(8) set inv eq])
  have card: "unat (tx_approved_count h') = card (cast_by os bits)"
    using voter(5) [OF _ wf] eq(1) r(7) by simp
  have "v_address owner \<notin> cast_by os (v_approved v) \<union> cast_by os (v_rejected v)"
    using voter(4) [OF r(7)] r(8) by (auto simp: has_voted_def)
  moreover have "cast_by os bits = insert (v_address owner) (cast_by os (v_approved v))"
    by (rule voter(3) [OF r(7) set])
  moreover have "if unat (ms_threshold c) \<le> card (cast_by os bits)
      then tx_status h' = status_to_u8 Approved \<and> rt_clock rt = Inr (tx_approved_at h')
      else tx_status h' = status_to_u8 Active \<and> tx_approved_at h' = tx_approved_at h"
    using h' r(5) unfolding card [symmetric] eq(3) word_le_nat_alt
    by (auto simp: latch_approved_def split: if_splits)
  moreover have "h' = h\<lparr>tx_approved_count := tx_approved_count h + 1, tx_status := tx_status h',
            tx_approved_at := tx_approved_at h'\<rparr>"
    using h' by (auto simp: latch_approved_def split: if_splits)
  ultimately show ?thesis
    using r s' wf card by (intro exI [of _ h'] exI [of _ ?v] exI [of _ i]) simp
qed

text \<open>C20: an approval that succeeds comes from a signing owner who may vote and has not voted,
  on an Active, non-stale proposal of this multisig; it adds exactly that owner to the approvers
  and changes no other vote, counts it, and latches the proposal to Approved, stamped with the
  clock, exactly when the count reaches the threshold. The proposal stays well formed.\<close>

theorem approve_correct:
  assumes run: "process_approve rt pid (owner # multisig # transaction # remaining) instr s = Inr s'"
    and ms: "ms_load (ptr_of s multisig) (data_of s multisig) = Inr (c, os, ps)" "ms_wf c os ps"
    and tx: "tx_load (ptr_of s transaction) (data_of s transaction) = Inr (h, v, m)" "tx_wf h v m"
  shows "\<exists>h' v' i. v_signer owner \<and> is_owner os (v_address owner) = Some i \<and> mask_can_vote (ps ! i) \<and>
     tx_multisig h = v_address multisig \<and> tx_status h = status_to_u8 Active \<and>
     ms_stale_transaction_index c < tx_index h \<and>
     v_address owner \<notin> cast_by os (v_approved v) \<union> cast_by os (v_rejected v) \<and>
     s' = set_data transaction (tx_bytes h' v' m) s \<and> tx_wf h' v' m \<and>
     cast_by os (v_approved v') = insert (v_address owner) (cast_by os (v_approved v)) \<and>
     v_rejected v' = v_rejected v \<and> v_cancelled v' = v_cancelled v \<and>
     unat (tx_approved_count h') = card (cast_by os (v_approved v')) \<and>
     (if unat (ms_threshold c) \<le> card (cast_by os (v_approved v'))
      then tx_status h' = status_to_u8 Approved \<and> rt_clock rt = Inr (tx_approved_at h')
      else tx_status h' = status_to_u8 Active \<and> tx_approved_at h' = tx_approved_at h) \<and>
     h' = h\<lparr>tx_approved_count := tx_approved_count h + 1, tx_status := tx_status h',
            tx_approved_at := tx_approved_at h'\<rparr>"
  by (rule approve_effect [OF assms])

section \<open>Rejecting\<close>

lemma reject_run:
  assumes run: "process_reject pid (owner # multisig # transaction # remaining) instr s = Inr s'"
    and ms: "ms_load (ptr_of s multisig) (data_of s multisig) = Inr (c, os, ps)"
    and tx: "tx_load (ptr_of s transaction) (data_of s transaction) = Inr (h, v, m)"
  obtains i bits h' where
    "instr = []" "v_signer owner" "acc_owner (account_of s multisig) = pid"
    "acc_owner (account_of s transaction) = pid"
    "is_owner os (v_address owner) = Some i" "mask_can_vote (ps ! i)"
    "tx_multisig h = v_address multisig" "tx_status h = status_to_u8 Active"
    "ms_stale_transaction_index c < tx_index h" "tx_owners_count h = ms_owners_count c"
    "\<not> has_voted v i" "bitmap_set (v_rejected v) i = (bits, True)"
    "h' = h\<lparr>tx_rejected_count := tx_rejected_count h + 1,
       tx_status := status_to_u8 (if cutoff c \<le> tx_rejected_count h + 1 then Rejected else Active)\<rparr>"
    "tx_invariant h' = Inr ()" "s' = set_data transaction (tx_bytes h' (v\<lparr>v_rejected := bits\<rparr>) m) s"
proof -
  let ?h = "\<lambda>vt. if vt_cutoff vt \<le> tx_rejected_count h + 1
      then h\<lparr>tx_rejected_count := tx_rejected_count h + 1, tx_status := status_to_u8 Rejected\<rparr>
      else h\<lparr>tx_rejected_count := tx_rejected_count h + 1\<rparr>"
  from run obtain vt bits where
      prep: "prepare pid owner multisig transaction instr True s = Inr vt"
    and votable: "check_votable h multisig vt Active = Inr ()"
    and fresh: "\<not> has_voted v (vt_index vt)" "bitmap_set (v_rejected v) (vt_index vt) = (bits, True)"
    and inv: "tx_invariant (?h vt) = Inr ()"
    and s': "s' = set_data transaction (tx_bytes (?h vt) (v\<lparr>v_rejected := bits\<rparr>) m) s"
    unfolding process_reject_def list.case tx_load_mut_eq tx
    by (auto simp: and_then_Inr Let_def if_fail_eq_Inr bitmap_set_Inr)
  from prep ms have p: "instr = []" "v_signer owner" "acc_owner (account_of s multisig) = pid"
      "acc_owner (account_of s transaction) = pid"
      "is_owner os (v_address owner) = Some (vt_index vt)" "mask_can_vote (ps ! vt_index vt)"
    and vt: "vt_cutoff vt = cutoff c" "vt_owners_count vt = ms_owners_count c"
      "vt_stale_index vt = ms_stale_transaction_index c"
    by (auto simp: prepare_Inr)
  have st: "tx_status h = status_to_u8 Active" using votable by (simp add: check_votable_Inr)
  define h' where "h' = ?h vt"
  have "h' = h\<lparr>tx_rejected_count := tx_rejected_count h + 1,
       tx_status := status_to_u8 (if cutoff c \<le> tx_rejected_count h + 1 then Rejected else Active)\<rparr>"
    using st unfolding h'_def by (cases h) (auto simp: vt)
  then show thesis
    using p votable fresh inv [folded h'_def] s' [folded h'_def] vt
    by (intro that [of "vt_index vt" bits h']) (simp_all add: check_votable_Inr)
qed

lemma reject_effect:
  assumes run: "process_reject pid (owner # multisig # transaction # remaining) instr s = Inr s'"
    and ms: "ms_load (ptr_of s multisig) (data_of s multisig) = Inr (c, os, ps)" "ms_wf c os ps"
    and tx: "tx_load (ptr_of s transaction) (data_of s transaction) = Inr (h, v, m)" "tx_wf h v m"
  shows "\<exists>h' v' i. v_signer owner \<and> is_owner os (v_address owner) = Some i \<and> mask_can_vote (ps ! i) \<and>
     tx_multisig h = v_address multisig \<and> tx_status h = status_to_u8 Active \<and>
     ms_stale_transaction_index c < tx_index h \<and>
     v_address owner \<notin> cast_by os (v_approved v) \<union> cast_by os (v_rejected v) \<and>
     s' = set_data transaction (tx_bytes h' v' m) s \<and> tx_wf h' v' m \<and>
     cast_by os (v_rejected v') = insert (v_address owner) (cast_by os (v_rejected v)) \<and>
     v_approved v' = v_approved v \<and> v_cancelled v' = v_cancelled v \<and>
     unat (tx_rejected_count h') = card (cast_by os (v_rejected v')) \<and>
     tx_status h' = status_to_u8
       (if voters ps - card (cast_by os (v_rejected v')) < unat (ms_threshold c)
        then Rejected else Active) \<and>
     h' = h\<lparr>tx_rejected_count := tx_rejected_count h + 1, tx_status := tx_status h'\<rparr>"
proof -
  obtain i bits h' where r: "v_signer owner"
    "is_owner os (v_address owner) = Some i" "mask_can_vote (ps ! i)"
    "tx_multisig h = v_address multisig" "tx_status h = status_to_u8 Active"
    "ms_stale_transaction_index c < tx_index h" "tx_owners_count h = ms_owners_count c"
    "\<not> has_voted v i" and set: "bitmap_set (v_rejected v) i = (bits, True)"
    and h': "h' = h\<lparr>tx_rejected_count := tx_rejected_count h + 1,
       tx_status := status_to_u8 (if cutoff c \<le> tx_rejected_count h + 1 then Rejected else Active)\<rparr>"
    and inv: "tx_invariant h' = Inr ()"
    and s': "s' = set_data transaction (tx_bytes h' (v\<lparr>v_rejected := bits\<rparr>) m) s"
    by (rule reject_run [OF run ms(1) tx(1)])
  let ?v = "v\<lparr>v_rejected := bits\<rparr>"
  note voter = voter_facts [OF ms r(2)]
  have eq: "tx_owners_count h' = tx_owners_count h" "tx_message_len h' = tx_message_len h"
      "tx_approved_count h' = tx_approved_count h"
      "tx_rejected_count h' = tx_rejected_count h + 1" "tx_cancelled_count h' = tx_cancelled_count h"
    by (simp_all add: h')
  have wf: "tx_wf h' ?v m" by (rule tx_wf_add_rejection [OF tx(2) voter(1) [OF r(7)] r(8) set inv eq])
  have card: "unat (tx_rejected_count h') = card (cast_by os bits)"
    using voter(5) [OF _ wf] eq(1) r(7) by simp
  have "ms_invariant c = Inr ()" and vc: "voters ps = unat (ms_voter_count c)"
    using ms(2) by (simp_all add: ms_wf_def)
  then have "cutoff c \<le> tx_rejected_count h + 1 \<longleftrightarrow>
      voters ps - card (cast_by os bits) < unat (ms_threshold c)"
    using cutoff_unreachable(1) [of c] unfolding card [symmetric] eq(4) word_le_nat_alt vc ms_invariant_iff
    by auto
  moreover have "v_address owner \<notin> cast_by os (v_approved v) \<union> cast_by os (v_rejected v)"
    using voter(4) [OF r(7)] r(8) by (auto simp: has_voted_def)
  moreover have "cast_by os bits = insert (v_address owner) (cast_by os (v_rejected v))"
    by (rule voter(3) [OF r(7) set])
  ultimately show ?thesis
    using r s' wf card h' by (intro exI [of _ h'] exI [of _ ?v] exI [of _ i]) simp
qed

text \<open>A rejection that succeeds adds exactly its signer to those who rejected, never one who
  has voted, and latches the proposal to Rejected exactly when the voters who have not rejected
  are too few to reach the threshold. The proposal stays well formed.\<close>

lemma reject_correct:
  assumes run: "process_reject pid (owner # multisig # transaction # remaining) instr s = Inr s'"
    and ms: "ms_load (ptr_of s multisig) (data_of s multisig) = Inr (c, os, ps)" "ms_wf c os ps"
    and tx: "tx_load (ptr_of s transaction) (data_of s transaction) = Inr (h, v, m)" "tx_wf h v m"
  shows "\<exists>h' v' i. v_signer owner \<and> is_owner os (v_address owner) = Some i \<and> mask_can_vote (ps ! i) \<and>
     tx_multisig h = v_address multisig \<and> tx_status h = status_to_u8 Active \<and>
     ms_stale_transaction_index c < tx_index h \<and>
     v_address owner \<notin> cast_by os (v_approved v) \<union> cast_by os (v_rejected v) \<and>
     s' = set_data transaction (tx_bytes h' v' m) s \<and> tx_wf h' v' m \<and>
     cast_by os (v_rejected v') = insert (v_address owner) (cast_by os (v_rejected v)) \<and>
     v_approved v' = v_approved v \<and> v_cancelled v' = v_cancelled v \<and>
     unat (tx_rejected_count h') = card (cast_by os (v_rejected v')) \<and>
     tx_status h' = status_to_u8
       (if voters ps - card (cast_by os (v_rejected v')) < unat (ms_threshold c)
        then Rejected else Active) \<and>
     h' = h\<lparr>tx_rejected_count := tx_rejected_count h + 1, tx_status := tx_status h'\<rparr>"
  by (rule reject_effect [OF assms])

section \<open>Cancelling\<close>

text \<open>The header after a vote to cancel.\<close>

definition cancel_counted :: "u32 \<Rightarrow> transaction \<Rightarrow> transaction" where
  "cancel_counted threshold h = h\<lparr>tx_cancelled_count := tx_cancelled_count h + 1,
     tx_status := status_to_u8 (if threshold \<le> tx_cancelled_count h + 1 then Cancelled else Approved)\<rparr>"

lemma cancel_counted_eq:
  assumes "tx_status h = status_to_u8 Approved"
  shows "(if threshold \<le> tx_cancelled_count (h\<lparr>tx_cancelled_count := tx_cancelled_count h + 1\<rparr>)
      then h\<lparr>tx_cancelled_count := tx_cancelled_count h + 1, tx_status := status_to_u8 Cancelled\<rparr>
      else h\<lparr>tx_cancelled_count := tx_cancelled_count h + 1\<rparr>) = cancel_counted threshold h"
  using assms by (cases h) (auto simp: cancel_counted_def)

text \<open>The two paths: the creator withdraws, or an owner votes.\<close>

lemma cancel_paths:
  assumes run: "process_cancel pid (signer # multisig # transaction # remaining) instr s = Inr s'"
    and tx: "tx_load (ptr_of s transaction) (data_of s transaction) = Inr (h, v, m)"
  obtains vt where "prepare pid signer multisig transaction instr False s = Inr vt"
    "check_votable h multisig vt Active = Inr () \<and> tx_creator h = v_address signer \<and>
       tx_invariant (h\<lparr>tx_status := status_to_u8 Cancelled\<rparr>) = Inr () \<and>
       s' = set_data transaction (tx_bytes (h\<lparr>tx_status := status_to_u8 Cancelled\<rparr>) v m) s \<or>
     check_votable h multisig vt Approved = Inr () \<and> vt_can_vote vt \<and>
       (\<exists>bits. bitmap_set (v_cancelled v) (vt_index vt) = (bits, True) \<and>
          tx_invariant (cancel_counted (vt_threshold vt) h) = Inr () \<and>
          s' = set_data transaction (tx_bytes (cancel_counted (vt_threshold vt) h) (v\<lparr>v_cancelled := bits\<rparr>) m) s)"
proof -
  let ?h = "\<lambda>vt. if vt_threshold vt \<le> tx_cancelled_count (h\<lparr>tx_cancelled_count := tx_cancelled_count h + 1\<rparr>)
      then h\<lparr>tx_cancelled_count := tx_cancelled_count h + 1, tx_status := status_to_u8 Cancelled\<rparr>
      else h\<lparr>tx_cancelled_count := tx_cancelled_count h + 1\<rparr>"
  from run obtain vt st h' v' where
      prep: "prepare pid signer multisig transaction instr False s = Inr vt"
    and st: "status_from_u8 (tx_status h) = Inr st"
    and body: "(case st of
       Active \<Rightarrow>
         and_then (check_votable h multisig vt Active) (\<lambda>_.
         and_then (validate_eq (tx_creator h) (v_address signer) InvalidAccount) (\<lambda>_.
         Inr (h\<lparr>tx_status := status_to_u8 Cancelled\<rparr>, v)))
     | Approved \<Rightarrow>
         and_then (check_votable h multisig vt Approved) (\<lambda>_.
         if \<not> vt_can_vote vt then fail Unauthorized
         else if bitmap_get (v_cancelled v) (vt_index vt) then fail AlreadyVoted
         else
           case bitmap_set (v_cancelled v) (vt_index vt) of (cancelled, fresh) \<Rightarrow>
           if \<not> fresh then fail AlreadyVoted else Inr (?h vt, v\<lparr>v_cancelled := cancelled\<rparr>))
     | _ \<Rightarrow> fail InvalidStatus) = Inr (h', v')"
    and inv: "tx_invariant h' = Inr ()"
    and s': "set_data transaction (tx_bytes h' v' m) s = s'"
    unfolding process_cancel_def list.case tx_load_mut_eq tx and_then_simps prod.case and_then_Inr
      split_paired_Ex Let_def unit_eq sum.inject transaction.simps
    by (elim exE conjE) (rule that)
  show thesis
  proof (cases "st = Active")
    case True
    with body inv s' prep show thesis by (intro that [of vt]) (auto simp: and_then_Inr check_Inr)
  next
    case False
    then have "st = Approved" using body by (cases st) simp_all
    then have "?h vt = cancel_counted (vt_threshold vt) h" by (intro cancel_counted_eq) (use st in \<open>simp add: status_from_u8_Inr\<close>)
    with body inv s' prep \<open>st = Approved\<close> show thesis
      by (intro that [of vt]) (auto simp: and_then_Inr if_fail_eq_Inr bitmap_set_Inr)
  qed
qed

lemma cancel_run:
  assumes run: "process_cancel pid (signer # multisig # transaction # remaining) instr s = Inr s'"
    and ms: "ms_load (ptr_of s multisig) (data_of s multisig) = Inr (c, os, ps)"
    and tx: "tx_load (ptr_of s transaction) (data_of s transaction) = Inr (h, v, m)"
  obtains i where
    "instr = []" "v_signer signer" "acc_owner (account_of s multisig) = pid"
    "acc_owner (account_of s transaction) = pid" "is_owner os (v_address signer) = Some i"
    "tx_multisig h = v_address multisig"
    "ms_stale_transaction_index c < tx_index h" "tx_owners_count h = ms_owners_count c"
    "tx_status h = status_to_u8 Active \<and> tx_creator h = v_address signer \<and>
       tx_invariant (h\<lparr>tx_status := status_to_u8 Cancelled\<rparr>) = Inr () \<and>
       s' = set_data transaction (tx_bytes (h\<lparr>tx_status := status_to_u8 Cancelled\<rparr>) v m) s \<or>
     tx_status h = status_to_u8 Approved \<and> mask_can_vote (ps ! i) \<and>
       (\<exists>bits. bitmap_set (v_cancelled v) i = (bits, True) \<and>
          tx_invariant (cancel_counted (ms_threshold c) h) = Inr () \<and>
          s' = set_data transaction (tx_bytes (cancel_counted (ms_threshold c) h) (v\<lparr>v_cancelled := bits\<rparr>) m) s)"
proof -
  obtain vt where prep: "prepare pid signer multisig transaction instr False s = Inr vt"
    and paths: "check_votable h multisig vt Active = Inr () \<and> tx_creator h = v_address signer \<and>
       tx_invariant (h\<lparr>tx_status := status_to_u8 Cancelled\<rparr>) = Inr () \<and>
       s' = set_data transaction (tx_bytes (h\<lparr>tx_status := status_to_u8 Cancelled\<rparr>) v m) s \<or>
     check_votable h multisig vt Approved = Inr () \<and> vt_can_vote vt \<and>
       (\<exists>bits. bitmap_set (v_cancelled v) (vt_index vt) = (bits, True) \<and>
          tx_invariant (cancel_counted (vt_threshold vt) h) = Inr () \<and>
          s' = set_data transaction (tx_bytes (cancel_counted (vt_threshold vt) h) (v\<lparr>v_cancelled := bits\<rparr>) m) s)"
    by (rule cancel_paths [OF run tx])
  from prep ms have p: "instr = []" "v_signer signer" "acc_owner (account_of s multisig) = pid"
      "acc_owner (account_of s transaction) = pid"
      "is_owner os (v_address signer) = Some (vt_index vt)"
    and vt: "vt_threshold vt = ms_threshold c" "vt_owners_count vt = ms_owners_count c"
      "vt_stale_index vt = ms_stale_transaction_index c"
      "vt_can_vote vt = mask_can_vote (ps ! vt_index vt)"
    by (auto simp: prepare_Inr)
  from p paths show thesis
    unfolding check_votable_Inr vt by (intro that [of "vt_index vt"]) blast+
qed

lemma cancel_effect:
  assumes run: "process_cancel pid (signer # multisig # transaction # remaining) instr s = Inr s'"
    and ms: "ms_load (ptr_of s multisig) (data_of s multisig) = Inr (c, os, ps)" "ms_wf c os ps"
    and tx: "tx_load (ptr_of s transaction) (data_of s transaction) = Inr (h, v, m)" "tx_wf h v m"
  shows "\<exists>h' v'. v_signer signer \<and> v_address signer \<in> set os \<and>
     ms_stale_transaction_index c < tx_index h \<and> tx_multisig h = v_address multisig \<and>
     s' = set_data transaction (tx_bytes h' v' m) s \<and> tx_wf h' v' m \<and>
     v_approved v' = v_approved v \<and> v_rejected v' = v_rejected v \<and>
     (tx_status h = status_to_u8 Active \<and> tx_creator h = v_address signer \<and>
        h' = h\<lparr>tx_status := status_to_u8 Cancelled\<rparr> \<and> v' = v \<or>
      tx_status h = status_to_u8 Approved \<and> v_address signer \<notin> cast_by os (v_cancelled v) \<and>
        (\<exists>i. is_owner os (v_address signer) = Some i \<and> mask_can_vote (ps ! i)) \<and>
        cast_by os (v_cancelled v') = insert (v_address signer) (cast_by os (v_cancelled v)) \<and>
        unat (tx_cancelled_count h') = card (cast_by os (v_cancelled v')) \<and>
        tx_status h' = status_to_u8
          (if unat (ms_threshold c) \<le> card (cast_by os (v_cancelled v')) then Cancelled else Approved) \<and>
        h' = h\<lparr>tx_cancelled_count := tx_cancelled_count h + 1, tx_status := tx_status h'\<rparr>)"
proof -
  obtain i where r: "v_signer signer" "is_owner os (v_address signer) = Some i"
    "tx_multisig h = v_address multisig"
    "ms_stale_transaction_index c < tx_index h" "tx_owners_count h = ms_owners_count c"
    and paths: "tx_status h = status_to_u8 Active \<and> tx_creator h = v_address signer \<and>
       tx_invariant (h\<lparr>tx_status := status_to_u8 Cancelled\<rparr>) = Inr () \<and>
       s' = set_data transaction (tx_bytes (h\<lparr>tx_status := status_to_u8 Cancelled\<rparr>) v m) s \<or>
     tx_status h = status_to_u8 Approved \<and> mask_can_vote (ps ! i) \<and>
       (\<exists>bits. bitmap_set (v_cancelled v) i = (bits, True) \<and>
          tx_invariant (cancel_counted (ms_threshold c) h) = Inr () \<and>
          s' = set_data transaction (tx_bytes (cancel_counted (ms_threshold c) h) (v\<lparr>v_cancelled := bits\<rparr>) m) s)"
    by (rule cancel_run [OF run ms(1) tx(1)]) blast
  note voter = voter_facts [OF ms r(2,5)]
  from paths show ?thesis
  proof (elim disjE conjE exE)
    assume a: "tx_status h = status_to_u8 Active" "tx_creator h = v_address signer"
      "tx_invariant (h\<lparr>tx_status := status_to_u8 Cancelled\<rparr>) = Inr ()"
      "s' = set_data transaction (tx_bytes (h\<lparr>tx_status := status_to_u8 Cancelled\<rparr>) v m) s"
    then have "tx_wf (h\<lparr>tx_status := status_to_u8 Cancelled\<rparr>) v m"
      using tx(2) by (simp add: tx_wf_def votes_fit_def)
    with a r voter(2) show ?thesis by blast
  next
    fix bits
    assume a: "tx_status h = status_to_u8 Approved" "mask_can_vote (ps ! i)"
      and set: "bitmap_set (v_cancelled v) i = (bits, True)"
      and inv: "tx_invariant (cancel_counted (ms_threshold c) h) = Inr ()"
      and s': "s' = set_data transaction (tx_bytes (cancel_counted (ms_threshold c) h) (v\<lparr>v_cancelled := bits\<rparr>) m) s"
    define h' where h': "h' = cancel_counted (ms_threshold c) h"
    note inv = inv [folded h'] and s' = s' [folded h']
    let ?v = "v\<lparr>v_cancelled := bits\<rparr>"
    have eq: "tx_owners_count h' = tx_owners_count h" "tx_message_len h' = tx_message_len h"
      "tx_approved_count h' = tx_approved_count h" "tx_rejected_count h' = tx_rejected_count h"
      "tx_cancelled_count h' = tx_cancelled_count h + 1"
      by (simp_all add: h' cancel_counted_def)
    have wf: "tx_wf h' ?v m" by (rule tx_wf_add_cancellation [OF tx(2) voter(1) set inv eq])
    have card: "unat (tx_cancelled_count h') = card (cast_by os bits)"
      using voter_facts(5) [OF ms r(2) _ wf] eq(1) r(5) by simp
    have "v_address signer \<notin> cast_by os (v_cancelled v)" by (rule voter(4) [OF bitmap_set_new(2) [OF set]])
    moreover have "cast_by os bits = insert (v_address signer) (cast_by os (v_cancelled v))" by (rule voter(3) [OF set])
    moreover have "tx_status h' = status_to_u8
        (if unat (ms_threshold c) \<le> card (cast_by os bits) then Cancelled else Approved)"
      unfolding card [symmetric] eq(5) by (simp add: h' cancel_counted_def word_le_nat_alt)
    moreover have "h' = h\<lparr>tx_cancelled_count := tx_cancelled_count h + 1, tx_status := tx_status h'\<rparr>"
      by (simp add: h' cancel_counted_def)
    ultimately show ?thesis
      using r a s' wf card voter(2) by (intro exI [of _ h'] exI [of _ ?v]) simp
  qed
qed

text \<open>C26: cancelling succeeds on two paths only. An Active proposal is cancelled at once by its
  creator. An Approved one takes a vote of an owner who may vote and has not voted to cancel; the
  vote is added and counted, and the proposal becomes Cancelled exactly when the cancelling owners
  reach the threshold. Either way approvals and rejections are untouched and the proposal stays
  well formed.\<close>

theorem cancel_correct:
  assumes run: "process_cancel pid (signer # multisig # transaction # remaining) instr s = Inr s'"
    and ms: "ms_load (ptr_of s multisig) (data_of s multisig) = Inr (c, os, ps)" "ms_wf c os ps"
    and tx: "tx_load (ptr_of s transaction) (data_of s transaction) = Inr (h, v, m)" "tx_wf h v m"
  shows "\<exists>h' v'. v_signer signer \<and> v_address signer \<in> set os \<and>
     ms_stale_transaction_index c < tx_index h \<and> tx_multisig h = v_address multisig \<and>
     s' = set_data transaction (tx_bytes h' v' m) s \<and> tx_wf h' v' m \<and>
     v_approved v' = v_approved v \<and> v_rejected v' = v_rejected v \<and>
     (tx_status h = status_to_u8 Active \<and> tx_creator h = v_address signer \<and>
        h' = h\<lparr>tx_status := status_to_u8 Cancelled\<rparr> \<and> v' = v \<or>
      tx_status h = status_to_u8 Approved \<and> v_address signer \<notin> cast_by os (v_cancelled v) \<and>
        (\<exists>i. is_owner os (v_address signer) = Some i \<and> mask_can_vote (ps ! i)) \<and>
        cast_by os (v_cancelled v') = insert (v_address signer) (cast_by os (v_cancelled v)) \<and>
        unat (tx_cancelled_count h') = card (cast_by os (v_cancelled v')) \<and>
        tx_status h' = status_to_u8
          (if unat (ms_threshold c) \<le> card (cast_by os (v_cancelled v')) then Cancelled else Approved) \<and>
        h' = h\<lparr>tx_cancelled_count := tx_cancelled_count h + 1, tx_status := tx_status h'\<rparr>)"
  by (rule cancel_effect [OF assms])

section \<open>No panic\<close>

lemma vote_no_panic:
  "runtime_no_panic rt \<Longrightarrow> \<not> panics (process_approve rt pid accounts instr s)"
  "\<not> panics (process_reject pid accounts instr s)"
  "\<not> panics (process_cancel pid accounts instr s)"
  unfolding process_approve_def process_reject_def process_cancel_def Let_def tx_load_mut_eq
  by (auto split: list.split transaction_status.split prod.split simp: runtime_no_panicD)

end
