(* ===== verification/Cursor.thy ===== *)
theory Cursor
  imports Errors
begin

text \<open>
  The byte cursor of src/state/message.rs, and the locales of what is read through it:
  \<open>item_stream\<close>, a reader that accepts exactly the encodings of its items and advances past them,
  and \<open>item_loop\<close>, an iterator over such a reader. Reading many items, skipping them and looping
  over them are proved once here for every kind of item.
\<close>

record cursor =
  cur_data :: bytes
  cur_pos :: nat

definition cursor_new :: "bytes \<Rightarrow> cursor" where
  "cursor_new d = \<lparr>cur_data = d, cur_pos = 0\<rparr>"

definition cursor_remaining :: "cursor \<Rightarrow> nat" where
  "cursor_remaining c = length (cur_data c) - cur_pos c"

definition cursor_take :: "nat \<Rightarrow> cursor \<Rightarrow> (bytes \<times> cursor) result" where
  "cursor_take len c =
     (if cursor_remaining c < len then fail InvalidMessage
      else Inr (slice (cur_pos c) len (cur_data c), c\<lparr>cur_pos := cur_pos c + len\<rparr>))"

definition cursor_u8 :: "cursor \<Rightarrow> (u8 \<times> cursor) result" where
  "cursor_u8 c = and_then (cursor_take 1 c) (\<lambda>(bs, c). Inr (bs ! 0, c))"

definition cursor_u16 :: "cursor \<Rightarrow> (u16 \<times> cursor) result" where
  "cursor_u16 c = and_then (cursor_take 2 c) (\<lambda>(bs, c). Inr (from_le_bytes [bs ! 0, bs ! 1], c))"

section \<open>Positions\<close>

definition advance :: "nat \<Rightarrow> cursor \<Rightarrow> cursor" where
  "advance n c = c\<lparr>cur_pos := cur_pos c + n\<rparr>"

definition rest :: "cursor \<Rightarrow> bytes" where
  "rest c = drop (cur_pos c) (cur_data c)"

lemma cursor_new_simps [simp]:
  "cur_data (cursor_new d) = d" "cur_pos (cursor_new d) = 0" "rest (cursor_new d) = d"
  by (simp_all add: cursor_new_def rest_def)

lemma length_rest: "length (rest c) = cursor_remaining c"
  by (simp add: rest_def cursor_remaining_def)

lemma advance_simps [simp]:
  "cur_data (advance n c) = cur_data c" "cur_pos (advance n c) = cur_pos c + n"
  "advance 0 c = c" "advance m (advance n c) = advance (n + m) c"
  by (simp_all add: advance_def)

lemma rest_advance_drop: "rest (advance n c) = drop n (rest c)"
  by (simp add: rest_def add.commute)

lemma rest_advance: "rest c = bs @ r \<Longrightarrow> n = length bs \<Longrightarrow> rest (advance n c) = r"
  by (simp add: rest_advance_drop)

lemma cursor_take_Inr:
  "cursor_take n c = Inr (bs, c') \<longleftrightarrow>
     length bs = n \<and> rest c = bs @ rest c' \<and> c' = advance n c"
proof
  assume "cursor_take n c = Inr (bs, c')"
  then have n: "n \<le> cursor_remaining c" and bs: "bs = take n (rest c)" and c': "c' = advance n c"
    by (auto simp: cursor_take_def slice_def rest_def advance_def split: if_splits)
  then show "length bs = n \<and> rest c = bs @ rest c' \<and> c' = advance n c"
    by (simp add: length_rest rest_advance_drop)
next
  assume a: "length bs = n \<and> rest c = bs @ rest c' \<and> c' = advance n c"
  then have "length (rest c) = n + length (rest c')" by (metis length_append)
  then have "\<not> cursor_remaining c < n" by (simp add: length_rest)
  moreover have "slice (cur_pos c) n (cur_data c) = bs"
    using a by (metis append_eq_conv_conj rest_def slice_def)
  ultimately show "cursor_take n c = Inr (bs, c')"
    using a by (simp add: cursor_take_def advance_def)
qed

lemma cursor_u8_Inr:
  "cursor_u8 c = Inr (b, c') \<longleftrightarrow> rest c = b # rest c' \<and> c' = advance 1 c"
proof -
  have "cursor_u8 c = Inr (b, c') \<longleftrightarrow> (\<exists>bs. cursor_take 1 c = Inr (bs, c') \<and> b = bs ! 0)"
    by (auto simp: cursor_u8_def and_then_Inr split: prod.splits)
  then show ?thesis by (auto simp: cursor_take_Inr length_Suc_conv)
qed

lemma cursor_u16_Inr:
  "cursor_u16 c = Inr (w, c') \<longleftrightarrow> rest c = to_le_bytes 2 w @ rest c' \<and> c' = advance 2 c"
proof -
  have two: "[bs ! 0, bs ! 1] = bs" if "length bs = 2" for bs :: bytes
    using that by (auto simp: length_Suc_conv numeral_eq_Suc)
  have "cursor_u16 c = Inr (w, c') \<longleftrightarrow>
      (\<exists>bs. length bs = 2 \<and> rest c = bs @ rest c' \<and> c' = advance 2 c \<and> from_le_bytes bs = w)"
    unfolding cursor_u16_def and_then_Inr using two
    by (auto simp: cursor_take_Inr simp del: from_le_bytes.simps)
  also have "\<dots> \<longleftrightarrow> rest c = to_le_bytes 2 w @ rest c' \<and> c' = advance 2 c"
    by (metis le16.dec_enc le16.enc_dec le16.enc_length)
  finally show ?thesis .
qed

text \<open>The same reads as rewrite rules, for a cursor whose remaining bytes are known.\<close>

lemma cursor_take_eq: "rest c = bs @ r \<Longrightarrow> n = length bs \<Longrightarrow> cursor_take n c = Inr (bs, advance n c)"
  by (simp add: cursor_take_Inr rest_advance)

lemma cursor_u8_eq: "rest c = b # r \<Longrightarrow> cursor_u8 c = Inr (b, advance 1 c)"
  using rest_advance [of c "[b]" r 1] by (simp add: cursor_u8_Inr)

lemma cursor_u16_eq: "rest c = to_le_bytes 2 w @ r \<Longrightarrow> cursor_u16 c = Inr (w, advance 2 c)"
  using rest_advance [of c "to_le_bytes 2 w" r 2] by (simp add: cursor_u16_Inr)

lemma cursor_no_panic [simp]:
  "\<not> panics (cursor_take n c)" "\<not> panics (cursor_u8 c)" "\<not> panics (cursor_u16 c)"
  by (auto simp: cursor_take_def cursor_u8_def cursor_u16_def)

section \<open>Readers of items\<close>

fun read_many :: "(cursor \<Rightarrow> ('a \<times> cursor) result) \<Rightarrow> nat \<Rightarrow> cursor \<Rightarrow> ('a list \<times> cursor) result" where
  "read_many read 0 c = Inr ([], c)"
| "read_many read (Suc n) c =
     and_then (read c) (\<lambda>(x, c). and_then (read_many read n c) (\<lambda>(xs, c). Inr (x # xs, c)))"

locale item_stream =
  fixes enc :: "'a \<Rightarrow> bytes"
    and ok :: "'a \<Rightarrow> bool"
    and read :: "cursor \<Rightarrow> ('a \<times> cursor) result"
  assumes read_Inr: "read c = Inr (x, c') \<longleftrightarrow>
      ok x \<and> rest c = enc x @ rest c' \<and> c' = advance (length (enc x)) c"
    and enc_nonempty: "enc x \<noteq> []"
begin

lemma read_enc: "ok x \<Longrightarrow> rest c = enc x @ r \<Longrightarrow> read c = Inr (x, advance (length (enc x)) c)"
  by (simp add: read_Inr rest_advance)

lemma enc_unique: "ok x \<Longrightarrow> ok y \<Longrightarrow> enc x @ r = enc y @ s \<Longrightarrow> x = y \<and> r = s"
proof -
  assume "ok x" "ok y" and eq: "enc x @ r = enc y @ s"
  let ?c = "cursor_new (enc x @ r)"
  have "read ?c = Inr (x, advance (length (enc x)) ?c)"
    using \<open>ok x\<close> by (rule read_enc) simp
  moreover have "read ?c = Inr (y, advance (length (enc y)) ?c)"
    using \<open>ok y\<close> by (rule read_enc) (simp only: cursor_new_simps eq)
  ultimately have "x = y" by simp
  with eq show "x = y \<and> r = s" by simp
qed

lemma read_many_Inr:
  "read_many read n c = Inr (xs, c') \<longleftrightarrow>
     length xs = n \<and> list_all ok xs \<and> rest c = encode_array enc xs @ rest c' \<and>
     c' = advance (length (encode_array enc xs)) c"
proof (induction n arbitrary: c xs)
  case 0
  then show ?case by auto
next
  case (Suc n)
  show ?case
  proof (cases xs)
    case Nil
    then show ?thesis by (auto simp: and_then_Inr split: prod.splits)
  next
    case (Cons y ys)
    have "read_many read (Suc n) c = Inr (xs, c') \<longleftrightarrow>
        (\<exists>d. read c = Inr (y, d) \<and> read_many read n d = Inr (ys, c'))"
      by (auto simp: Cons and_then_Inr split: prod.splits)
    also have "\<dots> \<longleftrightarrow> length xs = Suc n \<and> list_all ok xs \<and>
        rest c = encode_array enc xs @ rest c' \<and> c' = advance (length (encode_array enc xs)) c"
      (is "?l \<longleftrightarrow> ?r")
    proof
      assume ?l
      then obtain d where "ok y" "rest c = enc y @ rest d" and d: "d = advance (length (enc y)) c"
        and "length ys = n" "list_all ok ys" "rest d = encode_array enc ys @ rest c'"
        and "c' = advance (length (encode_array enc ys)) d"
        unfolding Suc.IH read_Inr by blast
      then show ?r by (simp add: Cons)
    next
      assume r: ?r
      then have "length xs = Suc n" "list_all ok xs"
        and rc: "rest c = encode_array enc xs @ rest c'"
        and adv: "c' = advance (length (encode_array enc xs)) c" by blast+
      then have ys: "ok y" "list_all ok ys" "length ys = n" by (simp_all add: Cons)
      have c: "rest c = enc y @ encode_array enc ys @ rest c'"
        using rc by (simp only: Cons encode_array_simps append_assoc)
      have c': "c' = advance (length (encode_array enc ys)) (advance (length (enc y)) c)"
        using adv by (simp only: Cons encode_array_simps advance_simps length_append)
      have d: "rest (advance (length (enc y)) c) = encode_array enc ys @ rest c'"
        using c by (rule rest_advance) simp
      show ?l
        unfolding Suc.IH read_Inr
        by (intro exI [of _ "advance (length (enc y)) c"] conjI ys d c' refl) (simp only: c d)
    qed
    finally show ?thesis .
  qed
qed

lemma encode_many_unique:
  assumes "list_all ok xs" "list_all ok ys" "length xs = length ys"
    and eq: "encode_array enc xs @ r = encode_array enc ys @ s"
  shows "xs = ys \<and> r = s"
proof -
  let ?c = "cursor_new (encode_array enc xs @ r)"
  have "read_many read (length xs) ?c = Inr (xs, advance (length (encode_array enc xs)) ?c)"
    using assms(1) by (simp add: read_many_Inr rest_advance_drop)
  moreover have "read_many read (length xs) ?c = Inr (ys, advance (length (encode_array enc ys)) ?c)"
    using assms(2,3) eq by (simp add: read_many_Inr rest_advance_drop)
  ultimately have "xs = ys" by simp
  with eq show ?thesis by simp
qed

end

locale item_loop = item_stream enc ok read
  for enc :: "'a \<Rightarrow> bytes" and ok :: "'a \<Rightarrow> bool"
    and read :: "cursor \<Rightarrow> ('a \<times> cursor) result" +
  fixes loop :: "('a \<Rightarrow> 's \<Rightarrow> 's result) \<Rightarrow> cursor \<Rightarrow> 's \<Rightarrow> 's result"
  assumes loop_eq: "loop body c s =
      (if cursor_remaining c = 0 then Inr s
       else and_then (read c) (\<lambda>(x, c'). and_then (body x s) (\<lambda>s'. loop body c' s')))"
begin

text \<open>On the bytes of a list of items the iterator yields exactly those items, in order.\<close>

lemma loop_fold:
  "list_all ok xs \<Longrightarrow> rest c = encode_array enc xs \<Longrightarrow> loop body c s = fold_result body xs s"
proof (induction xs arbitrary: c s)
  case Nil
  then have "cursor_remaining c = 0" by (simp flip: length_rest)
  then show ?case by (simp add: loop_eq [of body c s])
next
  case (Cons x xs)
  then have "cursor_remaining c \<noteq> 0" using enc_nonempty by (simp flip: length_rest)
  moreover have "read c = Inr (x, advance (length (enc x)) c)"
    using Cons.prems by (auto intro: read_enc)
  moreover have "loop body (advance (length (enc x)) c) t = fold_result body xs t" for t
    using Cons.prems by (intro Cons.IH) (simp_all add: rest_advance)
  then have "loop body (advance (length (enc x)) c) = fold_result body xs" by (rule ext)
  ultimately show ?case by (simp add: loop_eq [of body c s])
qed

lemma loop_new: "list_all ok xs \<Longrightarrow> loop body (cursor_new (encode_array enc xs)) s = fold_result body xs s"
  by (simp add: loop_fold)

end

end
