(* ===== verification/Message.thy ===== *)
theory Message
  imports Cursor
begin

text \<open>
  The compiled message of src/state/message.rs: the parser, its iterators and the privilege
  queries. \<open>encode_message\<close> is the layout the module's documentation draws; \<open>parse_iff\<close> says the
  parser accepts exactly the layouts of valid messages, and what it returns for each.
\<close>

section \<open>Data\<close>

record message_header =
  num_signers :: u8
  num_writable_signers :: u8
  num_writable_non_signers :: u8
  num_account_keys :: u8
  num_instructions :: u8
  num_lookups :: u8

record compiled_instruction =
  ci_program_id_index :: u8
  ci_account_indexes :: bytes
  ci_data :: bytes

record message_lookup =
  ml_account_key :: address
  ml_writable_indexes :: bytes
  ml_readonly_indexes :: bytes

record transaction_message =
  tm_header :: message_header
  tm_account_keys :: "address list"
  tm_instructions :: bytes
  tm_lookups :: bytes
  tm_num_all_keys :: nat
  tm_num_writable_lookup_keys :: nat

section \<open>Reading one instruction, one lookup\<close>

definition read_instruction :: "cursor \<Rightarrow> (compiled_instruction \<times> cursor) result" where
  "read_instruction c =
     and_then (cursor_u8 c) (\<lambda>(program_id_index, c).
     and_then (cursor_u8 c) (\<lambda>(indexes_len, c).
     and_then (cursor_take (unat indexes_len) c) (\<lambda>(account_indexes, c).
     and_then (cursor_u16 c) (\<lambda>(data_len, c).
     and_then (cursor_take (unat data_len) c) (\<lambda>(d, c).
       Inr (\<lparr>ci_program_id_index = program_id_index, ci_account_indexes = account_indexes,
             ci_data = d\<rparr>, c))))))"

definition read_lookup :: "cursor \<Rightarrow> (message_lookup \<times> cursor) result" where
  "read_lookup c =
     and_then (cursor_take 32 c) (\<lambda>(key_bytes, c).
     and_then (cursor_u8 c) (\<lambda>(writable_len, c).
     and_then (cursor_take (unat writable_len) c) (\<lambda>(writable, c).
     and_then (cursor_u8 c) (\<lambda>(readonly_len, c).
     and_then (cursor_take (unat readonly_len) c) (\<lambda>(readonly, c).
       Inr (\<lparr>ml_account_key = new_from_array key_bytes, ml_writable_indexes = writable,
             ml_readonly_indexes = readonly\<rparr>, c))))))"

section \<open>Their bytes\<close>

definition encode_instruction :: "compiled_instruction \<Rightarrow> bytes" where
  "encode_instruction ix =
     [ci_program_id_index ix, of_nat (length (ci_account_indexes ix))] @ ci_account_indexes ix @
     to_le_bytes 2 (of_nat (length (ci_data ix)) :: u16) @ ci_data ix"

definition encode_lookup :: "message_lookup \<Rightarrow> bytes" where
  "encode_lookup l =
     as_array (ml_account_key l) @
     [of_nat (length (ml_writable_indexes l))] @ ml_writable_indexes l @
     [of_nat (length (ml_readonly_indexes l))] @ ml_readonly_indexes l"

text \<open>What the length prefixes can carry.\<close>

definition instruction_fits :: "compiled_instruction \<Rightarrow> bool" where
  "instruction_fits ix \<longleftrightarrow> length (ci_account_indexes ix) < 256 \<and> length (ci_data ix) < 65536"

definition lookup_fits :: "message_lookup \<Rightarrow> bool" where
  "lookup_fits l \<longleftrightarrow> length (ml_writable_indexes l) < 256 \<and> length (ml_readonly_indexes l) < 256"

lemma unat_of_nat_u8 [simp]: "n < 256 \<Longrightarrow> unat (of_nat n :: u8) = n"
  by (simp add: unat_of_nat)

lemma unat_of_nat_u16 [simp]: "n < 65536 \<Longrightarrow> unat (of_nat n :: u16) = n"
  by (simp add: unat_of_nat)

lemma unat_u8_less [simp]: "unat w < 256" for w :: u8
  using unat_less [of w] by simp

lemma unat_u16_less [simp]: "unat w < 65536" for w :: u16
  using unat_less [of w] by simp

lemma read_instruction_Inr:
  "read_instruction c = Inr (x, c') \<longleftrightarrow>
     instruction_fits x \<and> rest c = encode_instruction x @ rest c' \<and>
     c' = advance (length (encode_instruction x)) c"
proof
  assume "read_instruction c = Inr (x, c')"
  then show "instruction_fits x \<and> rest c = encode_instruction x @ rest c' \<and>
     c' = advance (length (encode_instruction x)) c"
    unfolding read_instruction_def and_then_Inr
    by (auto simp: and_then_Inr cursor_u8_Inr cursor_take_Inr cursor_u16_Inr
        instruction_fits_def encode_instruction_def add_ac)
next
  assume a: "instruction_fits x \<and> rest c = encode_instruction x @ rest c' \<and>
     c' = advance (length (encode_instruction x)) c"
  then obtain r where "rest c = encode_instruction x @ r" by blast
  moreover have "instruction_fits x" "c' = advance (length (encode_instruction x)) c" using a by simp_all
  ultimately show "read_instruction c = Inr (x, c')"
    by (auto simp: read_instruction_def cursor_u8_eq cursor_take_eq cursor_u16_eq
        rest_advance_drop encode_instruction_def instruction_fits_def add_ac)
qed

lemma read_lookup_Inr:
  "read_lookup c = Inr (x, c') \<longleftrightarrow>
     lookup_fits x \<and> rest c = encode_lookup x @ rest c' \<and>
     c' = advance (length (encode_lookup x)) c"
proof
  assume "read_lookup c = Inr (x, c')"
  then show "lookup_fits x \<and> rest c = encode_lookup x @ rest c' \<and>
     c' = advance (length (encode_lookup x)) c"
    unfolding read_lookup_def and_then_Inr
    by (auto simp: and_then_Inr cursor_u8_Inr cursor_take_Inr
        lookup_fits_def encode_lookup_def as_array_new_from_array add_ac)
next
  assume a: "lookup_fits x \<and> rest c = encode_lookup x @ rest c' \<and>
     c' = advance (length (encode_lookup x)) c"
  then obtain r where "rest c = encode_lookup x @ r" by blast
  moreover have "lookup_fits x" "c' = advance (length (encode_lookup x)) c" using a by simp_all
  ultimately show "read_lookup c = Inr (x, c')"
    by (auto simp: read_lookup_def cursor_u8_eq cursor_take_eq
        rest_advance_drop encode_lookup_def lookup_fits_def add_ac)
qed

lemma encode_instruction_nonempty: "encode_instruction x \<noteq> []"
  by (simp add: encode_instruction_def)

lemma encode_lookup_nonempty: "encode_lookup x \<noteq> []"
  by (simp add: encode_lookup_def)

section \<open>Iterators\<close>

text \<open>
  \<open>for x in message.instructions() { let x = x?; body }\<close>: the iterator ends when its cursor has
  no bytes left. A successful read consumes at least one byte, so the loop terminates.
\<close>

function for_instructions ::
  "(compiled_instruction \<Rightarrow> 's \<Rightarrow> 's result) \<Rightarrow> cursor \<Rightarrow> 's \<Rightarrow> 's result" where
  "for_instructions body c s =
     (if cursor_remaining c = 0 then Inr s
      else and_then (read_instruction c) (\<lambda>(x, c').
           and_then (body x s) (\<lambda>s'. for_instructions body c' s')))"
  by pat_completeness auto
termination
proof (relation "measure (\<lambda>(body, c, s). cursor_remaining c)")
  fix c x s' and xc :: "compiled_instruction \<times> cursor" and c' :: cursor and y
  assume "read_instruction c = Inr xc" "(y, c') = xc"
  then have "rest c = encode_instruction y @ rest c'" by (auto simp: read_instruction_Inr)
  then have "length (rest c') < length (rest c)" using encode_instruction_nonempty [of y] by simp
  then show "((body, c', s'), body, c, s) \<in> measure (\<lambda>(body, c, s). cursor_remaining c)" for body s
    by (simp add: length_rest)
qed simp

function for_lookups ::
  "(message_lookup \<Rightarrow> 's \<Rightarrow> 's result) \<Rightarrow> cursor \<Rightarrow> 's \<Rightarrow> 's result" where
  "for_lookups body c s =
     (if cursor_remaining c = 0 then Inr s
      else and_then (read_lookup c) (\<lambda>(x, c').
           and_then (body x s) (\<lambda>s'. for_lookups body c' s')))"
  by pat_completeness auto
termination
proof (relation "measure (\<lambda>(body, c, s). cursor_remaining c)")
  fix c x s' and xc :: "message_lookup \<times> cursor" and c' :: cursor and y
  assume "read_lookup c = Inr xc" "(y, c') = xc"
  then have "rest c = encode_lookup y @ rest c'" by (auto simp: read_lookup_Inr)
  then have "length (rest c') < length (rest c)" using encode_lookup_nonempty [of y] by simp
  then show "((body, c', s'), body, c, s) \<in> measure (\<lambda>(body, c, s). cursor_remaining c)" for body s
    by (simp add: length_rest)
qed simp

declare for_instructions.simps [simp del] for_lookups.simps [simp del]

interpretation ixs: item_loop encode_instruction instruction_fits read_instruction for_instructions
proof unfold_locales
  show "read_instruction c = Inr (x, c') \<longleftrightarrow>
      instruction_fits x \<and> rest c = encode_instruction x @ rest c' \<and>
      c' = advance (length (encode_instruction x)) c" for c x c'
    by (rule read_instruction_Inr)
  show "encode_instruction x \<noteq> []" for x by (rule encode_instruction_nonempty)
qed (rule for_instructions.simps)

interpretation lks: item_loop encode_lookup lookup_fits read_lookup for_lookups
proof unfold_locales
  show "read_lookup c = Inr (x, c') \<longleftrightarrow>
      lookup_fits x \<and> rest c = encode_lookup x @ rest c' \<and>
      c' = advance (length (encode_lookup x)) c" for c x c'
    by (rule read_lookup_Inr)
  show "encode_lookup x \<noteq> []" for x by (rule encode_lookup_nonempty)
qed (rule for_lookups.simps)

section \<open>Parsing\<close>

definition read_header :: "cursor \<Rightarrow> (message_header \<times> cursor) result" where
  "read_header c =
     and_then (cursor_u8 c) (\<lambda>(signers, c).
     and_then (cursor_u8 c) (\<lambda>(writable_signers, c).
     and_then (cursor_u8 c) (\<lambda>(writable_non_signers, c).
     and_then (cursor_u8 c) (\<lambda>(account_keys, c).
     and_then (cursor_u8 c) (\<lambda>(instructions, c).
     and_then (cursor_u8 c) (\<lambda>(lookups, c).
       Inr (\<lparr>num_signers = signers, num_writable_signers = writable_signers,
             num_writable_non_signers = writable_non_signers, num_account_keys = account_keys,
             num_instructions = instructions, num_lookups = lookups\<rparr>, c)))))))"

text \<open>The first walk over the instructions only finds where they end.\<close>

fun skip_instructions :: "nat \<Rightarrow> cursor \<Rightarrow> cursor result" where
  "skip_instructions 0 c = Inr c"
| "skip_instructions (Suc n) c =
     and_then (cursor_u8 c) (\<lambda>(_, c).
     and_then (cursor_u8 c) (\<lambda>(indexes_len, c).
     and_then (cursor_take (unat indexes_len) c) (\<lambda>(_, c).
     and_then (cursor_u16 c) (\<lambda>(data_len, c).
     and_then (cursor_take (unat data_len) c) (\<lambda>(_, c).
       skip_instructions n c)))))"

text \<open>The walk over the lookups also counts the keys they name, all and writable.\<close>

fun skip_lookups :: "nat \<Rightarrow> cursor \<Rightarrow> nat \<Rightarrow> nat \<Rightarrow> (cursor \<times> nat \<times> nat) result" where
  "skip_lookups 0 c num_lookup_keys num_writable = Inr (c, num_lookup_keys, num_writable)"
| "skip_lookups (Suc n) c num_lookup_keys num_writable =
     and_then (cursor_take 32 c) (\<lambda>(_, c).
     and_then (cursor_u8 c) (\<lambda>(writable_len, c).
     and_then (cursor_take (unat writable_len) c) (\<lambda>(_, c).
     and_then (cursor_u8 c) (\<lambda>(readonly_len, c).
     and_then (cursor_take (unat readonly_len) c) (\<lambda>(_, c).
       skip_lookups n c (num_lookup_keys + (unat writable_len + unat readonly_len))
         (num_writable + unat writable_len))))))"

fun check_indexes :: "nat \<Rightarrow> bytes \<Rightarrow> unit result" where
  "check_indexes num_all_keys [] = Inr ()"
| "check_indexes num_all_keys (index # indexes) =
     (if num_all_keys \<le> unat index then fail InvalidMessage
      else check_indexes num_all_keys indexes)"

definition check_instruction :: "nat \<Rightarrow> compiled_instruction \<Rightarrow> unit result" where
  "check_instruction num_all_keys ix =
     (if num_all_keys \<le> unat (ci_program_id_index ix) then fail InvalidMessage
      else check_indexes num_all_keys (ci_account_indexes ix))"

definition parse :: "bytes \<Rightarrow> transaction_message result" where
  "parse blob =
     and_then (read_header (cursor_new blob)) (\<lambda>(header, c).
     let num_keys = unat (num_account_keys header) in
     if num_keys < unat (num_signers header) \<or> num_signers header < num_writable_signers header
     then fail InvalidMessage
     else if num_keys - unat (num_signers header) < unat (num_writable_non_signers header)
     then fail InvalidMessage
     else and_then (cursor_take (num_keys * 32) c) (\<lambda>(keys_bytes, c).
       let account_keys = decode_array 32 new_from_array num_keys keys_bytes;
           instructions_start = cur_pos c in
     and_then (skip_instructions (unat (num_instructions header)) c) (\<lambda>c.
       let instructions = slice instructions_start (cur_pos c - instructions_start) blob;
           lookups_start = cur_pos c in
     and_then (skip_lookups (unat (num_lookups header)) c 0 0)
       (\<lambda>(c, num_lookup_keys, num_writable_lookup_keys).
       let lookups = slice lookups_start (cur_pos c - lookups_start) blob in
     if cursor_remaining c \<noteq> 0 then fail InvalidMessage
     else let num_all_keys = num_keys + num_lookup_keys;
              message = \<lparr>tm_header = header, tm_account_keys = account_keys,
                 tm_instructions = instructions, tm_lookups = lookups,
                 tm_num_all_keys = num_all_keys,
                 tm_num_writable_lookup_keys = num_writable_lookup_keys\<rparr> in
     and_then (for_instructions (\<lambda>ix _. check_instruction num_all_keys ix)
         (cursor_new instructions) ())
       (\<lambda>_. Inr message)))))"

section \<open>Privileges\<close>

definition message_is_writable :: "transaction_message \<Rightarrow> nat \<Rightarrow> bool" where
  "message_is_writable m index =
     (let header = tm_header m;
          num_static = unat (num_account_keys header);
          signers = unat (num_signers header) in
      if num_static \<le> index then index - num_static < tm_num_writable_lookup_keys m
      else if index < unat (num_writable_signers header) then True
      else if index < signers then False
      else index - signers < unat (num_writable_non_signers header))"

definition message_is_signer :: "transaction_message \<Rightarrow> nat \<Rightarrow> bool" where
  "message_is_signer m index \<longleftrightarrow> index < unat (num_signers (tm_header m))"

section \<open>The layout of a message\<close>

definition encode_header :: "message_header \<Rightarrow> bytes" where
  "encode_header h =
     [num_signers h, num_writable_signers h, num_writable_non_signers h, num_account_keys h,
      num_instructions h, num_lookups h]"

definition encode_message ::
  "message_header \<Rightarrow> address list \<Rightarrow> compiled_instruction list \<Rightarrow> message_lookup list \<Rightarrow> bytes" where
  "encode_message h keys ixs lks =
     encode_header h @ encode_array as_array keys @ encode_array encode_instruction ixs @
     encode_array encode_lookup lks"

definition lookup_keys :: "message_lookup list \<Rightarrow> nat" where
  "lookup_keys lks =
     sum_list (map (\<lambda>l. length (ml_writable_indexes l) + length (ml_readonly_indexes l)) lks)"

definition writable_lookup_keys :: "message_lookup list \<Rightarrow> nat" where
  "writable_lookup_keys lks = sum_list (map (\<lambda>l. length (ml_writable_indexes l)) lks)"

text \<open>The counts agree, the lengths fit their prefixes, the privilege groups fit the keys, and
  every index names a key.\<close>

definition message_ok ::
  "message_header \<Rightarrow> address list \<Rightarrow> compiled_instruction list \<Rightarrow> message_lookup list \<Rightarrow> bool" where
  "message_ok h keys ixs lks \<longleftrightarrow>
     length keys = unat (num_account_keys h) \<and> length ixs = unat (num_instructions h) \<and>
     length lks = unat (num_lookups h) \<and>
     list_all instruction_fits ixs \<and> list_all lookup_fits lks \<and>
     unat (num_signers h) \<le> length keys \<and> num_writable_signers h \<le> num_signers h \<and>
     unat (num_writable_non_signers h) \<le> length keys - unat (num_signers h) \<and>
     (\<forall>ix \<in> set ixs. unat (ci_program_id_index ix) < length keys + lookup_keys lks \<and>
        (\<forall>i \<in> set (ci_account_indexes ix). unat i < length keys + lookup_keys lks))"

definition message_of ::
  "message_header \<Rightarrow> address list \<Rightarrow> compiled_instruction list \<Rightarrow> message_lookup list \<Rightarrow>
   transaction_message" where
  "message_of h keys ixs lks =
     \<lparr>tm_header = h, tm_account_keys = keys,
      tm_instructions = encode_array encode_instruction ixs,
      tm_lookups = encode_array encode_lookup lks,
      tm_num_all_keys = length keys + lookup_keys lks,
      tm_num_writable_lookup_keys = writable_lookup_keys lks\<rparr>"

lemma read_header_Inr:
  "read_header c = Inr (h, c') \<longleftrightarrow> rest c = encode_header h @ rest c' \<and> c' = advance 6 c"
proof
  assume "read_header c = Inr (h, c')"
  then show "rest c = encode_header h @ rest c' \<and> c' = advance 6 c"
    unfolding read_header_def and_then_Inr
    by (auto simp: and_then_Inr cursor_u8_Inr encode_header_def)
next
  assume a: "rest c = encode_header h @ rest c' \<and> c' = advance 6 c"
  then obtain r where "rest c = encode_header h @ r" by blast
  moreover have "c' = advance 6 c" using a by simp
  ultimately show "read_header c = Inr (h, c')"
    by (simp add: read_header_def cursor_u8_eq rest_advance_drop encode_header_def)
qed

lemma and_then_assoc: "and_then (and_then r f) g = and_then r (\<lambda>x. and_then (f x) g)"
  by (cases r) simp_all

lemma skip_instructions_Suc:
  "skip_instructions (Suc n) c = and_then (read_instruction c) (\<lambda>(x, c). skip_instructions n c)"
  by (simp add: read_instruction_def and_then_assoc case_prod_unfold)

lemma skip_instructions_Inr:
  "skip_instructions n c = Inr c' \<longleftrightarrow> (\<exists>xs. read_many read_instruction n c = Inr (xs, c'))"
proof (induction n arbitrary: c)
  case 0
  then show ?case by simp
next
  case (Suc n)
  show ?case unfolding skip_instructions_Suc read_many.simps and_then_Inr
    by (auto simp: Suc.IH and_then_Inr)
qed

lemma cursor_take_length: "cursor_take n c = Inr (bs, c') \<Longrightarrow> n = length bs"
  by (simp add: cursor_take_Inr)

lemma skip_lookups_Suc:
  "skip_lookups (Suc n) c k w = Inr out \<longleftrightarrow>
     (\<exists>l c1. read_lookup c = Inr (l, c1) \<and>
        skip_lookups n c1 (k + (length (ml_writable_indexes l) + length (ml_readonly_indexes l)))
          (w + length (ml_writable_indexes l)) = Inr out)"
  by (auto simp: read_lookup_def and_then_Inr) (metis cursor_take_length)+

lemma skip_lookups_Inr:
  "skip_lookups n c k w = Inr (c', k', w') \<longleftrightarrow>
     (\<exists>xs. read_many read_lookup n c = Inr (xs, c') \<and>
        k' = k + lookup_keys xs \<and> w' = w + writable_lookup_keys xs)"
proof (induction n arbitrary: c k w)
  case 0
  then show ?case by (auto simp: lookup_keys_def writable_lookup_keys_def)
next
  case (Suc n)
  have "skip_lookups (Suc n) c k w = Inr (c', k', w') \<longleftrightarrow>
      (\<exists>l c1 xs. read_lookup c = Inr (l, c1) \<and> read_many read_lookup n c1 = Inr (xs, c') \<and>
         k' = k + lookup_keys (l # xs) \<and> w' = w + writable_lookup_keys (l # xs))"
    unfolding skip_lookups_Suc Suc.IH
    by (simp add: lookup_keys_def writable_lookup_keys_def add_ac)
  also have "\<dots> \<longleftrightarrow> (\<exists>xs. read_many read_lookup (Suc n) c = Inr (xs, c') \<and>
        k' = k + lookup_keys xs \<and> w' = w + writable_lookup_keys xs)"
    by (auto simp: and_then_Inr)
  finally show ?case .
qed

lemma check_indexes_Inr:
  "check_indexes n is = Inr () \<longleftrightarrow> (\<forall>i \<in> set is. unat i < n)"
  by (induction "is") (auto simp: not_le)

lemma check_instruction_Inr:
  "check_instruction n ix = Inr () \<longleftrightarrow>
     unat (ci_program_id_index ix) < n \<and> (\<forall>i \<in> set (ci_account_indexes ix). unat i < n)"
  by (auto simp: check_instruction_def check_indexes_Inr not_le)

lemma slice_advance:
  "rest c = bs @ rest c' \<Longrightarrow> c' = advance (length bs) c \<Longrightarrow>
   slice (cur_pos c) (cur_pos c' - cur_pos c) (cur_data c) = bs"
  by (simp add: slice_def flip: rest_def)

text \<open>The parser accepts exactly the layouts of valid messages and returns their parts.\<close>

lemma parse_encode:
  assumes "message_ok h keys ixs lks"
  shows "parse (encode_message h keys ixs lks) = Inr (message_of h keys ixs lks)"
proof -
  let ?blob = "encode_message h keys ixs lks"
  let ?c1 = "advance 6 (cursor_new ?blob)"
  let ?c2 = "advance (length keys * 32) ?c1"
  let ?c3 = "advance (length (encode_array encode_instruction ixs)) ?c2"
  let ?c4 = "advance (length (encode_array encode_lookup lks)) ?c3"
  have len6: "length (encode_header h) = 6" by (simp add: encode_header_def)
  have lenk: "length (encode_array as_array keys) = length keys * 32"
    by (simp add: addr.length_encode_array)
  have r1: "rest ?c1 = encode_array as_array keys @ encode_array encode_instruction ixs @
      encode_array encode_lookup lks"
    using len6 by (simp add: rest_advance_drop encode_message_def)
  have r2: "rest ?c2 = encode_array encode_instruction ixs @ encode_array encode_lookup lks"
    using r1 lenk by (rule rest_advance [OF _ sym])
  have r3: "rest ?c3 = encode_array encode_lookup lks"
    using r2 by (rule rest_advance) simp
  have r4: "rest ?c4 = []"
    using r3 rest_advance [of ?c3 "encode_array encode_lookup lks" "[]"] by simp
  have "read_header (cursor_new ?blob) = Inr (h, ?c1)"
    using r1 by (simp add: read_header_Inr encode_message_def)
  moreover have "cursor_take (unat (num_account_keys h) * 32) ?c1
      = Inr (encode_array as_array keys, ?c2)"
    using assms r1 r2 lenk by (simp add: cursor_take_Inr message_ok_def)
  moreover have "skip_instructions (unat (num_instructions h)) ?c2 = Inr ?c3"
    using assms r2 r3 unfolding skip_instructions_Inr ixs.read_many_Inr message_ok_def by auto
  moreover have "skip_lookups (unat (num_lookups h)) ?c3 0 0
      = Inr (?c4, lookup_keys lks, writable_lookup_keys lks)"
    using assms r3 r4 unfolding skip_lookups_Inr lks.read_many_Inr message_ok_def
    by (intro exI [of _ lks]) simp
  moreover have "cursor_remaining ?c4 = 0" using r4 by (simp flip: length_rest)
  moreover have "decode_array 32 new_from_array (unat (num_account_keys h))
      (encode_array as_array keys) = keys"
    using assms addr.decode_encode_array [of keys _ "[]"] by (simp add: message_ok_def)
  moreover have "slice (cur_pos ?c2) (cur_pos ?c3 - cur_pos ?c2) ?blob
      = encode_array encode_instruction ixs"
    using slice_advance [of ?c2 "encode_array encode_instruction ixs" ?c3] r2 r3 by simp
  moreover have "slice (cur_pos ?c3) (cur_pos ?c4 - cur_pos ?c3) ?blob
      = encode_array encode_lookup lks"
    using slice_advance [of ?c3 "encode_array encode_lookup lks" ?c4] r3 r4 by simp
  moreover have "for_instructions (\<lambda>ix _. check_instruction (length keys + lookup_keys lks) ix)
      (cursor_new (encode_array encode_instruction ixs)) () = Inr ()"
  proof -
    have "\<forall>ix \<in> set ixs. check_instruction (length keys + lookup_keys lks) ix = Inr ()"
      using assms unfolding message_ok_def check_instruction_Inr by blast
    moreover have "list_all instruction_fits ixs" using assms by (simp add: message_ok_def)
    ultimately show ?thesis by (simp add: ixs.loop_new fold_result_unit)
  qed
  moreover have "unat (num_account_keys h) = length keys" using assms by (simp add: message_ok_def)
  ultimately show ?thesis
    using assms
    by (simp add: parse_def Let_def message_of_def message_ok_def not_less not_le
        del: advance_simps)
qed

lemma parse_decode:
  assumes "parse blob = Inr m"
  obtains h keys ixs lks where "blob = encode_message h keys ixs lks" "message_ok h keys ixs lks"
    "m = message_of h keys ixs lks"
proof -
  obtain h c1 keys_bytes c2 c3 c4 k w where
      c1: "read_header (cursor_new blob) = Inr (h, c1)"
    and priv: "\<not> unat (num_account_keys h) < unat (num_signers h)"
      "\<not> num_signers h < num_writable_signers h"
      "\<not> unat (num_account_keys h) - unat (num_signers h) < unat (num_writable_non_signers h)"
    and c2: "cursor_take (unat (num_account_keys h) * 32) c1 = Inr (keys_bytes, c2)"
    and c3: "skip_instructions (unat (num_instructions h)) c2 = Inr c3"
    and c4: "skip_lookups (unat (num_lookups h)) c3 0 0 = Inr (c4, k, w)"
    and fin: "cursor_remaining c4 = 0"
    and chk: "for_instructions (\<lambda>ix _. check_instruction (unat (num_account_keys h) + k) ix)
        (cursor_new (slice (cur_pos c2) (cur_pos c3 - cur_pos c2) blob)) () = Inr ()"
    using assms unfolding parse_def Let_def and_then_Inr split_paired_Ex prod.case if_fail_eq_Inr
      de_Morgan_disj not_not unit_eq
    by (elim exE conjE) (rule that)
  obtain ixs where ixs: "read_many read_instruction (unat (num_instructions h)) c2 = Inr (ixs, c3)"
    using c3 by (auto simp: skip_instructions_Inr)
  obtain lks where lks: "read_many read_lookup (unat (num_lookups h)) c3 = Inr (lks, c4)"
    and k: "k = lookup_keys lks"
    using c4 by (auto simp: skip_lookups_Inr)
  have r1: "blob = encode_header h @ rest c1" and a1: "c1 = advance 6 (cursor_new blob)"
    using c1 unfolding read_header_Inr cursor_new_simps by blast+
  have r2: "rest c1 = keys_bytes @ rest c2" "length keys_bytes = unat (num_account_keys h) * 32"
    and a2: "c2 = advance (unat (num_account_keys h) * 32) c1"
    using c2 unfolding cursor_take_Inr by blast+
  have r3: "rest c2 = encode_array encode_instruction ixs @ rest c3"
    and a3: "c3 = advance (length (encode_array encode_instruction ixs)) c2"
    and ok3: "length ixs = unat (num_instructions h)" "list_all instruction_fits ixs"
    using ixs unfolding ixs.read_many_Inr by blast+
  have r4: "rest c3 = encode_array encode_lookup lks @ rest c4"
    and ok4: "length lks = unat (num_lookups h)" "list_all lookup_fits lks"
    using lks unfolding lks.read_many_Inr by blast+
  have r5: "rest c4 = []" using fin by (simp flip: length_rest)
  define keys where "keys = decode_array 32 new_from_array (unat (num_account_keys h)) keys_bytes"
  have keys: "encode_array as_array keys = keys_bytes" "length keys = unat (num_account_keys h)"
    using r2(2) by (simp_all add: keys_def addr.encode_decode_array mult.commute)
  have blob: "blob = encode_message h keys ixs lks"
    using r1 r2(1) r3 r4 r5 keys(1) by (simp add: encode_message_def)
  have "cur_data c2 = blob" by (simp add: a1 a2)
  then have "slice (cur_pos c2) (cur_pos c3 - cur_pos c2) blob = encode_array encode_instruction ixs"
    using slice_advance [OF r3 a3] by simp
  then have "\<forall>ix \<in> set ixs. check_instruction (length keys + lookup_keys lks) ix = Inr ()"
    using chk ok3(2) keys(2) k by (simp add: ixs.loop_new fold_result_unit)
  then have ok: "message_ok h keys ixs lks"
    using priv ok3 ok4 keys(2) by (simp add: message_ok_def check_instruction_Inr not_less)
  moreover from parse_encode [OF ok] assms blob have "m = message_of h keys ixs lks" by simp
  ultimately show thesis using blob that by blast
qed

lemma parse_iff:
  "parse blob = Inr m \<longleftrightarrow>
     (\<exists>h keys ixs lks. blob = encode_message h keys ixs lks \<and> message_ok h keys ixs lks \<and>
        m = message_of h keys ixs lks)"
  by (metis parse_decode parse_encode)

lemma read_instruction_no_panic [simp]: "\<not> panics (read_instruction c)"
  by (simp add: read_instruction_def case_prod_unfold cursor_no_panic)

lemma read_lookup_no_panic [simp]: "\<not> panics (read_lookup c)"
  by (simp add: read_lookup_def case_prod_unfold cursor_no_panic)

lemma for_instructions_no_panic:
  assumes "\<And>x s. \<not> panics (body x s)"
  shows "\<not> panics (for_instructions body c s)"
  using assms
proof (induction body c s rule: for_instructions.induct)
  case (1 body c s)
  then show ?case by (subst for_instructions.simps) auto
qed

lemma for_lookups_no_panic:
  assumes "list_all lookup_fits lks" "\<not> panics (fold_result body lks s)"
  shows "\<not> panics (for_lookups body (cursor_new (encode_array encode_lookup lks)) s)"
  using assms by (simp add: lks.loop_new)

lemma skip_instructions_no_panic [simp]: "\<not> panics (skip_instructions n c)"
  by (induction n arbitrary: c) (auto simp: case_prod_unfold)

lemma skip_lookups_no_panic [simp]: "\<not> panics (skip_lookups n c k w)"
  by (induction n arbitrary: c k w) (auto simp: case_prod_unfold)

lemma check_indexes_no_panic [simp]: "\<not> panics (check_indexes n is)"
  by (induction "is") auto

lemma check_instruction_no_panic [simp]: "\<not> panics (check_instruction n ix)"
  by (simp add: check_instruction_def)

text \<open>The parser never panics, whatever bytes it is given.\<close>

lemma parse_no_panic [simp]: "\<not> panics (parse blob)"
proof -
  have "\<not> panics (for_instructions (\<lambda>ix _. check_instruction n ix) c ())" for n c
    by (rule for_instructions_no_panic) simp
  then show ?thesis by (simp add: parse_def Let_def read_header_def case_prod_unfold)
qed

section \<open>Properties\<close>

text \<open>C22: the parser accepts a byte string exactly when it is the layout of a valid message: counts
  and length prefixes that agree with the content, privilege groups that fit the static keys, indexes
  that name a key, and no byte left over. What it returns are that message's parts.\<close>

theorem parse_accepts_exactly:
  "parse blob = Inr m \<longleftrightarrow>
     (\<exists>h keys ixs lks. blob = encode_message h keys ixs lks \<and> message_ok h keys ixs lks \<and>
        m = message_of h keys ixs lks)"
  by (rule parse_iff)

lemma message_groups:
  assumes "message_ok h keys ixs lks"
  shows "length keys = unat (num_account_keys h)" "unat (num_signers h) \<le> length keys"
    "unat (num_writable_signers h) \<le> unat (num_signers h)"
    "unat (num_writable_non_signers h) \<le> length keys - unat (num_signers h)"
  using assms unfolding message_ok_def word_le_nat_alt by blast+

lemma writable_lookup_keys_le: "writable_lookup_keys lks \<le> lookup_keys lks"
  unfolding lookup_keys_def writable_lookup_keys_def by (rule sum_list_mono) simp

lemma message_is_writable_iff:
  assumes "message_ok h keys ixs lks"
  shows "message_is_writable (message_of h keys ixs lks) i \<longleftrightarrow>
      i < unat (num_writable_signers h) \<or>
      unat (num_signers h) \<le> i \<and> i < unat (num_signers h) + unat (num_writable_non_signers h) \<or>
      length keys \<le> i \<and> i < length keys + writable_lookup_keys lks"
proof -
  note l = message_groups [OF assms]
  have "message_is_writable (message_of h keys ixs lks) i \<longleftrightarrow>
     (if length keys \<le> i then i - length keys < writable_lookup_keys lks
      else if i < unat (num_writable_signers h) then True
      else if i < unat (num_signers h) then False
      else i - unat (num_signers h) < unat (num_writable_non_signers h))"
    by (simp add: message_is_writable_def message_of_def l(1))
  also have "\<dots> \<longleftrightarrow> i < unat (num_writable_signers h) \<or>
      unat (num_signers h) \<le> i \<and> i < unat (num_signers h) + unat (num_writable_non_signers h) \<or>
      length keys \<le> i \<and> i < length keys + writable_lookup_keys lks"
    using l(2-4) by presburger
  finally show ?thesis .
qed

lemma encode_message_inj:
  assumes ok: "message_ok h keys ixs lks" "message_ok h' keys' ixs' lks'"
    and eq: "encode_message h keys ixs lks = encode_message h' keys' ixs' lks'"
  shows "h' = h \<and> keys' = keys \<and> ixs' = ixs"
proof -
  have m: "message_of h' keys' ixs' lks' = message_of h keys ixs lks"
    using parse_encode [OF ok(1)] parse_encode [OF ok(2)] unfolding eq by simp
  then have h: "h' = h" "keys' = keys" by (simp_all add: message_of_def)
  have "length ixs' = length ixs" "list_all instruction_fits ixs" "list_all instruction_fits ixs'"
    using ok unfolding h message_ok_def by (simp_all add: list_all_iff)
  moreover have "encode_array encode_instruction ixs' @ [] = encode_array encode_instruction ixs @ []"
    using m by (simp add: message_of_def)
  ultimately have "ixs' = ixs" using ixs.encode_many_unique by blast
  with h show ?thesis by simp
qed

lemma writable_set:
  assumes "message_ok h keys ixs lks"
  shows "{i. i < length keys + lookup_keys lks \<and> message_is_writable (message_of h keys ixs lks) i}
       = {..<unat (num_writable_signers h)} \<union>
         {unat (num_signers h)..<unat (num_signers h) + unat (num_writable_non_signers h)} \<union>
         {length keys..<length keys + writable_lookup_keys lks}"
  using message_groups(2-4) [OF assms] writable_lookup_keys_le [of lks]
  unfolding message_is_writable_iff [OF assms] by auto

text \<open>The keys of a parsed message that may be written are the writable signers, the writable
  others and the writable lookup keys, these groups do not overlap, and the numbers of signers and of
  writable keys are the ones the header and the lookups announce.\<close>

lemma message_privileges:
  assumes "message_ok h keys ixs lks"
  defines "n \<equiv> length keys + lookup_keys lks" and "m \<equiv> message_of h keys ixs lks"
  shows "{i. i < n \<and> message_is_writable m i}
       = {..<unat (num_writable_signers h)} \<union>
         {unat (num_signers h)..<unat (num_signers h) + unat (num_writable_non_signers h)} \<union>
         {length keys..<length keys + writable_lookup_keys lks} \<and>
     card {i. i < n \<and> message_is_writable m i}
       = unat (num_writable_signers h) + unat (num_writable_non_signers h) + writable_lookup_keys lks \<and>
     card {i. i < n \<and> message_is_signer m i} = unat (num_signers h)"
proof -
  note w = writable_set [OF assms(1), folded n_def m_def]
  have l: "unat (num_signers h) \<le> length keys" "unat (num_writable_signers h) \<le> unat (num_signers h)"
    "unat (num_writable_non_signers h) \<le> length keys - unat (num_signers h)"
    using message_groups [OF assms(1)] by simp_all
  let ?a = "{..<unat (num_writable_signers h)}"
    and ?b = "{unat (num_signers h)..<unat (num_signers h) + unat (num_writable_non_signers h)}"
    and ?c = "{length keys..<length keys + writable_lookup_keys lks}"
  have "card (?a \<union> ?b) = card ?a + card ?b" using l by (intro card_Un_disjoint) auto
  moreover have "card (?a \<union> ?b \<union> ?c) = card (?a \<union> ?b) + card ?c" using l by (intro card_Un_disjoint) auto
  moreover have "{i. i < n \<and> message_is_signer m i} = {..<unat (num_signers h)}"
    using l by (auto simp: n_def m_def message_is_signer_def message_of_def)
  ultimately show ?thesis using w by simp
qed

end
