(* ===== verification/Buffer_State.thy ===== *)
theory Buffer_State
  imports Transaction_State
begin

text \<open>The upload buffer account of src/state/buffer.rs: a 112-byte header and the message region.\<close>

record buffer =
  buf_multisig :: address
  buf_creator :: address
  buf_final_hash :: address
  buf_final_size :: u32
  buf_written :: u32
  buf_buffer_index :: u8
  buf_vault_index :: u8
  buf_bump :: u8
  buf_pad :: "40 word"

definition BUF_LEN :: nat where "BUF_LEN = 112"

definition buf_encode :: "buffer \<Rightarrow> bytes" where
  "buf_encode h =
     as_array (buf_multisig h) @ as_array (buf_creator h) @ as_array (buf_final_hash h) @
     to_le_bytes 4 (buf_final_size h) @ to_le_bytes 4 (buf_written h) @
     to_le_bytes 1 (buf_buffer_index h) @ to_le_bytes 1 (buf_vault_index h) @
     to_le_bytes 1 (buf_bump h) @ to_le_bytes 5 (buf_pad h)"

definition buf_decode :: "bytes \<Rightarrow> buffer" where
  "buf_decode bs =
     \<lparr>buf_multisig = new_from_array (slice 0 32 bs),
      buf_creator = new_from_array (slice 32 32 bs),
      buf_final_hash = new_from_array (slice 64 32 bs),
      buf_final_size = from_le_bytes (slice 96 4 bs),
      buf_written = from_le_bytes (slice 100 4 bs),
      buf_buffer_index = from_le_bytes (slice 104 1 bs),
      buf_vault_index = from_le_bytes (slice 105 1 bs),
      buf_bump = from_le_bytes (slice 106 1 bs),
      buf_pad = from_le_bytes (slice 107 5 bs)\<rparr>"

lemma length_buf_encode [simp]: "length (buf_encode h) = 112"
  by (simp add: buf_encode_def)

lemma buf_decode_encode: "buf_decode (buf_encode h) = h"
  by (simp add: buf_decode_def buf_encode_def from_to_le_bytes)

lemma buf_encode_decode: "length bs = 112 \<Longrightarrow> buf_encode (buf_decode bs) = bs"
  by (simp add: buf_decode_def buf_encode_def to_from_le_bytes as_array_new_from_array slice_join)

section \<open>Reading the account\<close>

definition buf_space :: "nat \<Rightarrow> nat" where
  "buf_space final_size = BUF_LEN + final_size"

definition buf_load :: "nat \<Rightarrow> bytes \<Rightarrow> (buffer \<times> bytes) result" where
  "buf_load ptr d =
     (if length d < BUF_LEN \<or> ptr mod 4 \<noteq> 0 then fail InvalidAccountData
      else let header = buf_decode (take BUF_LEN d); region = drop BUF_LEN d in
        if unat (buf_final_size header) \<noteq> length region then fail InvalidAccountData
        else Inr (header, region))"

definition buf_load_mut :: "nat \<Rightarrow> bytes \<Rightarrow> (buffer \<times> bytes) result" where
  "buf_load_mut ptr d =
     (if length d < BUF_LEN \<or> ptr mod 4 \<noteq> 0 then fail InvalidAccountData
      else let header = buf_decode (take BUF_LEN d); region = drop BUF_LEN d in
        if unat (buf_final_size header) \<noteq> length region then fail InvalidAccountData
        else Inr (header, region))"

definition buf_split_uninitialized :: "nat \<Rightarrow> bytes \<Rightarrow> (buffer \<times> bytes) result" where
  "buf_split_uninitialized ptr d =
     (if length d < BUF_LEN \<or> ptr mod 4 \<noteq> 0 then fail InvalidAccountData
      else Inr (buf_decode (take BUF_LEN d), drop BUF_LEN d))"

definition buf_bytes :: "buffer \<Rightarrow> bytes \<Rightarrow> bytes" where
  "buf_bytes h region = buf_encode h @ region"

interpretation bufl: account_layout buf_encode buf_decode 112 4 "\<lambda>h. unat (buf_final_size h)"
  buf_load buf_split_uninitialized
  by unfold_locales
     (auto simp: buf_decode_encode buf_encode_decode buf_load_def
        buf_split_uninitialized_def BUF_LEN_def Let_def)

lemma buf_load_mut_eq: "buf_load_mut ptr d = buf_load ptr d"
  by (simp add: buf_load_mut_def buf_load_def)

lemma buf_load_Inr:
  "buf_load ptr d = Inr (h, region) \<longleftrightarrow>
     4 dvd ptr \<and> d = buf_bytes h region \<and> length region = unat (buf_final_size h)"
  by (simp add: bufl.parts_Inr buf_bytes_def)

lemma buf_load_no_panic [simp]: "\<not> panics (buf_load ptr d)"
  by (rule bufl.parts_no_panic)

definition is_complete :: "buffer \<Rightarrow> bool" where
  "is_complete h \<longleftrightarrow> buf_written h = buf_final_size h"

definition buf_invariant :: "buffer \<Rightarrow> unit result" where
  "buf_invariant h =
     (if MAX_MESSAGE_SIZE < unat (buf_final_size h) \<or> buf_final_size h < buf_written h
      then fail InvalidMessage else Inr ())"

lemma buf_invariant_iff:
  "buf_invariant h = Inr u \<longleftrightarrow>
     unat (buf_final_size h) \<le> MAX_MESSAGE_SIZE \<and> buf_written h \<le> buf_final_size h"
  by (auto simp: buf_invariant_def not_less)

lemma buf_invariant_no_panic [simp]: "\<not> panics (buf_invariant h)"
  by (simp add: buf_invariant_def)

end
