(* ===== verification/Buffer_Ops.thy ===== *)
theory Buffer_Ops
  imports Buffer_State
begin

text \<open>
  Instructions 7, 8 and 9, src/instruction/buffer.rs: the chunked upload of a message. A buffer is
  filled front to back, never past the length it committed to; \<open>uploaded\<close> is the part of the
  message that has arrived.
\<close>

record buffer_create_data =
  bc_final_hash :: address
  bc_final_size :: u32
  bc_buffer_index :: u8
  bc_vault_index :: u8
  bc_bump :: u8
  bc_pad :: u8

definition BUFFER_CREATE_LEN :: nat where "BUFFER_CREATE_LEN = 40"

definition buffer_create_data_of :: "bytes \<Rightarrow> buffer_create_data" where
  "buffer_create_data_of bs =
     \<lparr>bc_final_hash = new_from_array (slice 0 32 bs), bc_final_size = from_le_bytes (slice 32 4 bs),
      bc_buffer_index = bs ! 36, bc_vault_index = bs ! 37, bc_bump = bs ! 38, bc_pad = bs ! 39\<rparr>"

definition check_may_upload :: "view \<Rightarrow> view \<Rightarrow> store \<Rightarrow> unit result" where
  "check_may_upload creator multisig s =
     and_then (ms_load (ptr_of s multisig) (data_of s multisig)) (\<lambda>(_, owners, permissions).
     if is_owner owners (v_address creator) = None then fail NotAnOwner
     else and_then (has_permission owners permissions (v_address creator) INITIATE) (\<lambda>permitted.
       if \<not> permitted then fail Unauthorized else Inr ()))"

definition process_buffer_create ::
  "runtime \<Rightarrow> address \<Rightarrow> view list \<Rightarrow> bytes \<Rightarrow> store \<Rightarrow> store result" where
  "process_buffer_create rt program_id accounts instruction s =
     (case accounts of
        creator # multisig # buffer # system_program_view # remaining \<Rightarrow>
          and_then (check_signer creator MissingSignature) (\<lambda>_.
          and_then (validate_eq (v_address system_program_view) system_program InvalidProgramId) (\<lambda>_.
          and_then (check_owner s multisig program_id IllegalOwner) (\<lambda>_.
          if data_of s buffer \<noteq> [] \<or> lamports (account_of s buffer) \<noteq> 0
          then fail AlreadyInitialized
          else if length instruction < BUFFER_CREATE_LEN then fail InvalidInstructionData
          else
            let data = buffer_create_data_of instruction;
                chunk = drop BUFFER_CREATE_LEN instruction;
                final_size = unat (bc_final_size data) in
            if MAX_MESSAGE_SIZE < final_size \<or> final_size < length chunk then fail InvalidMessage
            else
              and_then (check_may_upload creator multisig s) (\<lambda>_.
              let seeds = [BUFFER_SEED, as_array (v_address multisig), as_array (v_address creator),
                           [bc_buffer_index data], [bc_bump data]];
                  space = buf_space final_size in
              and_then (rt_rent rt) (\<lambda>minimum_balance.
              and_then (rt_create_account rt creator buffer (of_nat space) (minimum_balance space)
                  program_id seeds s) (\<lambda>s.
              and_then (buf_split_uninitialized (ptr_of s buffer) (data_of s buffer))
                (\<lambda>(state, region).
              let state = state\<lparr>buf_multisig := v_address multisig,
                    buf_creator := v_address creator,
                    buf_final_hash := bc_final_hash data,
                    buf_final_size := bc_final_size data,
                    buf_written := of_nat (length chunk),
                    buf_buffer_index := bc_buffer_index data,
                    buf_vault_index := bc_vault_index data,
                    buf_bump := bc_bump data,
                    buf_pad := 0\<rparr> in
              and_then (write_range 0 (length chunk) chunk region) (\<lambda>region.
              let s = set_data buffer (buf_bytes state region) s in
              and_then (buf_invariant state) (\<lambda>_. Inr s)))))))))
      | _ \<Rightarrow> fail NotEnoughAccounts)"

text \<open>\<open>usize::checked_add\<close> cannot fail on the two lengths here: the target's \<open>usize\<close> has 64 bits.\<close>

definition process_buffer_extend ::
  "runtime \<Rightarrow> address \<Rightarrow> view list \<Rightarrow> bytes \<Rightarrow> store \<Rightarrow> store result" where
  "process_buffer_extend rt program_id accounts instruction s =
     (case accounts of
        creator # buffer # remaining \<Rightarrow>
          and_then (check_signer creator MissingSignature) (\<lambda>_.
          and_then (check_owner s buffer program_id IllegalOwner) (\<lambda>_.
          if instruction = [] then fail InvalidInstructionData
          else
            and_then (buf_load_mut (ptr_of s buffer) (data_of s buffer)) (\<lambda>(state, region).
            and_then (validate_eq (buf_creator state) (v_address creator) InvalidAccount) (\<lambda>_.
            let written = unat (buf_written state) in
            and_then (if written + length instruction < 2 ^ 64
                      then Inr (written + length instruction) else fail Overflow) (\<lambda>stop.
            if unat (buf_final_size state) < stop then fail InvalidMessage
            else
              and_then (write_range written stop instruction region) (\<lambda>region.
              let state = state\<lparr>buf_written := of_nat stop\<rparr>;
                  s = set_data buffer (buf_bytes state region) s in
              and_then (buf_invariant state) (\<lambda>_. Inr s)))))))
      | _ \<Rightarrow> fail NotEnoughAccounts)"

text \<open>\<open>close_buffer\<close>, shared with \<open>create_from_buffer\<close>.\<close>

definition close_buffer :: "runtime \<Rightarrow> view \<Rightarrow> view \<Rightarrow> store \<Rightarrow> store result" where
  "close_buffer rt buffer destination s =
     (let refund = lamports (account_of s buffer) in
      and_then (ok_or Overflow (checked_add (lamports (account_of s destination)) refund)) (\<lambda>credited.
      let s = set_lamports destination credited s;
          s = set_lamports buffer 0 s in
      rt_close rt buffer s))"

definition process_buffer_close ::
  "runtime \<Rightarrow> address \<Rightarrow> view list \<Rightarrow> bytes \<Rightarrow> store \<Rightarrow> store result" where
  "process_buffer_close rt program_id accounts instruction s =
     (case accounts of
        creator # buffer # remaining \<Rightarrow>
          if instruction \<noteq> [] then fail InvalidInstructionData
          else
            and_then (check_signer creator MissingSignature) (\<lambda>_.
            and_then (check_owner s buffer program_id IllegalOwner) (\<lambda>_.
            and_then (buf_load (ptr_of s buffer) (data_of s buffer)) (\<lambda>(state, _).
            and_then (validate_eq (buf_creator state) (v_address creator) InvalidAccount) (\<lambda>_.
            close_buffer rt buffer creator s))))
      | _ \<Rightarrow> fail NotEnoughAccounts)"

section \<open>What has been uploaded\<close>

definition uploaded :: "buffer \<Rightarrow> bytes \<Rightarrow> bytes" where
  "uploaded h region = take (unat (buf_written h)) region"

definition buf_wf :: "buffer \<Rightarrow> bytes \<Rightarrow> bool" where
  "buf_wf h region \<longleftrightarrow>
     buf_invariant h = Inr () \<and> length region = unat (buf_final_size h) \<and>
     (\<forall>b \<in> set (drop (unat (buf_written h)) region). b = 0)"

lemma unat_of_nat_small: "n \<le> MAX_MESSAGE_SIZE \<Longrightarrow> unat (of_nat n :: u32) = n"
  by (simp add: MAX_MESSAGE_SIZE_def unat_of_nat)

lemma check_may_upload_Inr:
  "check_may_upload creator multisig s = Inr () \<longleftrightarrow>
     (\<exists>h os ps i. ms_load (ptr_of s multisig) (data_of s multisig) = Inr (h, os, ps) \<and>
        is_owner os (v_address creator) = Some i \<and> (ps ! i = 0 \<or> ps ! i AND INITIATE \<noteq> 0))"
proof -
  have "is_owner os (v_address creator) \<noteq> None \<and>
        has_permission os ps (v_address creator) INITIATE = Inr True \<longleftrightarrow>
      (\<exists>i. is_owner os (v_address creator) = Some i \<and> (ps ! i = 0 \<or> ps ! i AND INITIATE \<noteq> 0))"
    if "ms_load (ptr_of s multisig) (data_of s multisig) = Inr (h, os, ps)" for h os ps
    using loaded_owner [OF that] by (auto simp: has_permission_True)
  then show ?thesis
    unfolding check_may_upload_def handler_steps by fastforce
qed

lemma first_chunk:
  assumes "buf_invariant h = Inr ()" "buf_written h = of_nat (length c)"
    and "length c \<le> length region" "length region = unat (buf_final_size h)" "set region \<subseteq> {0}"
  shows "buf_wf h (c @ drop (length c) region)" "uploaded h (c @ drop (length c) region) = c"
proof -
  have "length c \<le> MAX_MESSAGE_SIZE" using assms by (simp add: buf_invariant_iff)
  then have "unat (buf_written h) = length c" using assms(2) by (simp add: unat_of_nat_small)
  then show "buf_wf h (c @ drop (length c) region)" "uploaded h (c @ drop (length c) region) = c"
    using assms by (auto simp: buf_wf_def uploaded_def dest: in_set_dropD)
qed

text \<open>A buffer that \<open>buffer_create\<close> opens belongs to an owner allowed to initiate, lives at
  the address its seeds derive, commits to the hash and length of the payload, holds exactly the
  first chunk, and has room for exactly the message promised.\<close>

lemma buffer_create_effect:
  assumes spec: "create_account_spec pid rt"
    and run: "process_buffer_create rt pid (creator # multisig # buffer # sp # remaining) instr s = Inr s'"
  shows "\<exists>b region. let data = buffer_create_data_of instr in
     v_signer creator \<and> check_may_upload creator multisig s = Inr () \<and>
     data_of s' buffer = buf_bytes b region \<and> acc_owner (account_of s' buffer) = pid \<and>
     buf_wf b region \<and> uploaded b region = drop BUFFER_CREATE_LEN instr \<and>
     buf_multisig b = v_address multisig \<and> buf_creator b = v_address creator \<and>
     buf_final_hash b = bc_final_hash data \<and> buf_final_size b = bc_final_size data \<and>
     (v_signer buffer \<or> rt_pda rt [BUFFER_SEED, as_array (v_address multisig),
        as_array (v_address creator), [buf_buffer_index b], [buf_bump b]] pid
        = Some (v_address buffer))"
proof -
  let ?d = "buffer_create_data_of instr" and ?chunk = "drop BUFFER_CREATE_LEN instr"
  let ?n = "unat (bc_final_size ?d)"
  let ?new = "\<lambda>h :: buffer. h\<lparr>buf_multisig := v_address multisig, buf_creator := v_address creator,
      buf_final_hash := bc_final_hash ?d, buf_final_size := bc_final_size ?d,
      buf_written := of_nat (length ?chunk), buf_buffer_index := bc_buffer_index ?d,
      buf_vault_index := bc_vault_index ?d, buf_bump := bc_bump ?d, buf_pad := 0\<rparr>"
  from run obtain minimum_balance s1 state region r where
      sig: "v_signer creator"
    and lim: "?n \<le> MAX_MESSAGE_SIZE" "length ?chunk \<le> ?n"
    and may: "check_may_upload creator multisig s = Inr ()"
    and "rt_rent rt = Inr minimum_balance"
    and create: "rt_create_account rt creator buffer (of_nat (buf_space ?n))
          (minimum_balance (buf_space ?n)) pid [BUFFER_SEED, as_array (v_address multisig),
          as_array (v_address creator), [bc_buffer_index ?d], [bc_bump ?d]] s = Inr s1"
    and split: "buf_split_uninitialized (ptr_of s1 buffer) (data_of s1 buffer) = Inr (state, region)"
    and r: "write_range 0 (length ?chunk) ?chunk region = Inr r"
    and inv: "buf_invariant (?new state) = Inr ()"
    and s': "set_data buffer (buf_bytes (?new state) r) s1 = s'"
    unfolding process_buffer_create_def list.case handler_steps unit_eq
    by (elim exE conjE) (rule that)
  have space: "unat (of_nat (buf_space ?n) :: u64) = buf_space ?n"
    using lim by (intro unat_space) (simp add: buf_space_def BUF_LEN_def MAX_MESSAGE_SIZE_def)
  then have nz: "(of_nat (buf_space ?n) :: u64) \<noteq> 0"
    by (metis add_is_0 unat_0 zero_neq_numeral buf_space_def BUF_LEN_def)
  note effect = create_account_effect [OF spec create nz]
  have d: "replicate (buf_space ?n) 0 = buf_encode state @ region"
    using split effect(4) space by (simp add: bufl.uninit_Inr)
  then have len: "length region = ?n"
    by (metis add_left_cancel buf_space_def BUF_LEN_def length_append length_buf_encode length_replicate)
  have zero: "set region \<subseteq> {0}"
    using arg_cong [OF d, of set] by (auto split: if_splits)
  have rr: "r = ?chunk @ drop (length ?chunk) region"
    using r by (simp add: write_range_Inr)
  have "buf_wf (?new state) r" "uploaded (?new state) r = ?chunk"
    unfolding rr using inv len lim(2) zero by (intro first_chunk; simp)+
  moreover have "data_of s' buffer = buf_bytes (?new state) r"
    "acc_owner (account_of s' buffer) = pid"
    using effect(4) by (simp_all add: s' [symmetric])
  ultimately show ?thesis
    unfolding Let_def using sig may effect(2)
    by (intro exI [of _ "?new state"] exI [of _ r]) simp
qed

text \<open>Extending a buffer appends the chunk to what was uploaded, never past the committed
  length, keeps the hash, length, creator and multisig it promised, and keeps the buffer well
  formed; only its creator, signing, can do it.\<close>

lemma buffer_extend_effect:
  assumes run: "process_buffer_extend rt pid (creator # buffer # remaining) instr s = Inr s'"
    and load: "buf_load (ptr_of s buffer) (data_of s buffer) = Inr (b, region)"
    and wf: "buf_wf b region"
  shows "\<exists>b' region'. v_signer creator \<and> v_address creator = buf_creator b \<and>
     acc_owner (account_of s buffer) = pid \<and>
     s' = set_data buffer (buf_bytes b' region') s \<and>
     buf_load (ptr_of s' buffer) (data_of s' buffer) = Inr (b', region') \<and>
     buf_wf b' region' \<and> uploaded b' region' = uploaded b region @ instr \<and>
     b' = b\<lparr>buf_written := buf_written b'\<rparr> \<and>
     unat (buf_written b') = unat (buf_written b) + length instr \<and>
     unat (buf_written b') \<le> unat (buf_final_size b)"
proof -
  let ?last = "unat (buf_written b) + length instr"
  define stop where "stop = ?last"
  from run obtain r where
      sig: "v_signer creator" "buf_creator b = v_address creator" "acc_owner (account_of s buffer) = pid"
    and "?last \<le> unat (buf_final_size b)" "write_range (unat (buf_written b)) ?last instr region = Inr r"
      "buf_invariant (b\<lparr>buf_written := of_nat ?last\<rparr>) = Inr ()"
      "s' = set_data buffer (buf_bytes (b\<lparr>buf_written := of_nat ?last\<rparr>) r) s"
    unfolding process_buffer_extend_def list.case handler_steps buf_load_mut_eq load
    by auto
  then have lim: "stop \<le> unat (buf_final_size b)"
    and r: "write_range (unat (buf_written b)) stop instr region = Inr r"
    and inv: "buf_invariant (b\<lparr>buf_written := of_nat stop\<rparr>) = Inr ()"
    and s': "s' = set_data buffer (buf_bytes (b\<lparr>buf_written := of_nat stop\<rparr>) r) s"
    unfolding stop_def by blast+
  let ?b = "b\<lparr>buf_written := of_nat stop\<rparr>"
  have d: "length region = unat (buf_final_size b)" "4 dvd ptr_of s buffer"
    using load by (simp_all add: buf_load_Inr)
  have "unat (buf_final_size b) \<le> MAX_MESSAGE_SIZE" using wf by (simp add: buf_wf_def buf_invariant_iff)
  with lim have w: "unat (of_nat stop :: u32) = stop" by (intro unat_of_nat_small) simp
  have rr: "r = take (unat (buf_written b)) region @ instr @ drop stop region"
    and le: "stop \<le> length region"
    using r by (simp_all add: write_range_Inr)
  have sd: "unat (buf_written b) \<le> stop" "stop - unat (buf_written b) = length instr"
    "unat (buf_written b) \<le> length region"
    using le by (simp_all add: stop_def)
  have len: "length r = length region" using le sd by (simp add: rr)
  have "uploaded ?b r = uploaded b region @ instr" using le sd by (simp add: uploaded_def w rr)
  moreover have "\<forall>x \<in> set (drop stop r). x = 0"
  proof -
    have "drop stop r = drop stop region" using le sd by (simp add: rr)
    also have "\<dots> = drop (length instr) (drop (unat (buf_written b)) region)"
      by (simp add: stop_def add.commute)
    finally show ?thesis using wf by (metis buf_wf_def in_set_dropD)
  qed
  then have "buf_wf ?b r" using inv d len by (simp add: buf_wf_def w)
  moreover have "buf_load (ptr_of s' buffer) (data_of s' buffer) = Inr (?b, r)"
    using d len by (simp add: s' buf_load_Inr)
  ultimately show ?thesis
    using sig lim s' w stop_def by (intro exI [of _ ?b] exI [of _ r]) simp
qed

lemma close_buffer_effect:
  assumes "close_spec rt" "close_buffer rt buffer destination s = Inr s'"
    and "v_address buffer \<noteq> v_address destination"
  shows "unat (lamports (account_of s' destination))
       = unat (lamports (account_of s destination)) + unat (lamports (account_of s buffer))"
    and "lamports (account_of s' buffer) = 0" "data_of s' buffer = []"
    and "acc_owner (account_of s' buffer) = system_program"
    and "a \<noteq> v_address buffer \<Longrightarrow> acc_data (s' a) = acc_data (s a) \<and> acc_owner (s' a) = acc_owner (s a)"
    and "a \<noteq> v_address buffer \<Longrightarrow> a \<noteq> v_address destination \<Longrightarrow> s' a = s a"
proof -
  from assms(2) obtain credited where
      c: "checked_add (lamports (account_of s destination)) (lamports (account_of s buffer)) = Some credited"
    and cl: "rt_close rt buffer (set_lamports buffer 0 (set_lamports destination credited s)) = Inr s'"
    by (auto simp: close_buffer_def Let_def and_then_Inr ok_or_Inr)
  let ?s = "set_lamports buffer 0 (set_lamports destination credited s)"
  have s': "s' = ?s(v_address buffer := (account_of ?s buffer)\<lparr>lamports := 0, acc_data := [],
      acc_owner := system_program\<rparr>)"
    using assms(1) cl unfolding close_spec_def by blast
  show "unat (lamports (account_of s' destination))
       = unat (lamports (account_of s destination)) + unat (lamports (account_of s buffer))"
    using assms(3) checked_add_Some [OF c] by (simp add: s')
  show "lamports (account_of s' buffer) = 0" "data_of s' buffer = []"
    "acc_owner (account_of s' buffer) = system_program"
    "a \<noteq> v_address buffer \<Longrightarrow> acc_data (s' a) = acc_data (s a) \<and> acc_owner (s' a) = acc_owner (s a)"
    by (simp_all add: s')
  show "a \<noteq> v_address buffer \<Longrightarrow> a \<noteq> v_address destination \<Longrightarrow> s' a = s a"
    by (simp add: s' set_lamports_other)
qed

lemma close_buffer_frame:
  assumes "close_spec rt" "close_buffer rt buffer destination s = Inr s'" "a \<noteq> v_address buffer"
  shows "acc_data (s' a) = acc_data (s a) \<and> acc_owner (s' a) = acc_owner (s a) \<and> data_ptr (s' a) = data_ptr (s a)"
proof -
  from assms(2) obtain credited where
      "rt_close rt buffer (set_lamports buffer 0 (set_lamports destination credited s)) = Inr s'"
    by (auto simp: close_buffer_def Let_def and_then_Inr)
  with assms(1) have "s' = (set_lamports buffer 0 (set_lamports destination credited s))
     (v_address buffer := (account_of (set_lamports buffer 0 (set_lamports destination credited s)) buffer)
        \<lparr>lamports := 0, acc_data := [], acc_owner := system_program\<rparr>)"
    unfolding close_spec_def by blast
  with assms(3) show ?thesis by simp
qed

text \<open>Closing a buffer needs its creator's signature, moves every lamport it holds to that
  creator, empties it, and touches no other account.\<close>

lemma buffer_close_refunds_creator:
  assumes "close_spec rt"
    and "process_buffer_close rt pid (creator # buffer # remaining) instr s = Inr s'"
    and "v_address buffer \<noteq> v_address creator"
  shows "\<exists>b region. buf_load (ptr_of s buffer) (data_of s buffer) = Inr (b, region) \<and>
     buf_creator b = v_address creator \<and> v_signer creator \<and> acc_owner (account_of s buffer) = pid \<and>
     unat (lamports (account_of s' creator))
       = unat (lamports (account_of s creator)) + unat (lamports (account_of s buffer)) \<and>
     lamports (account_of s' buffer) = 0 \<and> data_of s' buffer = [] \<and>
     (\<forall>a. a \<noteq> v_address buffer \<and> a \<noteq> v_address creator \<longrightarrow> s' a = s a)"
proof -
  from assms(2) obtain b region where
      "buf_load (ptr_of s buffer) (data_of s buffer) = Inr (b, region)"
      "buf_creator b = v_address creator" "v_signer creator" "acc_owner (account_of s buffer) = pid"
    and c: "close_buffer rt buffer creator s = Inr s'"
    unfolding process_buffer_close_def list.case handler_steps by blast
  with close_buffer_effect [OF assms(1) c assms(3)] show ?thesis by blast
qed

section \<open>No panic\<close>

lemma check_may_upload_no_panic [simp]: "\<not> panics (check_may_upload creator multisig s)"
proof -
  have "\<not> panics (has_permission os ps a p)"
    if "ms_load (ptr_of s multisig) (data_of s multisig) = Inr (h, os, ps)" for h os ps a p
    using that by (intro has_permission_no_panic) (simp add: ms_load_Inr)
  then show ?thesis by (auto simp: check_may_upload_def)
qed

lemma buffer_create_no_panic:
  assumes rt: "runtime_no_panic rt" and spec: "create_account_spec pid rt"
  shows "\<not> panics (process_buffer_create rt pid accounts instr s)"
proof -
  let ?n = "unat (bc_final_size (buffer_create_data_of instr))"
  have fits: "\<not> panics (write_range 0 (length (drop BUFFER_CREATE_LEN instr)) (drop BUFFER_CREATE_LEN instr) region)"
    if t: "buf_split_uninitialized (ptr_of s1 buffer) (data_of s1 buffer) = Inr (st, region)"
      and c: "rt_create_account rt creator buffer (of_nat (buf_space ?n)) lam pid seeds s0 = Inr s1"
      and n: "\<not> (MAX_MESSAGE_SIZE < ?n \<or> ?n < length (drop BUFFER_CREATE_LEN instr))"
    for creator buffer lam seeds s0 s1 st region
  proof -
    have sp: "buf_space ?n = 112 + ?n" by (simp add: buf_space_def BUF_LEN_def)
    then have u: "unat (of_nat (buf_space ?n) :: u64) = buf_space ?n"
      using n by (intro unat_space) (simp add: MAX_MESSAGE_SIZE_def)
    then have nz: "(of_nat (buf_space ?n) :: u64) \<noteq> 0" using sp by (metis add_is_0 unat_0 zero_neq_numeral)
    from create_account_effect(4) [OF spec c nz] have "data_of s1 buffer = replicate (112 + ?n) 0"
      using u sp by simp
    with t have "replicate (112 + ?n) 0 = buf_encode st @ region" by (simp add: bufl.uninit_Inr)
    then have "112 + ?n = 112 + length region" by (metis length_append length_replicate bufl.enc_length)
    then show ?thesis using n by (simp add: write_range_def)
  qed
  show ?thesis
    unfolding process_buffer_create_def Let_def
    by (intro no_panic_intros) (use fits runtime_no_panicD [OF rt] bufl.parts_no_panic in simp_all)
qed

lemma buffer_extend_no_panic: "\<not> panics (process_buffer_extend rt pid accounts instr s)"
  unfolding process_buffer_extend_def Let_def buf_load_mut_eq
  by (auto split: list.split simp: write_range_def buf_load_Inr buf_bytes_def)

lemma close_buffer_no_panic:
  "runtime_no_panic rt \<Longrightarrow> \<not> panics (close_buffer rt buffer destination s)"
  by (simp add: close_buffer_def Let_def runtime_no_panicD)

lemma buffer_close_no_panic:
  "runtime_no_panic rt \<Longrightarrow> \<not> panics (process_buffer_close rt pid accounts instr s)"
  unfolding process_buffer_close_def by (auto split: list.split simp: close_buffer_no_panic)

end
