(* ===== verification/Config.thy ===== *)
theory Config
  imports Buffer_Ops
begin

text \<open>
  src/instruction/config_action.rs and instruction 11, src/instruction/set_config.rs: the changes of
  a multisig's configuration. The owner set and its permissions are moved as raw bytes; what the moves amount to,
  and the properties of the actions, are in \<open>Owner_Changes\<close> and \<open>Config_Changes\<close>.
\<close>

datatype config_action =
  AddOwner
| RemoveOwner
| ChangeThreshold
| ChangeTimeLock
| SetRentCollector
| SetPermission
| CloseMultisig
| SetConfigAuthority

definition config_action_from_u8 :: "u8 \<Rightarrow> config_action result" where
  "config_action_from_u8 v =
     (if v = 0 then Inr AddOwner
      else if v = 1 then Inr RemoveOwner
      else if v = 2 then Inr ChangeThreshold
      else if v = 3 then Inr ChangeTimeLock
      else if v = 4 then Inr SetRentCollector
      else if v = 5 then Inr SetPermission
      else if v = 6 then Inr CloseMultisig
      else if v = 7 then Inr SetConfigAuthority
      else fail UnknownConfigAction)"

definition payload_address :: "bytes \<Rightarrow> address result" where
  "payload_address payload =
     (if length payload = 32 then Inr (new_from_array payload) else fail InvalidInstructionData)"

definition settle_rent :: "runtime \<Rightarrow> view \<Rightarrow> view \<Rightarrow> nat \<Rightarrow> store \<Rightarrow> store result" where
  "settle_rent rt multisig payer new_space s =
     and_then (rt_rent rt) (\<lambda>minimum_balance.
     let required = minimum_balance new_space; held = lamports (account_of s multisig) in
     if held < required then rt_transfer rt payer multisig (required - held) s
     else if required < held then
       let refund = held - required in
       and_then (ok_or Overflow (checked_add (lamports (account_of s payer)) refund)) (\<lambda>credited.
       Inr (set_lamports multisig required (set_lamports payer credited s)))
     else Inr s)"

text \<open>The moves of \<open>add_owner\<close> on the tail, and its check of the new owner's neighbours.\<close>

definition insert_owner_bytes :: "nat \<Rightarrow> nat \<Rightarrow> address \<Rightarrow> bytes \<Rightarrow> bytes result" where
  "insert_owner_bytes count pos owner tail =
     (let old_permissions = count * 32; new_permissions = (count + 1) * 32 in
      and_then (or_panic (copy_within old_permissions (old_permissions + count) new_permissions tail)) (\<lambda>tail.
      and_then (or_panic (copy_within (pos * 32) (count * 32) ((pos + 1) * 32) tail)) (\<lambda>tail.
      and_then (write_range (pos * 32) ((pos + 1) * 32) (as_array owner) tail) (\<lambda>tail.
      and_then (or_panic (copy_within (new_permissions + pos) (new_permissions + count)
          (new_permissions + pos + 1) tail)) (\<lambda>tail.
      if new_permissions + pos < length tail then Inr (tail[new_permissions + pos := 0])
      else Inl Panicked)))))"

definition check_neighbours :: "address list \<Rightarrow> nat \<Rightarrow> unit result" where
  "check_neighbours owners pos =
     and_then
       (if 0 < pos
        then and_then (index_of owners (pos - 1)) (\<lambda>a. and_then (index_of owners pos) (\<lambda>b.
               if b \<le> a then fail OwnersNotSorted else Inr ()))
        else Inr ()) (\<lambda>_.
     if pos + 1 < length owners
     then and_then (index_of owners pos) (\<lambda>a. and_then (index_of owners (pos + 1)) (\<lambda>b.
            if b \<le> a then fail OwnersNotSorted else Inr ()))
     else Inr ())"

definition add_owner :: "runtime \<Rightarrow> view \<Rightarrow> view \<Rightarrow> bytes \<Rightarrow> store \<Rightarrow> store result" where
  "add_owner rt multisig payer payload s =
     and_then (payload_address payload) (\<lambda>owner.
     and_then (ms_load (ptr_of s multisig) (data_of s multisig)) (\<lambda>(ms, owners, _).
     case binary_search owners owner of
       Inr _ \<Rightarrow> fail OwnerAlreadyExists
     | Inl pos \<Rightarrow>
         let count = unat (ms_owners_count ms) in
         if MAX_OWNER \<le> count then fail InvalidOwnerCount
         else
           let new_space = ms_space (count + 1) in
           and_then (rt_resize rt multisig new_space s) (\<lambda>s.
           and_then (settle_rent rt multisig payer new_space s) (\<lambda>s.
           and_then (ms_split_uninitialized (ptr_of s multisig) (data_of s multisig)) (\<lambda>(ms, tail).
           and_then (insert_owner_bytes count pos owner tail) (\<lambda>tail.
           let ms = ms\<lparr>ms_owners_count := of_nat (count + 1),
                       ms_voter_count := ms_voter_count ms + 1\<rparr>;
               s = set_data multisig (ms_encode ms @ tail) s in
           and_then (ms_load (ptr_of s multisig) (data_of s multisig)) (\<lambda>(_, owners, _).
           and_then (check_neighbours owners pos) (\<lambda>_.
           and_then (ms_split_uninitialized (ptr_of s multisig) (data_of s multisig)) (\<lambda>(ms, tail).
           let ms = invalidate_prior_transactions ms;
               s = set_data multisig (ms_encode ms @ tail) s in
           and_then (ms_invariant ms) (\<lambda>_. Inr s))))))))))"

text \<open>The moves of \<open>remove_owner\<close>; \<open>count\<close> is positive, for an owner was found.\<close>

definition remove_owner_bytes :: "nat \<Rightarrow> nat \<Rightarrow> bytes \<Rightarrow> bytes result" where
  "remove_owner_bytes count pos tail =
     (let old_permissions = count * 32; new_permissions = (count - 1) * 32 in
      and_then (or_panic (copy_within ((pos + 1) * 32) (count * 32) (pos * 32) tail)) (\<lambda>tail.
      and_then (or_panic (copy_within (old_permissions + pos + 1) (old_permissions + count)
          (old_permissions + pos) tail)) (\<lambda>tail.
      or_panic (copy_within old_permissions (old_permissions + count - 1) new_permissions tail))))"

definition remove_owner :: "runtime \<Rightarrow> view \<Rightarrow> view \<Rightarrow> bytes \<Rightarrow> store \<Rightarrow> store result" where
  "remove_owner rt multisig payer payload s =
     and_then (payload_address payload) (\<lambda>owner.
     and_then (ms_load (ptr_of s multisig) (data_of s multisig)) (\<lambda>(ms, owners, permissions).
     and_then (ok_or NotAnOwner (is_owner owners owner)) (\<lambda>pos.
     and_then (index_of permissions pos) (\<lambda>mask.
     let count = unat (ms_owners_count ms); was_voter = mask_can_vote mask in
     and_then (ms_split_uninitialized (ptr_of s multisig) (data_of s multisig)) (\<lambda>(ms, tail).
     and_then (remove_owner_bytes count pos tail) (\<lambda>tail.
     let ms = ms\<lparr>ms_owners_count := of_nat (count - 1)\<rparr>;
         ms = (if was_voter then ms\<lparr>ms_voter_count := ms_voter_count ms - 1\<rparr> else ms);
         ms = invalidate_prior_transactions ms;
         s = set_data multisig (ms_encode ms @ tail) s in
     and_then (ms_invariant ms) (\<lambda>_.
     let new_space = ms_space (count - 1) in
     and_then (rt_resize rt multisig new_space s) (\<lambda>s.
     settle_rent rt multisig payer new_space s))))))))"

definition change_threshold :: "multisig \<Rightarrow> bytes \<Rightarrow> multisig result" where
  "change_threshold ms payload =
     (if length payload = 4 then Inr (ms\<lparr>ms_threshold := from_le_bytes payload\<rparr>)
      else fail InvalidInstructionData)"

definition change_time_lock :: "multisig \<Rightarrow> bytes \<Rightarrow> multisig result" where
  "change_time_lock ms payload =
     (if length payload = 4 then Inr (ms\<lparr>ms_time_lock := from_le_bytes payload\<rparr>)
      else fail InvalidInstructionData)"

definition set_rent_collector :: "multisig \<Rightarrow> bytes \<Rightarrow> multisig result" where
  "set_rent_collector ms payload =
     and_then (payload_address payload) (\<lambda>a. Inr (ms\<lparr>ms_rent_collector := a\<rparr>))"

definition set_permission ::
  "multisig \<Rightarrow> address list \<Rightarrow> bytes \<Rightarrow> bytes \<Rightarrow> (multisig \<times> bytes) result" where
  "set_permission ms owners permissions payload =
     (if length payload \<noteq> 33 then fail InvalidInstructionData
      else
        and_then (payload_address (take 32 payload)) (\<lambda>owner.
        let new_mask = payload ! 32 in
        if PERM_ALL < new_mask then fail UnknownPermission
        else
          and_then (ok_or NotAnOwner (is_owner owners owner)) (\<lambda>index.
          and_then (index_of permissions index) (\<lambda>old_mask.
          let was_voter = mask_can_vote old_mask; is_voter = mask_can_vote new_mask;
              permissions = permissions[index := new_mask];
              ms = (if \<not> was_voter \<and> is_voter then ms\<lparr>ms_voter_count := ms_voter_count ms + 1\<rparr>
                    else if was_voter \<and> \<not> is_voter then ms\<lparr>ms_voter_count := ms_voter_count ms - 1\<rparr>
                    else ms) in
          Inr (ms, permissions)))))"

definition close_multisig :: "runtime \<Rightarrow> view \<Rightarrow> view \<Rightarrow> bytes \<Rightarrow> bool \<Rightarrow> store \<Rightarrow> store result" where
  "close_multisig rt multisig destination payload via_proposal s =
     (if payload \<noteq> [] then fail InvalidInstructionData
      else
        and_then (ms_load (ptr_of s multisig) (data_of s multisig)) (\<lambda>(ms, _, _).
        let clear = (if via_proposal then only_executing_transaction_open ms
                     else all_transactions_closed ms) in
        if \<not> clear then fail TransactionsOutstanding
        else
          and_then (if ms_rent_collector ms \<noteq> default_address
                    then validate_eq (ms_rent_collector ms) (v_address destination) InvalidAccount
                    else Inr ()) (\<lambda>_.
          let refund = lamports (account_of s multisig) in
          and_then (ok_or Overflow (checked_add (lamports (account_of s destination)) refund))
            (\<lambda>credited.
          let s = set_lamports destination credited s;
              s = set_lamports multisig 0 s in
          rt_close rt multisig s))))"

text \<open>The \<open>match\<close> of the actions that edit the account in place.\<close>

definition edit_config ::
  "config_action \<Rightarrow> multisig \<Rightarrow> address list \<Rightarrow> bytes \<Rightarrow> bytes \<Rightarrow> (multisig \<times> bytes) result" where
  "edit_config action ms owners permissions payload =
     (case action of
        ChangeThreshold \<Rightarrow> and_then (change_threshold ms payload) (\<lambda>ms. Inr (ms, permissions))
      | ChangeTimeLock \<Rightarrow> and_then (change_time_lock ms payload) (\<lambda>ms. Inr (ms, permissions))
      | SetRentCollector \<Rightarrow> and_then (set_rent_collector ms payload) (\<lambda>ms. Inr (ms, permissions))
      | SetPermission \<Rightarrow> set_permission ms owners permissions payload
      | SetConfigAuthority \<Rightarrow>
          and_then (payload_address payload) (\<lambda>a. Inr (ms\<lparr>ms_config_authority := a\<rparr>, permissions))
      | _ \<Rightarrow> Inl Panicked)"

definition apply_config_action ::
  "runtime \<Rightarrow> view \<Rightarrow> view \<Rightarrow> bytes \<Rightarrow> bool \<Rightarrow> store \<Rightarrow> store result" where
  "apply_config_action rt multisig payer data via_proposal s =
     (case data of
        [] \<Rightarrow> fail InvalidInstructionData
      | tag # payload \<Rightarrow>
          and_then (config_action_from_u8 tag) (\<lambda>action.
          if action = CloseMultisig then close_multisig rt multisig payer payload via_proposal s
          else if action = AddOwner then add_owner rt multisig payer payload s
          else if action = RemoveOwner then remove_owner rt multisig payer payload s
          else
            and_then (ms_load_mut (ptr_of s multisig) (data_of s multisig))
              (\<lambda>(ms, owners, permissions).
            and_then (edit_config action ms owners permissions payload)
              (\<lambda>(ms, permissions).
            let ms = invalidate_prior_transactions ms;
                s = set_data multisig (ms_bytes ms owners permissions) s in
            and_then (ms_invariant ms) (\<lambda>_. Inr s)))))"

definition process_set_config ::
  "runtime \<Rightarrow> address \<Rightarrow> view list \<Rightarrow> bytes \<Rightarrow> store \<Rightarrow> store result" where
  "process_set_config rt program_id accounts instruction s =
     (case accounts of
        authority # multisig # remaining \<Rightarrow>
          and_then (check_signer authority MissingSignature) (\<lambda>_.
          and_then (check_owner s multisig program_id IllegalOwner) (\<lambda>_.
          and_then (ms_load (ptr_of s multisig) (data_of s multisig)) (\<lambda>(ms, _, _).
          if \<not> is_controlled ms then fail NotControlled
          else
            and_then (validate_eq (ms_config_authority ms) (v_address authority) Unauthorized) (\<lambda>_.
            apply_config_action rt multisig authority instruction False s))))
      | _ \<Rightarrow> fail NotEnoughAccounts)"

end
