(* ===== verification/Owner_Changes.thy ===== *)
theory Owner_Changes
  imports Config
begin

text \<open>
  Adding and removing an owner, src/instruction/config_action.rs: the moves of the bytes are an insertion into, or a
  removal from, the two lists of owners and masks, and on the map from owners to masks an update of one entry.
\<close>

section \<open>What the byte moves amount to\<close>

lemma insert_owner_moves:
  fixes a b p q z :: bytes
  assumes a: "length a = pos * 32" and b: "length b = k * 32" and p: "length p = pos"
    and q: "length q = k" and z: "length z = 33"
  shows "insert_owner_bytes (pos + k) pos owner (a @ b @ p @ q @ z)
       = Inr (a @ as_array owner @ b @ p @ [0] @ q)"
proof -
  obtain x where x: "length x = 32"
    and s1: "copy_within ((pos + k) * 32) ((pos + k) * 32 + (pos + k)) ((pos + k + 1) * 32)
        ((a @ b) @ (p @ q) @ z) = Some ((a @ b) @ x @ (p @ q) @ drop 32 z)"
    by (rule copy_within_up [of 32 z "(pos + k) * 32" "a @ b" "(pos + k) * 32 + (pos + k)" "p @ q"
          "(pos + k + 1) * 32"]) (use assms in simp_all)
  obtain y where y: "length y = 32"
    and s2: "copy_within (pos * 32) ((pos + k) * 32) ((pos + 1) * 32)
        (a @ b @ x @ p @ q @ drop 32 z) = Some (a @ y @ b @ drop 32 (x @ p @ q @ drop 32 z))"
    by (rule copy_within_up [of 32 "x @ p @ q @ drop 32 z" "pos * 32" a "(pos + k) * 32" b
          "(pos + 1) * 32"]) (use assms x in simp_all)
  have s3: "write_range (pos * 32) ((pos + 1) * 32) (as_array owner) (a @ y @ b @ p @ q @ drop 32 z)
      = Inr (a @ as_array owner @ b @ p @ q @ drop 32 z)"
    using a y by (simp add: write_range_def)
  obtain w where w: "length w = 1"
    and s4: "copy_within ((pos + k + 1) * 32 + pos) ((pos + k + 1) * 32 + (pos + k))
        ((pos + k + 1) * 32 + pos + 1) ((a @ as_array owner @ b @ p) @ q @ drop 32 z)
      = Some ((a @ as_array owner @ b @ p) @ w @ q @ drop 1 (drop 32 z))"
    by (rule copy_within_up [of 1 "drop 32 z" "(pos + k + 1) * 32 + pos" "a @ as_array owner @ b @ p"
          "(pos + k + 1) * 32 + (pos + k)" q "(pos + k + 1) * 32 + pos + 1"]) (use assms in simp_all)
  from w obtain c where c: "w = [c]" by (cases w) auto
  have lh: "(pos + k + 1) * 32 + pos = length (a @ as_array owner @ b @ p)" using assms by simp
  have s5: "((a @ as_array owner @ b @ p) @ w @ q)[(pos + k + 1) * 32 + pos := 0]
      = (a @ as_array owner @ b @ p) @ [0] @ q"
    unfolding c lh by (metis append_Cons append_Nil list_update_length)
  have "drop 32 (x @ p @ q @ drop 32 z) = p @ q @ drop 32 z" "drop 1 (drop 32 z) = []"
    using x z by simp_all
  then show ?thesis
    using s1 s2 s3 s4 s5 c lh by (simp add: insert_owner_bytes_def Let_def)
qed

lemma insert_owner_bytes_eq:
  assumes "length os = count" "length ps = count" "pos \<le> count" "length z = 33"
  shows "insert_owner_bytes count pos owner (encode_array as_array os @ ps @ z)
       = Inr (encode_array as_array (insert_at pos owner os) @ insert_at pos 0 ps)"
proof -
  have tail: "encode_array as_array os @ ps @ z = encode_array as_array (take pos os) @
      encode_array as_array (drop pos os) @ take pos ps @ drop pos ps @ z"
    by (metis append.assoc append_take_drop_id encode_array_simps(3))
  show ?thesis
    unfolding tail using insert_owner_moves [of "encode_array as_array (take pos os)" pos
        "encode_array as_array (drop pos os)" "count - pos" "take pos ps" "drop pos ps" z owner] assms
    by (simp add: addr.length_encode_array insert_at_def)
qed

lemma remove_owner_moves:
  fixes a b p q :: bytes
  assumes a: "length a = pos * 32" and b: "length b = k * 32" and p: "length p = pos"
    and q: "length q = k"
  shows "\<exists>junk. remove_owner_bytes (pos + k + 1) pos (a @ as_array owner @ b @ p @ [r] @ q)
       = Inr (a @ b @ p @ q @ junk) \<and> length junk = 33"
proof -
  obtain y where y: "length y = 32"
    and s1: "copy_within ((pos + 1) * 32) ((pos + k + 1) * 32) (pos * 32)
        (a @ as_array owner @ b @ p @ [r] @ q) = Some (a @ b @ y @ p @ [r] @ q)"
    by (rule copy_within_down [of "(pos + 1) * 32" a "as_array owner" "(pos + k + 1) * 32" b "pos * 32"
          "p @ [r] @ q"]) (use assms in simp_all)
  obtain l where l: "length l = 1"
    and s2: "copy_within ((pos + k + 1) * 32 + pos + 1) ((pos + k + 1) * 32 + (pos + k + 1))
        ((pos + k + 1) * 32 + pos) ((a @ b @ y @ p) @ [r] @ q @ []) = Some ((a @ b @ y @ p) @ q @ l @ [])"
    by (rule copy_within_down [of "(pos + k + 1) * 32 + pos + 1" "a @ b @ y @ p" "[r]"
          "(pos + k + 1) * 32 + (pos + k + 1)" q "(pos + k + 1) * 32 + pos" "[]"]) (use assms y in simp_all)
  obtain j where j: "length j = 32"
    and s3: "copy_within ((pos + k + 1) * 32) ((pos + k + 1) * 32 + (pos + k + 1) - 1)
        ((pos + k + 1 - 1) * 32) ((a @ b) @ y @ (p @ q) @ l) = Some ((a @ b) @ (p @ q) @ j @ l)"
    by (rule copy_within_down [of "(pos + k + 1) * 32" "a @ b" y "(pos + k + 1) * 32 + (pos + k + 1) - 1"
          "p @ q" "(pos + k + 1 - 1) * 32" l]) (use assms y in simp_all)
  have "remove_owner_bytes (pos + k + 1) pos (a @ as_array owner @ b @ p @ [r] @ q)
      = Inr (a @ b @ p @ q @ j @ l)"
    using s1 s2 s3 unfolding remove_owner_bytes_def Let_def append_assoc append_Nil2
    by (simp only: or_panic_simps and_then_simps)
  with j l show ?thesis by (intro exI [of _ "j @ l"]) simp
qed

lemma remove_owner_bytes_eq:
  assumes "length os = count" "length ps = count" "pos < count"
  shows "\<exists>junk. remove_owner_bytes count pos (encode_array as_array os @ ps)
       = Inr (encode_array as_array (remove_at pos os) @ remove_at pos ps @ junk) \<and> length junk = 33"
proof -
  have "os = take pos os @ os ! pos # drop (Suc pos) os" "ps = take pos ps @ ps ! pos # drop (Suc pos) ps"
    using assms by (simp_all add: id_take_nth_drop)
  then have tail: "encode_array as_array os @ ps =
      encode_array as_array (take pos os) @ as_array (os ! pos) @ encode_array as_array (drop (Suc pos) os) @
      take pos ps @ [ps ! pos] @ drop (Suc pos) ps"
    by (metis append.assoc append_Cons append_Nil encode_array_simps(2,3))
  have "pos + (count - Suc pos) + 1 = count" using assms by simp
  with remove_owner_moves [of "encode_array as_array (take pos os)" pos
        "encode_array as_array (drop (Suc pos) os)" "count - Suc pos" "take pos ps" "drop (Suc pos) ps"
        "os ! pos" "ps ! pos"] assms
  show ?thesis
    unfolding tail by (simp add: addr.length_encode_array remove_at_def)
qed

section \<open>The configuration as a map\<close>

definition perm_map :: "address list \<Rightarrow> bytes \<Rightarrow> address \<Rightarrow> u8 option" where
  "perm_map owners permissions = map_of (zip owners permissions)"

lemma zip_insert_at:
  "length xs = length ys \<Longrightarrow> zip (insert_at i x xs) (insert_at i y ys) = insert_at i (x, y) (zip xs ys)"
  by (simp add: insert_at_def take_zip drop_zip)

lemma zip_remove_at:
  "length xs = length ys \<Longrightarrow> zip (remove_at i xs) (remove_at i ys) = remove_at i (zip xs ys)"
  by (simp add: remove_at_def take_zip drop_zip)

lemma map_of_insert_at:
  assumes "x \<notin> fst ` set kvs"
  shows "map_of (insert_at i (x, y) kvs) = (map_of kvs)(x \<mapsto> y)"
proof -
  have "x \<notin> fst ` set (take i kvs)" using assms by (auto dest: in_set_takeD)
  then have "map_of (take i kvs) x = None" by (simp add: map_of_eq_None_iff)
  then have "map_of (insert_at i (x, y) kvs) = (map_of (drop i kvs) ++ map_of (take i kvs))(x \<mapsto> y)"
    by (auto simp: insert_at_def map_add_def fun_eq_iff split: option.splits)
  also have "map_of (drop i kvs) ++ map_of (take i kvs) = map_of kvs"
    by (metis append_take_drop_id map_of_append)
  finally show ?thesis .
qed

lemma perm_map_insert:
  assumes "length os = length ps" "x \<notin> set os"
  shows "perm_map (insert_at i x os) (insert_at i m ps) = (perm_map os ps)(x \<mapsto> m)"
  using assms by (simp add: perm_map_def zip_insert_at map_of_insert_at flip: set_map)

lemma perm_map_remove:
  assumes "length os = length ps" "distinct os" "i < length os"
  shows "perm_map (remove_at i os) (remove_at i ps) = (perm_map os ps)(os ! i := None)"
proof -
  have absent: "os ! i \<notin> set (remove_at i os)" using assms(2,3) by (rule distinct_remove_at)
  then have "perm_map os ps = (perm_map (remove_at i os) (remove_at i ps))(os ! i \<mapsto> ps ! i)"
    using perm_map_insert [of "remove_at i os" "remove_at i ps" "os ! i" i "ps ! i"] assms
    by (simp add: insert_remove_at)
  moreover have "perm_map (remove_at i os) (remove_at i ps) (os ! i) = None"
    using absent assms by (simp add: perm_map_def map_of_eq_None_iff flip: set_map)
  ultimately show ?thesis by (auto simp: fun_eq_iff)
qed

lemma perm_map_update:
  assumes "length os = length ps" "distinct os" "i < length os"
  shows "perm_map os (ps[i := m]) = (perm_map os ps)(os ! i \<mapsto> m)"
proof -
  have "remove_at i (ps[i := m]) = remove_at i ps" by (simp add: remove_at_def)
  moreover have "perm_map os (ps[i := m])
      = (perm_map (remove_at i os) (remove_at i (ps[i := m])))(os ! i \<mapsto> m)"
    using perm_map_insert [of "remove_at i os" "remove_at i (ps[i := m])" "os ! i" i m] assms
      insert_remove_at [of i os] insert_remove_at [of i "ps[i := m]"]
      distinct_remove_at [OF assms(2,3)]
    by simp
  ultimately show ?thesis using perm_map_remove [OF assms] by simp
qed

lemma perm_map_nth:
  "length os = length ps \<Longrightarrow> distinct os \<Longrightarrow> i < length os \<Longrightarrow> perm_map os ps (os ! i) = Some (ps ! i)"
  by (simp add: perm_map_def map_of_zip_nth)

lemma perm_map_dom: "length os = length ps \<Longrightarrow> dom (perm_map os ps) = set os"
  by (simp add: perm_map_def)

section \<open>Adding an owner\<close>

lemma settle_rent_frame:
  assumes "transfer_spec rt" "settle_rent rt multisig payer n s = Inr s'"
  shows "acc_data (s' a) = acc_data (s a) \<and> acc_owner (s' a) = acc_owner (s a) \<and>
         data_ptr (s' a) = data_ptr (s a)"
  using assms unfolding settle_rent_def transfer_spec_def
  by (auto simp: Let_def and_then_Inr ok_or_Inr split: if_splits) fastforce+

text \<open>Rent moves only between the two accounts, in full, and leaves the multisig holding exactly
  the minimum balance of its new size.\<close>

lemma settle_rent_conserves:
  assumes "transfer_spec rt" "settle_rent rt multisig payer n s = Inr s'"
    and "v_address multisig \<noteq> v_address payer"
  shows "\<exists>minimum_balance. rt_rent rt = Inr minimum_balance \<and>
       lamports (account_of s' multisig) = minimum_balance n"
    and "lamports (account_of s' payer) + lamports (account_of s' multisig)
       = lamports (account_of s payer) + lamports (account_of s multisig)"
proof -
  from assms(2) obtain mb where mb: "rt_rent rt = Inr mb"
    and body: "(if lamports (account_of s multisig) < mb n
       then rt_transfer rt payer multisig (mb n - lamports (account_of s multisig)) s
       else if mb n < lamports (account_of s multisig)
       then and_then (ok_or Overflow (checked_add (lamports (account_of s payer))
              (lamports (account_of s multisig) - mb n)))
              (\<lambda>credited. Inr (set_lamports multisig (mb n) (set_lamports payer credited s)))
       else Inr s) = Inr s'"
    unfolding settle_rent_def Let_def and_then_Inr by blast
  have "lamports (account_of s' multisig) = mb n \<and>
      lamports (account_of s' payer) + lamports (account_of s' multisig)
       = lamports (account_of s payer) + lamports (account_of s multisig)"
  proof (cases "lamports (account_of s multisig) < mb n")
    case True
    with body have "rt_transfer rt payer multisig (mb n - lamports (account_of s multisig)) s = Inr s'"
      by simp
    with assms(1,3) show ?thesis unfolding transfer_spec_def by fastforce
  next
    case False
    with body assms(3) show ?thesis
      by (auto simp: and_then_Inr ok_or_Inr checked_add_def split: if_splits)
  qed
  with mb show "\<exists>minimum_balance. rt_rent rt = Inr minimum_balance \<and>
       lamports (account_of s' multisig) = minimum_balance n"
    and "lamports (account_of s' payer) + lamports (account_of s' multisig)
       = lamports (account_of s payer) + lamports (account_of s multisig)" by blast+
qed

lemma resize_grow:
  assumes "resize_spec rt" "rt_resize rt multisig n s = Inr s'" "length (data_of s multisig) + k = n"
  shows "s' = set_data multisig (data_of s multisig @ replicate k 0) s"
  using assms unfolding resize_spec_def by force

lemma length_ms_bytes:
  "length os = n \<Longrightarrow> length ps = n \<Longrightarrow> length (ms_bytes c os ps) = ms_space n"
  by (simp add: ms_bytes_def ms_space_def MS_LEN_def addr.length_encode_array)

definition added_owner :: "multisig \<Rightarrow> multisig" where
  "added_owner c = c\<lparr>ms_owners_count := ms_owners_count c + 1, ms_voter_count := ms_voter_count c + 1,
     ms_stale_transaction_index := ms_transaction_index c\<rparr>"

lemma count_word: "of_nat (unat w + 1) = w + 1" for w :: "'a::len word"
  by (simp add: unsigned_of_nat)

text \<open>The steps of a success.\<close>

lemma add_owner_steps:
  assumes load: "ms_load (ptr_of s multisig) (data_of s multisig) = Inr (c, os, ps)"
    and run: "add_owner rt multisig payer payload s = Inr s'"
  obtains pos s1 s2 h1 t1 t2 h3 t3 where
    "length payload = 32" "binary_search os (new_from_array payload) = Inl pos" "unat (ms_owners_count c) < MAX_OWNER"
    "rt_resize rt multisig (ms_space (unat (ms_owners_count c) + 1)) s = Inr s1"
    "settle_rent rt multisig payer (ms_space (unat (ms_owners_count c) + 1)) s1 = Inr s2"
    "ms_split_uninitialized (ptr_of s2 multisig) (data_of s2 multisig) = Inr (h1, t1)"
    "insert_owner_bytes (unat (ms_owners_count c)) pos (new_from_array payload) t1 = Inr t2"
    "ms_split_uninitialized (ptr_of s2 multisig) (ms_encode (h1\<lparr>ms_owners_count := ms_owners_count c + 1,
       ms_voter_count := ms_voter_count h1 + 1\<rparr>) @ t2) = Inr (h3, t3)"
    "ms_invariant (invalidate_prior_transactions h3) = Inr ()"
    "s' = set_data multisig (ms_encode (invalidate_prior_transactions h3) @ t3) s2"
proof -
  have len: "length payload = 32" using run by (auto simp: add_owner_def payload_address_def split: if_splits)
  have pa: "payload_address payload = Inr (new_from_array payload)" by (simp add: payload_address_def len)
  have "\<exists>pos. binary_search os (new_from_array payload) = Inl pos"
    using run unfolding add_owner_def load pa and_then_simps prod.case
    by (cases "binary_search os (new_from_array payload)") simp_all
  then obtain pos where pos: "binary_search os (new_from_array payload) = Inl pos" by blast
  have twice: "set_data multisig d (set_data multisig d' t) = set_data multisig d t" for d d' t
    by (simp add: set_data_def)
  from run show thesis
    unfolding add_owner_def load pa pos and_then_simps prod.case sum.case handler_steps count_word twice set_data_simps
      simp_thms if_True unit_eq
    by (elim exE conjE) (rule that [OF len pos], assumption+, rule sym)
qed

lemma add_owner_effect:
  assumes spec: "resize_spec rt" "transfer_spec rt"
    and load: "ms_load (ptr_of s multisig) (data_of s multisig) = Inr (c, os, ps)"
    and run: "add_owner rt multisig payer payload s = Inr s'"
  obtains pos where "length payload = 32" "binary_search os (new_from_array payload) = Inl pos"
    "unat (ms_owners_count c) < MAX_OWNER" "ms_invariant (added_owner c) = Inr ()"
    "data_of s' multisig = ms_bytes (added_owner c) (insert_at pos (new_from_array payload) os)
       (insert_at pos 0 ps)"
    "ptr_of s' multisig = ptr_of s multisig" "acc_owner (account_of s' multisig) = acc_owner (account_of s multisig)"
    "\<And>a. a \<noteq> v_address multisig \<Longrightarrow> acc_data (s' a) = acc_data (s a) \<and>
       acc_owner (s' a) = acc_owner (s a) \<and> data_ptr (s' a) = data_ptr (s a)"
proof -
  let ?owner = "new_from_array payload" and ?n = "unat (ms_owners_count c)"
  have l: "length os = ?n" "length ps = ?n" "8 dvd ptr_of s multisig"
    and d: "data_of s multisig = ms_bytes c os ps"
    using load by (simp_all add: ms_load_Inr)
  obtain pos s1 s2 h1 t1 t2 h3 t3 where
      len: "length payload = 32" and pos: "binary_search os ?owner = Inl pos" and small: "?n < MAX_OWNER"
    and resize: "rt_resize rt multisig (ms_space (?n + 1)) s = Inr s1"
    and settle: "settle_rent rt multisig payer (ms_space (?n + 1)) s1 = Inr s2"
    and split1: "ms_split_uninitialized (ptr_of s2 multisig) (data_of s2 multisig) = Inr (h1, t1)"
    and ins: "insert_owner_bytes ?n pos ?owner t1 = Inr t2"
    and split2: "ms_split_uninitialized (ptr_of s2 multisig) (ms_encode (h1\<lparr>ms_owners_count := ms_owners_count c + 1,
       ms_voter_count := ms_voter_count h1 + 1\<rparr>) @ t2) = Inr (h3, t3)"
    and inv: "ms_invariant (invalidate_prior_transactions h3) = Inr ()"
    and s': "s' = set_data multisig (ms_encode (invalidate_prior_transactions h3) @ t3) s2"
    by (rule add_owner_steps [OF load run])
  have ple: "pos \<le> ?n" using bs.search_Inl_le [OF pos] l by simp
  have s1: "s1 = set_data multisig (ms_bytes c os ps @ replicate 33 0) s"
    using resize_grow [OF spec(1) resize, of 33] l d by (simp add: length_ms_bytes ms_space_def)
  note frame = settle_rent_frame [OF spec(2) settle]
  have "h1 = c \<and> t1 = encode_array as_array os @ ps @ replicate 33 0"
    using split1 frame by (simp add: s1 msl.uninit_Inr ms_bytes_def msl.enc_append_inject)
  moreover have "insert_owner_bytes ?n pos ?owner (encode_array as_array os @ ps @ replicate 33 0)
      = Inr (encode_array as_array (insert_at pos ?owner os) @ insert_at pos 0 ps)"
    using l ple by (intro insert_owner_bytes_eq) simp_all
  ultimately have "h3 = c\<lparr>ms_owners_count := ms_owners_count c + 1, ms_voter_count := ms_voter_count c + 1\<rparr> \<and>
      t3 = encode_array as_array (insert_at pos ?owner os) @ insert_at pos 0 ps"
    using split2 ins by (simp add: msl.uninit_Inr msl.enc_append_inject)
  then have h3: "invalidate_prior_transactions h3 = added_owner c"
      "t3 = encode_array as_array (insert_at pos ?owner os) @ insert_at pos 0 ps"
    by (simp_all add: added_owner_def invalidate_prior_transactions_def)
  show thesis
    by (rule that [OF len pos small inv [unfolded h3(1)]])
       (use frame in \<open>simp_all add: s' s1 h3 ms_bytes_def\<close>)
qed

lemma mask_can_vote_0 [simp]: "mask_can_vote 0"
  by (simp add: mask_can_vote_def)

lemma add_owner_refines:
  assumes "resize_spec rt" "transfer_spec rt"
    and load: "ms_load (ptr_of s multisig) (data_of s multisig) = Inr (c, os, ps)"
    and wf: "ms_wf c os ps"
    and run: "add_owner rt multisig payer payload s = Inr s'"
  shows "\<exists>c' os' ps'. ms_load (ptr_of s' multisig) (data_of s' multisig) = Inr (c', os', ps') \<and>
     ms_wf c' os' ps' \<and> new_from_array payload \<notin> set os \<and>
     perm_map os' ps' = (perm_map os ps)(new_from_array payload \<mapsto> 0) \<and>
     c' = added_owner c \<and> length os' = Suc (length os) \<and>
     (\<forall>a. a \<noteq> v_address multisig \<longrightarrow> acc_data (s' a) = acc_data (s a))"
proof -
  let ?owner = "new_from_array payload"
  obtain pos where e: "binary_search os ?owner = Inl pos"
    "unat (ms_owners_count c) < MAX_OWNER" "ms_invariant (added_owner c) = Inr ()"
    "data_of s' multisig = ms_bytes (added_owner c) (insert_at pos ?owner os) (insert_at pos 0 ps)"
    "ptr_of s' multisig = ptr_of s multisig"
    "\<And>a. a \<noteq> v_address multisig \<Longrightarrow> acc_data (s' a) = acc_data (s a)"
    by (rule add_owner_effect [OF assms(1,2) load run]) blast
  have w: "ascending os" "length os = unat (ms_owners_count c)" "length ps = unat (ms_owners_count c)"
    "unat (ms_voter_count c) = voters ps" "\<forall>m \<in> set ps. m \<le> PERM_ALL"
    "unat (ms_voter_count c) \<le> MAX_OWNER"
    using wf by (auto simp: ms_wf_def ms_invariant_iff)
  have pos: "pos \<le> length os" using e(1) by (rule bs.search_Inl_le)
  have absent: "?owner \<notin> set os" using w(1) e(1) by (rule bs.search_absent)
  have n: "unat (ms_owners_count c + 1) = Suc (unat (ms_owners_count c))"
    "unat (ms_voter_count c + 1) = Suc (unat (ms_voter_count c))"
    using e(2) w(6) by (simp_all add: unat_add_1_less [of _ 4097] MAX_OWNER_def)
  have "ms_wf (added_owner c) (insert_at pos ?owner os) (insert_at pos 0 ps)"
    using e(3) w pos n bs.insert_ascending [OF w(1) e(1)]
    by (simp add: ms_wf_def added_owner_def voters_def length_filter_insert_at)
  moreover have "ms_load (ptr_of s' multisig) (data_of s' multisig)
      = Inr (added_owner c, insert_at pos ?owner os, insert_at pos 0 ps)"
    using e(4,5) w pos n load by (simp add: ms_load_Inr added_owner_def)
  ultimately show ?thesis
    using absent e(6) w pos perm_map_insert [of os ps ?owner pos 0] by auto
qed

text \<open>C21: adding an owner is refused when it is one already or the set is full. Otherwise, in terms
  of the map from owners to masks, it binds the new owner to the mask that permits everything and
  changes no other owner; the set stays ascending, the counts of owners and voters grow by one, every
  earlier proposal becomes stale, the configuration stays well formed, and no other account's data
  changes.\<close>

theorem add_owner_correct:
  assumes "resize_spec rt" "transfer_spec rt"
    and load: "ms_load (ptr_of s multisig) (data_of s multisig) = Inr (c, os, ps)"
    and wf: "ms_wf c os ps"
    and run: "add_owner rt multisig payer payload s = Inr s'"
  shows "\<exists>c' os' ps'. ms_load (ptr_of s' multisig) (data_of s' multisig) = Inr (c', os', ps') \<and>
     ms_wf c' os' ps' \<and> new_from_array payload \<notin> set os \<and>
     perm_map os' ps' = (perm_map os ps)(new_from_array payload \<mapsto> 0) \<and>
     c' = added_owner c \<and> length os' = Suc (length os) \<and>
     (\<forall>a. a \<noteq> v_address multisig \<longrightarrow> acc_data (s' a) = acc_data (s a))"
  by (rule add_owner_refines [OF assms])

section \<open>Removing an owner\<close>

definition removed_owner :: "multisig \<Rightarrow> u8 \<Rightarrow> multisig" where
  "removed_owner c old_mask = c\<lparr>ms_owners_count := ms_owners_count c - 1,
     ms_voter_count := (if mask_can_vote old_mask then ms_voter_count c - 1 else ms_voter_count c),
     ms_stale_transaction_index := ms_transaction_index c\<rparr>"

lemma remove_owner_effect:
  assumes spec: "resize_spec rt" "transfer_spec rt"
    and load: "ms_load (ptr_of s multisig) (data_of s multisig) = Inr (c, os, ps)"
    and run: "remove_owner rt multisig payer payload s = Inr s'"
  obtains pos where "length payload = 32" "is_owner os (new_from_array payload) = Some pos"
    "ms_invariant (removed_owner c (ps ! pos)) = Inr ()"
    "data_of s' multisig = ms_bytes (removed_owner c (ps ! pos)) (remove_at pos os) (remove_at pos ps)"
    "ptr_of s' multisig = ptr_of s multisig" "acc_owner (account_of s' multisig) = acc_owner (account_of s multisig)"
    "\<And>a. a \<noteq> v_address multisig \<Longrightarrow> acc_data (s' a) = acc_data (s a) \<and>
       acc_owner (s' a) = acc_owner (s a) \<and> data_ptr (s' a) = data_ptr (s a)"
proof -
  let ?owner = "new_from_array payload" and ?n = "unat (ms_owners_count c)"
  have l: "length os = ?n" "length ps = ?n" "8 dvd ptr_of s multisig"
    and d: "data_of s multisig = ms_bytes c os ps"
    using load by (simp_all add: ms_load_Inr)
  obtain pos where len: "length payload = 32" and pos: "is_owner os ?owner = Some pos"
    using run unfolding remove_owner_def load payload_address_def
    by (auto simp: and_then_Inr ok_or_Inr split: if_splits)
  have i: "pos < ?n" "pos < length ps" using is_owner_nth [OF pos] l by simp_all
  have split: "ms_split_uninitialized (ptr_of s multisig) (data_of s multisig)
      = Inr (c, encode_array as_array os @ ps)"
    using l d by (simp add: msl.uninit_Inr ms_bytes_def)
  obtain junk where moves: "remove_owner_bytes ?n pos (encode_array as_array os @ ps)
       = Inr (encode_array as_array (remove_at pos os) @ remove_at pos ps @ junk)" "length junk = 33"
    using remove_owner_bytes_eq [OF l(1,2) i(1)] by blast
  have nz: "ms_owners_count c \<noteq> 0" using i by auto
  then have n1: "unat (ms_owners_count c - 1) = ?n - 1" by (rule unat_sub_1)
  have "(of_nat (unat (ms_owners_count c - 1)) :: u32) = ms_owners_count c - 1" by simp
  then have n2: "(of_nat (?n - Suc 0) :: u32) = ms_owners_count c - 1" by (simp add: n1)
  let ?c = "removed_owner c (ps ! pos)"
  let ?s1 = "set_data multisig (ms_encode ?c @ encode_array as_array (remove_at pos os) @
      remove_at pos ps @ junk) s"
  from run obtain s2 where inv: "ms_invariant ?c = Inr ()"
    and resize: "rt_resize rt multisig (ms_space (?n - 1)) ?s1 = Inr s2"
    and settle: "settle_rent rt multisig payer (ms_space (?n - 1)) s2 = Inr s'"
    unfolding remove_owner_def load payload_address_def
    by (cases "mask_can_vote (ps ! pos)")
       (auto simp: len pos i split moves and_then_Inr Let_def n2 removed_owner_def
        invalidate_prior_transactions_def)
  let ?d = "ms_bytes ?c (remove_at pos os) (remove_at pos ps)"
  have "take (ms_space (?n - 1)) (data_of ?s1 multisig) = ?d"
    "ms_space (?n - 1) \<le> length (data_of ?s1 multisig)"
    using l i moves(2)
    by (simp_all add: ms_bytes_def ms_space_def MS_LEN_def addr.length_encode_array diff_mult_distrib)
  then have s2: "s2 = set_data multisig ?d ?s1"
    using spec(1) resize unfolding resize_spec_def by fastforce
  note frame = settle_rent_frame [OF spec(2) settle]
  show thesis
  proof (rule that [OF len pos inv])
    show "data_of s' multisig = ?d" "ptr_of s' multisig = ptr_of s multisig"
      "acc_owner (account_of s' multisig) = acc_owner (account_of s multisig)"
      using frame by (simp_all add: s2)
    show "\<And>a. a \<noteq> v_address multisig \<Longrightarrow> acc_data (s' a) = acc_data (s a) \<and>
       acc_owner (s' a) = acc_owner (s a) \<and> data_ptr (s' a) = data_ptr (s a)"
      using frame by (simp add: s2)
  qed
qed

lemma remove_owner_refines:
  assumes "resize_spec rt" "transfer_spec rt"
    and load: "ms_load (ptr_of s multisig) (data_of s multisig) = Inr (c, os, ps)"
    and wf: "ms_wf c os ps"
    and run: "remove_owner rt multisig payer payload s = Inr s'"
  shows "\<exists>c' os' ps' m. ms_load (ptr_of s' multisig) (data_of s' multisig) = Inr (c', os', ps') \<and>
     ms_wf c' os' ps' \<and> perm_map os ps (new_from_array payload) = Some m \<and>
     perm_map os' ps' = (perm_map os ps)(new_from_array payload := None) \<and>
     c' = removed_owner c m \<and> Suc (length os') = length os \<and>
     unat (ms_threshold c') \<le> voters ps' \<and>
     (\<forall>a. a \<noteq> v_address multisig \<longrightarrow> acc_data (s' a) = acc_data (s a))"
proof -
  let ?owner = "new_from_array payload"
  obtain pos where e: "is_owner os ?owner = Some pos" "ms_invariant (removed_owner c (ps ! pos)) = Inr ()"
    "data_of s' multisig = ms_bytes (removed_owner c (ps ! pos)) (remove_at pos os) (remove_at pos ps)"
    "ptr_of s' multisig = ptr_of s multisig"
    "\<And>a. a \<noteq> v_address multisig \<Longrightarrow> acc_data (s' a) = acc_data (s a)"
    by (rule remove_owner_effect [OF assms(1,2) load run]) blast
  let ?c = "removed_owner c (ps ! pos)"
  have w: "ascending os" "length os = unat (ms_owners_count c)" "length ps = unat (ms_owners_count c)"
    "unat (ms_voter_count c) = voters ps" "\<forall>m \<in> set ps. m \<le> PERM_ALL"
    using wf by (auto simp: ms_wf_def)
  have i: "pos < length os" "os ! pos = ?owner" using is_owner_nth [OF e(1)] by simp_all
  have d: "distinct os" using w(1) by (rule ascending_distinct)
  have vp: "voters ps = (if mask_can_vote (ps ! pos) then 1 else 0) + voters (remove_at pos ps)"
    using length_filter_remove_at [of pos ps mask_can_vote] i w by (simp add: voters_def)
  have n: "unat (ms_owners_count c - 1) = unat (ms_owners_count c) - 1"
    using i w by (intro unat_sub_1) auto
  have v: "unat (ms_voter_count ?c) = voters (remove_at pos ps)"
  proof (cases "mask_can_vote (ps ! pos)")
    case True
    then have "ms_voter_count c \<noteq> 0" using vp w(4) by auto
    then show ?thesis using True vp w(4) by (simp add: removed_owner_def unat_sub_1)
  next
    case False
    then show ?thesis using vp w(4) by (simp add: removed_owner_def)
  qed
  have sub: "set (remove_at pos ps) \<subseteq> set ps"
    by (auto simp: remove_at_def dest: in_set_takeD in_set_dropD)
  have wf': "ms_wf ?c (remove_at pos os) (remove_at pos ps)"
    using e(2) w i n v sub ascending_remove_at [OF w(1)]
    by (auto simp: ms_wf_def removed_owner_def)
  have "ms_load (ptr_of s' multisig) (data_of s' multisig) = Inr (?c, remove_at pos os, remove_at pos ps)"
    using e(3,4) w i n load by (simp add: ms_load_Inr removed_owner_def)
  moreover have "unat (ms_threshold ?c) \<le> voters (remove_at pos ps)"
    using e(2) v by (simp add: ms_invariant_iff)
  ultimately show ?thesis
    using wf' e(5) w i perm_map_remove [of os ps pos] perm_map_nth [of os ps pos] d by auto
qed

text \<open>C28: removing an owner unbinds exactly that owner in the map from owners to masks. The set stays
  ascending, the count of voters drops exactly when the owner could vote, the threshold is untouched
  and still reachable, every earlier proposal becomes stale, and the configuration stays well formed.\<close>

theorem remove_owner_correct:
  assumes "resize_spec rt" "transfer_spec rt"
    and load: "ms_load (ptr_of s multisig) (data_of s multisig) = Inr (c, os, ps)"
    and wf: "ms_wf c os ps"
    and run: "remove_owner rt multisig payer payload s = Inr s'"
  shows "\<exists>c' os' ps' m. ms_load (ptr_of s' multisig) (data_of s' multisig) = Inr (c', os', ps') \<and>
     ms_wf c' os' ps' \<and> perm_map os ps (new_from_array payload) = Some m \<and>
     perm_map os' ps' = (perm_map os ps)(new_from_array payload := None) \<and>
     c' = removed_owner c m \<and> Suc (length os') = length os \<and>
     unat (ms_threshold c') \<le> voters ps' \<and>
     (\<forall>a. a \<noteq> v_address multisig \<longrightarrow> acc_data (s' a) = acc_data (s a))"
  by (rule remove_owner_refines [OF assms])

section \<open>No panic\<close>

lemma settle_rent_no_panic:
  "runtime_no_panic rt \<Longrightarrow> \<not> panics (settle_rent rt multisig payer n s)"
  by (simp add: settle_rent_def Let_def runtime_no_panicD)

lemma check_neighbours_no_panic: "pos < length owners \<Longrightarrow> \<not> panics (check_neighbours owners pos)"
  by (cases pos) (simp_all add: check_neighbours_def)

lemma inserted_no_panic:
  assumes spec: "resize_spec rt" "transfer_spec rt"
    and load: "ms_load (ptr_of s multisig) (data_of s multisig) = Inr (c, os, ps)"
    and steps: "rt_resize rt multisig (ms_space (Suc (unat (ms_owners_count c)))) s = Inr s1"
      "settle_rent rt multisig payer (ms_space (Suc (unat (ms_owners_count c)))) s1 = Inr s2"
      "ms_split_uninitialized (ptr_of s2 multisig) (data_of s2 multisig) = Inr (ms, tail)"
    and pos: "pos \<le> unat (ms_owners_count c)"
  shows "\<not> panics (insert_owner_bytes (unat (ms_owners_count c)) pos owner tail)"
proof -
  have l: "length os = unat (ms_owners_count c)" "length ps = unat (ms_owners_count c)" "data_of s multisig = ms_bytes c os ps"
    using load by (simp_all add: ms_load_Inr)
  have "s1 = set_data multisig (ms_bytes c os ps @ replicate 33 0) s"
    using resize_grow [OF spec(1) steps(1), of 33] l by (simp add: length_ms_bytes ms_space_def)
  then have "data_of s2 multisig = ms_bytes c os ps @ replicate 33 0"
    using settle_rent_frame [OF spec(2) steps(2)] by simp
  with steps(3) have "ms = c \<and> tail = encode_array as_array os @ ps @ replicate 33 0"
    by (simp add: msl.uninit_Inr ms_bytes_def msl.enc_append_inject)
  then show ?thesis
    using insert_owner_bytes_eq [OF l(1,2) pos, of "replicate 33 0" owner] by simp
qed

lemma neighbours_no_panic:
  assumes "ms_load p (ms_encode (ms\<lparr>ms_owners_count := 1 + n, ms_voter_count := w\<rparr>) @ tail) = Inr (h, owners, q)"
    and "pos \<le> unat n" "unat n < MAX_OWNER"
  shows "\<not> panics (check_neighbours owners pos)"
proof -
  have "ms_owners_count h = n + 1"
    using assms(1) by (auto simp: ms_load_Inr ms_bytes_def msl.enc_append_inject)
  moreover have "unat (n + 1) = unat n + 1"
    using assms(3) by (simp add: unat_add_1_less [of _ 4097] MAX_OWNER_def)
  ultimately have "length owners = unat n + 1" using assms(1) by (simp add: ms_load_Inr)
  then show ?thesis using assms(2) by (intro check_neighbours_no_panic) simp
qed

lemma add_owner_no_panic:
  assumes rt: "runtime_no_panic rt" and spec: "resize_spec rt" "transfer_spec rt"
  shows "\<not> panics (add_owner rt multisig payer payload s)"
proof (cases "ms_load (ptr_of s multisig) (data_of s multisig)")
  case (Inl e)
  then show ?thesis
    using ms_load_cases [of "ptr_of s multisig" "data_of s multisig"]
    by (auto simp: add_owner_def payload_address_def)
next
  case (Inr x)
  then obtain c os ps where load: "ms_load (ptr_of s multisig) (data_of s multisig) = Inr (c, os, ps)"
    by (metis prod_cases3)
  show ?thesis
  proof (cases "length payload = 32")
    case False
    then show ?thesis by (simp add: add_owner_def payload_address_def)
  next
    case True
    then have pa: "payload_address payload = Inr (new_from_array payload)" by (simp add: payload_address_def)
    show ?thesis
    proof (cases "binary_search os (new_from_array payload)")
      case (Inr i)
      then show ?thesis by (simp add: add_owner_def pa load)
    next
      case (Inl pos)
      have "pos \<le> unat (ms_owners_count c)" using bs.search_Inl_le [OF Inl] load by (simp add: ms_load_Inr)
      then show ?thesis
        unfolding add_owner_def pa load and_then_simps prod.case Inl sum.case Let_def
        by (intro no_panic_intros)
           (use runtime_no_panicD [OF rt] settle_rent_no_panic [OF rt] msl.parts_no_panic in
             \<open>auto dest: inserted_no_panic [where s = s and multisig = multisig, OF spec load] neighbours_no_panic\<close>)
    qed
  qed
qed

lemma remove_owner_no_panic:
  assumes rt: "runtime_no_panic rt"
  shows "\<not> panics (remove_owner rt multisig payer payload s)"
proof -
  have moved: "\<not> panics (remove_owner_bytes (unat (ms_owners_count c)) pos tail)"
    and found: "\<not> panics (index_of ps pos)"
    if load: "ms_load (ptr_of s multisig) (data_of s multisig) = Inr (c, os, ps)"
      and pos: "is_owner os owner = Some pos"
      and split: "ms_split_uninitialized (ptr_of s multisig) (data_of s multisig) = Inr (ms, tail)"
    for c os ps owner pos ms tail
  proof -
    have l: "length os = unat (ms_owners_count c)" "length ps = unat (ms_owners_count c)"
      "data_of s multisig = ms_bytes c os ps"
      using load by (simp_all add: ms_load_Inr)
    with split have tail: "tail = encode_array as_array os @ ps"
      by (simp add: msl.uninit_Inr ms_bytes_def msl.enc_append_inject)
    have "pos < unat (ms_owners_count c)" using loaded_owner [OF load pos] by simp
    from remove_owner_bytes_eq [OF l(1,2) this] show "\<not> panics (remove_owner_bytes (unat (ms_owners_count c)) pos tail)"
      by (auto simp: tail)
    show "\<not> panics (index_of ps pos)" using loaded_owner [OF load pos] by simp
  qed
  have found': "\<not> panics (index_of ps pos)"
    if "ms_load (ptr_of s multisig) (data_of s multisig) = Inr (c, os, ps)" "is_owner os owner = Some pos"
    for c os ps owner pos
    using loaded_owner [OF that] by simp
  show ?thesis
    unfolding remove_owner_def Let_def
    by (intro no_panic_intros)
       (use runtime_no_panicD [OF rt] settle_rent_no_panic [OF rt] msl.parts_no_panic in
         \<open>auto simp: payload_address_def ok_or_Inr dest: moved found'\<close>)
qed

end
