(* ===== verification/Config_Changes.thy ===== *)
theory Config_Changes
  imports Owner_Changes
begin

text \<open>
  The other configuration actions: the edits in place, the closing of the multisig, what every action does to the
  fields the owners do not set, and which accounts it leaves alone.
\<close>

section \<open>Editing in place\<close>

lemma config_action_tag:
  "config_action_from_u8 tag = Inr action \<Longrightarrow>
   (action = AddOwner \<longleftrightarrow> tag = 0) \<and> (action = RemoveOwner \<longleftrightarrow> tag = 1) \<and>
   (action = ChangeThreshold \<longleftrightarrow> tag = 2) \<and> (action = ChangeTimeLock \<longleftrightarrow> tag = 3) \<and>
   (action = SetRentCollector \<longleftrightarrow> tag = 4) \<and> (action = SetPermission \<longleftrightarrow> tag = 5) \<and>
   (action = CloseMultisig \<longleftrightarrow> tag = 6) \<and> (action = SetConfigAuthority \<longleftrightarrow> tag = 7)"
  by (auto simp: config_action_from_u8_def split: if_splits)

lemma apply_in_place:
  assumes tag: "config_action_from_u8 tag = Inr action"
    and inplace: "action \<notin> {CloseMultisig, AddOwner, RemoveOwner}"
    and load: "ms_load (ptr_of s multisig) (data_of s multisig) = Inr (c, os, ps)"
  shows "apply_config_action rt multisig payer (tag # payload) via s = Inr s' \<longleftrightarrow>
     (\<exists>c' ps'. edit_config action c os ps payload = Inr (c', ps') \<and>
        ms_invariant (invalidate_prior_transactions c') = Inr () \<and>
        s' = set_data multisig (ms_bytes (invalidate_prior_transactions c') os ps') s)"
  using inplace unfolding apply_config_action_def list.case tag and_then_simps ms_load_mut_eq load prod.case
  by (auto simp: and_then_Inr Let_def)

text \<open>A configuration action that succeeds is one of three operations on the account, or an edit in place.\<close>

lemma config_action_cases [consumes 1]:
  assumes "apply_config_action rt multisig payer instr via s = Inr s'"
  obtains
    (close) payload where "instr = 6 # payload" "close_multisig rt multisig payer payload via s = Inr s'"
  | (add) payload where "instr = 0 # payload" "add_owner rt multisig payer payload s = Inr s'"
  | (remove) payload where "instr = 1 # payload" "remove_owner rt multisig payer payload s = Inr s'"
  | (edit) tag payload action c os ps c' ps' where "instr = tag # payload"
      "config_action_from_u8 tag = Inr action" "tag \<notin> {0, 1, 6}"
      "ms_load (ptr_of s multisig) (data_of s multisig) = Inr (c, os, ps)"
      "edit_config action c os ps payload = Inr (c', ps')" "ms_invariant (invalidate_prior_transactions c') = Inr ()"
      "s' = set_data multisig (ms_bytes (invalidate_prior_transactions c') os ps') s"
proof -
  obtain tag payload action where i: "instr = tag # payload" and action: "config_action_from_u8 tag = Inr action"
    using assms by (cases instr) (auto simp: apply_config_action_def and_then_Inr)
  note tags = config_action_tag [OF action]
  note run = assms [unfolded i apply_config_action_def list.case action and_then_simps]
  consider "action = CloseMultisig" | "action = AddOwner" | "action = RemoveOwner"
    | "action \<notin> {CloseMultisig, AddOwner, RemoveOwner}" by blast
  then show thesis
  proof cases
    case 1
    with run tags i show thesis by (intro that(1)) simp_all
  next
    case 2
    with run tags i show thesis by (intro that(2)) simp_all
  next
    case 3
    with run tags i show thesis by (intro that(3)) simp_all
  next
    case 4
    with run obtain c os ps c' ps' where e: "ms_load (ptr_of s multisig) (data_of s multisig) = Inr (c, os, ps)"
      "edit_config action c os ps payload = Inr (c', ps')" "ms_invariant (invalidate_prior_transactions c') = Inr ()"
      "s' = set_data multisig (ms_bytes (invalidate_prior_transactions c') os ps') s"
      unfolding ms_load_mut_eq by (auto simp: and_then_Inr Let_def)
    have "tag \<notin> {0, 1, 6}" using 4 tags by auto
    with that(4) [OF i action _ e] show thesis .
  qed
qed

lemma voter_count_update:
  "(if \<not> a \<and> b then ms\<lparr>ms_voter_count := ms_voter_count ms + 1\<rparr>
    else if a \<and> \<not> b then ms\<lparr>ms_voter_count := ms_voter_count ms - 1\<rparr> else ms)
   = ms\<lparr>ms_voter_count := (if \<not> a \<and> b then ms_voter_count ms + 1
       else if a \<and> \<not> b then ms_voter_count ms - 1 else ms_voter_count ms)\<rparr>"
  by (cases ms) auto

lemma set_permission_Inr:
  "set_permission c os ps payload = Inr (c', ps') \<longleftrightarrow>
     length payload = 33 \<and> payload ! 32 \<le> PERM_ALL \<and>
     (\<exists>i. is_owner os (new_from_array (take 32 payload)) = Some i \<and> i < length ps \<and>
        ps' = ps[i := payload ! 32] \<and>
        c' = c\<lparr>ms_voter_count :=
           (if \<not> mask_can_vote (ps ! i) \<and> mask_can_vote (payload ! 32) then ms_voter_count c + 1
            else if mask_can_vote (ps ! i) \<and> \<not> mask_can_vote (payload ! 32) then ms_voter_count c - 1
            else ms_voter_count c)\<rparr>)"
  unfolding set_permission_def payload_address_def Let_def voter_count_update and_then_Inr
    if_fail_eq_Inr ok_or_Inr index_of_Inr sum.inject prod.inject length_take
  by (auto simp only: not_less min.absorb2 order.refl if_True simp_thms; force)

lemma edit_config_wf:
  assumes wf: "ms_wf c os ps"
    and edit: "edit_config action c os ps payload = Inr (c', ps')"
    and inv: "ms_invariant (invalidate_prior_transactions c') = Inr ()"
  shows "ms_wf (invalidate_prior_transactions c') os ps' \<and>
     ms_owners_count c' = ms_owners_count c \<and> ms_transaction_index c' = ms_transaction_index c \<and>
     ms_closed_transaction_count c' = ms_closed_transaction_count c \<and>
     ms_create_key c' = ms_create_key c \<and> ms_bump c' = ms_bump c"
proof (cases "action = SetPermission")
  case False
  then show ?thesis
    using wf edit inv
    by (auto simp: edit_config_def change_threshold_def change_time_lock_def set_rent_collector_def
        payload_address_def and_then_Inr if_fail_eq_Inr ms_wf_def invalidate_prior_transactions_def
        split: config_action.splits)
next
  case True
  then have "set_permission c os ps payload = Inr (c', ps')" using edit by (simp add: edit_config_def)
  then obtain i where i: "i < length ps" "ps' = ps[i := payload ! 32]" "payload ! 32 \<le> PERM_ALL"
    and c': "c' = c\<lparr>ms_voter_count :=
           (if \<not> mask_can_vote (ps ! i) \<and> mask_can_vote (payload ! 32) then ms_voter_count c + 1
            else if mask_can_vote (ps ! i) \<and> \<not> mask_can_vote (payload ! 32) then ms_voter_count c - 1
            else ms_voter_count c)\<rparr>"
    unfolding set_permission_Inr by blast
  have w: "unat (ms_voter_count c) = voters ps" "\<forall>m \<in> set ps. m \<le> PERM_ALL" "voters ps \<le> MAX_OWNER"
    using wf by (auto simp: ms_wf_def ms_invariant_iff)
  have "unat (ms_voter_count c + 1) = Suc (voters ps)"
    using w by (subst unat_add_1_less [of _ 4097]) (simp_all add: MAX_OWNER_def)
  moreover have "unat (ms_voter_count c - 1) = voters ps - 1" if "voters ps \<noteq> 0"
    using w that by (subst unat_sub_1) auto
  moreover have "voters ps' + (if mask_can_vote (ps ! i) then 1 else 0)
      = voters ps + (if mask_can_vote (payload ! 32) then 1 else 0)"
    using length_filter_update [OF i(1), of mask_can_vote "payload ! 32"] by (simp add: voters_def i(2))
  ultimately have "unat (ms_voter_count c') = voters ps'"
    using w(1) by (auto simp: c' split: if_splits)
  moreover have "\<forall>m \<in> set ps'. m \<le> PERM_ALL"
    using w(2) i by (auto dest!: set_update_subset_insert [THEN subsetD])
  ultimately show ?thesis
    using wf inv i by (simp add: ms_wf_def invalidate_prior_transactions_def c')
qed

text \<open>C29: setting a permission rebinds exactly one existing owner's mask, to a known one, and the
  count of voters follows it whichever way the change goes.\<close>

theorem set_permission_correct:
  assumes load: "ms_load (ptr_of s multisig) (data_of s multisig) = Inr (c, os, ps)"
    and wf: "ms_wf c os ps"
    and run: "apply_config_action rt multisig payer (5 # payload) via s = Inr s'"
  shows "\<exists>c' ps'. s' = set_data multisig (ms_bytes c' os ps') s \<and> ms_wf c' os ps' \<and>
     new_from_array (take 32 payload) \<in> set os \<and> payload ! 32 \<le> PERM_ALL \<and>
     perm_map os ps' = (perm_map os ps)(new_from_array (take 32 payload) \<mapsto> payload ! 32) \<and>
     unat (ms_voter_count c') = voters ps' \<and>
     c' = c\<lparr>ms_voter_count := ms_voter_count c', ms_stale_transaction_index := ms_transaction_index c\<rparr>"
proof -
  have tag: "config_action_from_u8 5 = Inr SetPermission" by (simp add: config_action_from_u8_def)
  obtain c1 ps' where edit: "edit_config SetPermission c os ps payload = Inr (c1, ps')"
    and inv: "ms_invariant (invalidate_prior_transactions c1) = Inr ()"
    and s': "s' = set_data multisig (ms_bytes (invalidate_prior_transactions c1) os ps') s"
    using run apply_in_place [of 5 SetPermission s multisig c os ps rt payer payload via s'] tag load
    by auto
  have wf': "ms_wf (invalidate_prior_transactions c1) os ps'"
    using edit_config_wf [OF wf edit inv] by blast
  from edit obtain i where i: "is_owner os (new_from_array (take 32 payload)) = Some i"
      "ps' = ps[i := payload ! 32]" "payload ! 32 \<le> PERM_ALL"
    and c1: "c1 = c\<lparr>ms_voter_count := ms_voter_count c1\<rparr>"
    unfolding edit_config_def config_action.case set_permission_Inr by auto
  have o: "i < length os" "os ! i = new_from_array (take 32 payload)"
    using is_owner_nth [OF i(1)] by simp_all
  have "perm_map os ps' = (perm_map os ps)(new_from_array (take 32 payload) \<mapsto> payload ! 32)"
    using perm_map_update [of os ps i "payload ! 32"] wf o i(2) by (simp add: ms_wf_def ascending_distinct)
  moreover have "invalidate_prior_transactions c1 = c\<lparr>ms_voter_count := ms_voter_count c1,
      ms_stale_transaction_index := ms_transaction_index c\<rparr>"
    by (subst c1, subst (2) c1) (simp add: invalidate_prior_transactions_def)
  moreover have "unat (ms_voter_count (invalidate_prior_transactions c1)) = voters ps'"
    using wf' by (simp add: ms_wf_def)
  moreover have "new_from_array (take 32 payload) \<in> set os" using o by (metis nth_mem)
  ultimately show ?thesis
    using s' wf' i(3) by (intro exI [of _ "invalidate_prior_transactions c1"] exI [of _ ps']) simp
qed

text \<open>What the four actions that replace one field write.\<close>

definition edited_field :: "multisig \<Rightarrow> u8 \<Rightarrow> bytes \<Rightarrow> multisig" where
  "edited_field c tag payload =
     (if tag = 2 then c\<lparr>ms_threshold := from_le_bytes payload\<rparr>
      else if tag = 3 then c\<lparr>ms_time_lock := from_le_bytes payload\<rparr>
      else if tag = 4 then c\<lparr>ms_rent_collector := new_from_array payload\<rparr>
      else c\<lparr>ms_config_authority := new_from_array payload\<rparr>)"

lemma edit_field:
  assumes "config_action_from_u8 tag = Inr action" "tag \<in> {2, 3, 4, 7}"
    and edit: "edit_config action c os ps payload = Inr (c1, ps')"
  shows "ps' = ps \<and> length payload = (if tag \<in> {2, 3} then 4 else 32) \<and> c1 = edited_field c tag payload"
proof -
  consider "action = ChangeThreshold" "tag = 2" | "action = ChangeTimeLock" "tag = 3"
    | "action = SetRentCollector" "tag = 4" | "action = SetConfigAuthority" "tag = 7"
    using assms(1,2) by (auto simp: config_action_from_u8_def)
  then show ?thesis
    by cases (use edit in \<open>auto simp: edited_field_def edit_config_def change_threshold_def change_time_lock_def
        set_rent_collector_def payload_address_def and_then_Inr if_fail_eq_Inr\<close>)
qed

text \<open>C31: the four actions that replace one field replace exactly that field: the threshold, which
  must stay between one and the number of voters, the time lock, which must stay within its cap, the
  rent collector, or the config authority. Each makes every earlier proposal stale and keeps the
  configuration well formed.\<close>

theorem edit_field_correct:
  assumes load: "ms_load (ptr_of s multisig) (data_of s multisig) = Inr (c, os, ps)"
    and wf: "ms_wf c os ps"
    and run: "apply_config_action rt multisig payer (tag # payload) via s = Inr s'"
    and tag: "tag \<in> {2, 3, 4, 7}"
  shows "\<exists>c'. s' = set_data multisig (ms_bytes c' os ps) s \<and> ms_wf c' os ps \<and>
     ms_stale_transaction_index c' = ms_transaction_index c \<and>
     length payload = (if tag \<in> {2, 3} then 4 else 32) \<and>
     0 < unat (ms_threshold c') \<and> unat (ms_threshold c') \<le> voters ps \<and>
     ms_time_lock c' \<le> MAX_TIME_LOCK \<and>
     c' = (if tag = 2 then c\<lparr>ms_threshold := from_le_bytes payload,
                             ms_stale_transaction_index := ms_transaction_index c\<rparr>
           else if tag = 3 then c\<lparr>ms_time_lock := from_le_bytes payload,
                             ms_stale_transaction_index := ms_transaction_index c\<rparr>
           else if tag = 4 then c\<lparr>ms_rent_collector := new_from_array payload,
                             ms_stale_transaction_index := ms_transaction_index c\<rparr>
           else c\<lparr>ms_config_authority := new_from_array payload,
                  ms_stale_transaction_index := ms_transaction_index c\<rparr>)"
proof -
  from tag have "tag \<notin> {0, 1, 6}" by auto
  from run obtain action c1 ps' where action: "config_action_from_u8 tag = Inr action"
    and edit: "edit_config action c os ps payload = Inr (c1, ps')"
    and inv: "ms_invariant (invalidate_prior_transactions c1) = Inr ()"
    and s': "s' = set_data multisig (ms_bytes (invalidate_prior_transactions c1) os ps') s"
    by (cases rule: config_action_cases) (use tag load in auto)
  let ?c = "invalidate_prior_transactions c1"
  have wf': "ms_wf ?c os ps'" using edit_config_wf [OF wf edit inv] by blast
  then have "0 < unat (ms_threshold ?c)" "unat (ms_threshold ?c) \<le> voters ps'" "ms_time_lock ?c \<le> MAX_TIME_LOCK"
    by (auto simp: ms_wf_def ms_invariant_iff)
  moreover have "ms_transaction_index (edited_field c tag payload) = ms_transaction_index c"
    by (simp add: edited_field_def)
  ultimately show ?thesis
    using s' wf' edit_field [OF action tag edit] tag
    by (intro exI [of _ ?c]) (auto simp: edited_field_def invalidate_prior_transactions_def)
qed

lemma config_action_effect:
  assumes spec: "resize_spec rt" "transfer_spec rt"
    and load: "ms_load (ptr_of s multisig) (data_of s multisig) = Inr (c, os, ps)"
    and wf: "ms_wf c os ps"
    and run: "apply_config_action rt multisig payer (tag # payload) via s = Inr s'"
    and "tag \<noteq> 6"
  shows "\<exists>c' os' ps'. ms_load (ptr_of s' multisig) (data_of s' multisig) = Inr (c', os', ps') \<and>
     ms_wf c' os' ps' \<and> ms_stale_transaction_index c' = ms_transaction_index c \<and>
     ms_transaction_index c' = ms_transaction_index c \<and>
     ms_closed_transaction_count c' = ms_closed_transaction_count c \<and>
     ms_create_key c' = ms_create_key c \<and> ms_bump c' = ms_bump c"
  using run
proof (cases rule: config_action_cases)
  case (add payload')
  from add_owner_refines [OF spec load wf add(2)] show ?thesis by (auto simp: added_owner_def)
next
  case (remove payload')
  from remove_owner_refines [OF spec load wf remove(2)] show ?thesis by (auto simp: removed_owner_def)
next
  case (edit tag' payload' action c0 os0 ps0 c1 ps')
  then have e: "edit_config action c os ps payload' = Inr (c1, ps')" using load by simp
  have w: "ms_wf (invalidate_prior_transactions c1) os ps'"
      "ms_transaction_index c1 = ms_transaction_index c"
      "ms_closed_transaction_count c1 = ms_closed_transaction_count c"
      "ms_create_key c1 = ms_create_key c" "ms_bump c1 = ms_bump c"
    using edit_config_wf [OF wf e edit(6)] by auto
  then have "ms_load (ptr_of s' multisig) (data_of s' multisig) = Inr (invalidate_prior_transactions c1, os, ps')"
    using load edit(4,7) by (simp add: ms_load_Inr ms_wf_def)
  with w show ?thesis by (simp add: invalidate_prior_transactions_def)
qed (use \<open>tag \<noteq> 6\<close> in simp)

text \<open>C30: every configuration change but closing, whichever way it is asked for, leaves a
  well-formed configuration at the same address in which every proposal created so far is stale, and
  never touches the proposal counter, the closure counter or the seeds of the address.\<close>

theorem config_action_invalidates:
  assumes spec: "resize_spec rt" "transfer_spec rt"
    and load: "ms_load (ptr_of s multisig) (data_of s multisig) = Inr (c, os, ps)"
    and wf: "ms_wf c os ps"
    and run: "apply_config_action rt multisig payer (tag # payload) via s = Inr s'"
    and "tag \<noteq> 6"
  shows "\<exists>c' os' ps'. ms_load (ptr_of s' multisig) (data_of s' multisig) = Inr (c', os', ps') \<and>
     ms_wf c' os' ps' \<and> ms_stale_transaction_index c' = ms_transaction_index c \<and>
     ms_transaction_index c' = ms_transaction_index c \<and>
     ms_closed_transaction_count c' = ms_closed_transaction_count c \<and>
     ms_create_key c' = ms_create_key c \<and> ms_bump c' = ms_bump c"
  by (rule config_action_effect [OF assms])

section \<open>Closing the multisig\<close>

text \<open>C32: the configuration closes only when its count of closed proposals equals the number of proposals it has made or, when a
  proposal carries the action, falls short of it by exactly one; that these counts are true is
  C8, under the restrictions stated there. Every lamport goes to the caller's account, which must be the rent collector when one is
  set, and none is lost; the account is emptied and handed to the system program.\<close>

theorem close_multisig_correct:
  assumes spec: "close_spec rt"
    and load: "ms_load (ptr_of s multisig) (data_of s multisig) = Inr (c, os, ps)"
    and run: "apply_config_action rt multisig destination (6 # payload) via s = Inr s'"
    and differ: "v_address multisig \<noteq> v_address destination"
  shows "(if via then unat (ms_closed_transaction_count c) + 1 = unat (ms_transaction_index c)
          else ms_closed_transaction_count c = ms_transaction_index c) \<and>
     (ms_rent_collector c \<noteq> default_address \<longrightarrow> v_address destination = ms_rent_collector c) \<and>
     unat (lamports (account_of s' destination))
       = unat (lamports (account_of s destination)) + unat (lamports (account_of s multisig)) \<and>
     lamports (account_of s' multisig) = 0 \<and> data_of s' multisig = [] \<and>
     acc_owner (account_of s' multisig) = system_program \<and>
     (\<forall>a. a \<notin> {v_address multisig, v_address destination} \<longrightarrow> s' a = s a)"
proof -
  have "config_action_from_u8 6 = Inr CloseMultisig" by (simp add: config_action_from_u8_def)
  then have r: "close_multisig rt multisig destination payload via s = Inr s'"
    using run by (simp add: apply_config_action_def)
  then have clear: "if via then only_executing_transaction_open c else all_transactions_closed c"
    and dest: "ms_rent_collector c \<noteq> default_address \<longrightarrow> v_address destination = ms_rent_collector c"
    and cl: "close_buffer rt multisig destination s = Inr s'"
    unfolding close_multisig_def load close_buffer_def Let_def
    by (auto simp: and_then_Inr if_fail_eq_Inr check_Inr split: if_splits)
  have "if via then unat (ms_closed_transaction_count c) + 1 = unat (ms_transaction_index c)
        else ms_closed_transaction_count c = ms_transaction_index c"
    using clear checked_add_Some [of "ms_closed_transaction_count c" 1 "ms_transaction_index c"]
    by (cases via) (simp_all add: only_executing_transaction_open_def all_transactions_closed_def)
  then show ?thesis using dest close_buffer_effect [OF spec cl differ] by blast
qed

section \<open>The config authority\<close>

text \<open>Without a vote a configuration changes only on the signature of the config authority it
  names; on an autonomous multisig the instruction is always refused.\<close>

lemma set_config_authority_only:
  assumes load: "ms_load (ptr_of s multisig) (data_of s multisig) = Inr (c, os, ps)"
  shows "(\<forall>s'. process_set_config rt pid (authority # multisig # remaining) instr s = Inr s' \<longrightarrow>
       v_signer authority \<and> acc_owner (account_of s multisig) = pid \<and>
       ms_config_authority c \<noteq> default_address \<and> v_address authority = ms_config_authority c \<and>
       apply_config_action rt multisig authority instr False s = Inr s') \<and>
     (ms_config_authority c = default_address \<longrightarrow>
       (\<forall>s'. process_set_config rt pid (authority # multisig # remaining) instr s \<noteq> Inr s'))"
  unfolding process_set_config_def list.case load
  by (auto simp: and_then_Inr if_fail_eq_Inr check_Inr is_controlled_def)

section \<open>What a configuration change leaves alone\<close>

lemma close_multisig_run:
  assumes "close_multisig rt multisig destination payload via s = Inr s'"
  shows "close_buffer rt multisig destination s = Inr s'"
  using assms unfolding close_multisig_def close_buffer_def Let_def
  by (auto simp: and_then_Inr if_fail_eq_Inr)

lemma apply_config_action_frame:
  assumes spec: "resize_spec rt" "transfer_spec rt" "close_spec rt"
    and run: "apply_config_action rt multisig payer instr via s = Inr s'"
    and a: "a \<noteq> v_address multisig"
  shows "acc_data (s' a) = acc_data (s a) \<and> acc_owner (s' a) = acc_owner (s a) \<and> data_ptr (s' a) = data_ptr (s a)"
  using run
proof (cases rule: config_action_cases)
  case (close payload)
  from close_buffer_frame [OF spec(3) close_multisig_run [OF close(2)] a] show ?thesis .
next
  case (add payload)
  then obtain c os ps where "ms_load (ptr_of s multisig) (data_of s multisig) = Inr (c, os, ps)"
    by (auto simp: add_owner_def and_then_Inr)
  from add_owner_effect [OF spec(1,2) this add(2)] a show ?thesis by metis
next
  case (remove payload)
  then obtain c os ps where "ms_load (ptr_of s multisig) (data_of s multisig) = Inr (c, os, ps)"
    by (auto simp: remove_owner_def and_then_Inr)
  from remove_owner_effect [OF spec(1,2) this remove(2)] a show ?thesis by metis
next
  case (edit tag payload action c os ps c' ps')
  with a show ?thesis by simp
qed

section \<open>No panic\<close>

lemma edit_config_no_panic:
  assumes "ms_load p d = Inr (c, os, ps)" "action \<notin> {CloseMultisig, AddOwner, RemoveOwner}"
  shows "\<not> panics (edit_config action c os ps payload)"
proof -
  have "\<not> panics (index_of ps i)" if "is_owner os a = Some i" for a i
    using loaded_owner [OF assms(1) that] by simp
  then show ?thesis
    using assms(2)
    by (cases action) (auto simp: edit_config_def change_threshold_def change_time_lock_def
        set_rent_collector_def set_permission_def payload_address_def ok_or_Inr Let_def)
qed

lemma apply_config_action_no_panic:
  assumes rt: "runtime_no_panic rt" and spec: "resize_spec rt" "transfer_spec rt"
  shows "\<not> panics (apply_config_action rt multisig payer instr via s)"
proof -
  have "\<not> panics (close_multisig rt multisig payer payload via s)" for payload
    by (simp add: close_multisig_def Let_def runtime_no_panicD [OF rt])
  moreover have "\<not> panics (config_action_from_u8 tag)" for tag by (simp add: config_action_from_u8_def)
  ultimately show ?thesis
    unfolding apply_config_action_def Let_def ms_load_mut_eq
    by (intro no_panic_intros)
       (use add_owner_no_panic [OF rt spec] remove_owner_no_panic [OF rt] in
         \<open>auto dest: edit_config_no_panic\<close>)
qed

lemma set_config_no_panic:
  assumes "runtime_no_panic rt" "resize_spec rt" "transfer_spec rt"
  shows "\<not> panics (process_set_config rt pid accounts instr s)"
  unfolding process_set_config_def
  by (auto split: list.split simp: apply_config_action_no_panic [OF assms])

end
