(* ===== verification/Execute.thy ===== *)
theory Execute
  imports Message Config_Changes
begin

text \<open>
  Instruction 4, src/instruction/execute.rs: the guards, the check that the accounts are the keys the
  owners approved, lookup tables included, and the loop over the message's instructions. The
  message is read once, after the proposal is marked Executed: neither a config action nor a
  call into another program (\<open>invoke_spec\<close>) writes the proposal's data.
\<close>

definition MAX_CPI_ACCOUNTS :: nat where "MAX_CPI_ACCOUNTS = 32"

definition LOOKUP_TABLE_META_SIZE :: nat where "LOOKUP_TABLE_META_SIZE = 56"

definition LOOKUP_TABLE_DEACTIVATION_OFFSET :: nat where "LOOKUP_TABLE_DEACTIVATION_OFFSET = 4"

text \<open>The bytes of \<open>AddressLookupTab1e1111111111111111111111111\<close>.\<close>

definition ADDRESS_LOOKUP_TABLE_ID :: address where
  "ADDRESS_LOOKUP_TABLE_ID = new_from_array
     [2, 119, 166, 175, 151, 51, 155, 122, 200, 141, 24, 146, 201, 4, 70, 245,
      0, 2, 48, 146, 102, 246, 46, 83, 193, 24, 36, 73, 130, 0, 0, 0]"

section \<open>The guards\<close>

definition check_time_lock :: "runtime \<Rightarrow> u32 \<Rightarrow> transaction \<Rightarrow> unit result" where
  "check_time_lock rt time_lock state =
     (if 0 < time_lock
      then and_then (rt_clock rt) (\<lambda>now.
           and_then (ok_or Overflow (checked_sub_signed now (tx_approved_at state))) (\<lambda>elapsed.
           if sint elapsed < int (unat time_lock) then fail TimeLockNotReleased else Inr ()))
      else Inr ())"

text \<open>The first half of the handler, up to the point where the proposal is marked Executed: the new
  store, and the proposal's header.\<close>

definition begin_execution ::
  "runtime \<Rightarrow> address \<Rightarrow> view \<Rightarrow> view \<Rightarrow> view \<Rightarrow> bytes \<Rightarrow> store \<Rightarrow> (store \<times> transaction) result" where
  "begin_execution rt program_id executor multisig transaction instruction s =
     (if instruction \<noteq> [] then fail InvalidInstructionData
      else
        and_then (check_signer executor MissingSignature) (\<lambda>_.
        and_then (check_owner s multisig program_id IllegalOwner) (\<lambda>_.
        and_then (check_owner s transaction program_id IllegalOwner) (\<lambda>_.
        and_then (ms_load (ptr_of s multisig) (data_of s multisig)) (\<lambda>(ms, owners, permissions).
        and_then (has_permission owners permissions (v_address executor) EXECUTE) (\<lambda>permitted.
        if \<not> permitted then fail Unauthorized
        else
          and_then (tx_load_mut (ptr_of s transaction) (data_of s transaction))
            (\<lambda>(state, votes, message).
          and_then (validate_eq (tx_multisig state) (v_address multisig) MultisigMismatch) (\<lambda>_.
          and_then (status_from_u8 (tx_status state)) (\<lambda>status.
          if status \<noteq> Approved then fail InvalidStatus
          else
            and_then (check_time_lock rt (ms_time_lock ms) state) (\<lambda>_.
            let state = state\<lparr>tx_status := status_to_u8 Executed\<rparr> in
            and_then (tx_invariant state) (\<lambda>_.
            Inr (set_data transaction (tx_bytes state votes message) s, state))))))))))))"

section \<open>The accounts\<close>

fun check_static_keys :: "view list \<Rightarrow> nat \<Rightarrow> address list \<Rightarrow> unit result" where
  "check_static_keys views i [] = Inr ()"
| "check_static_keys views i (expected # keys) =
     and_then (index_of views i) (\<lambda>view.
     if v_address view \<noteq> expected then fail AccountMismatch else check_static_keys views (i + 1) keys)"

text \<open>One of the two index lists of a lookup; \<open>at\<close> is the position of the next resolved key.\<close>

fun resolve_indexes :: "view list \<Rightarrow> bytes \<Rightarrow> bytes \<Rightarrow> nat \<Rightarrow> nat result" where
  "resolve_indexes views addresses [] at = Inr at"
| "resolve_indexes views addresses (index # indexes) at =
     (if length addresses div 32 \<le> unat index then fail InvalidLookupTable
      else
        and_then (index_of views at) (\<lambda>view.
        if as_array (v_address view) \<noteq> slice (unat index * 32) 32 addresses then fail AccountMismatch
        else resolve_indexes views addresses indexes (at + 1)))"

definition resolve_lookup ::
  "store \<Rightarrow> view list \<Rightarrow> nat \<Rightarrow> message_lookup \<Rightarrow> nat \<times> nat \<times> nat \<Rightarrow> (nat \<times> nat \<times> nat) result" where
  "resolve_lookup s views num_all lookup = (\<lambda>(i, writable_at, readonly_at).
     and_then (index_of views (num_all + i)) (\<lambda>table.
     and_then (validate_eq (v_address table) (ml_account_key lookup) AccountMismatch) (\<lambda>_.
     and_then (validate_eq (acc_owner (account_of s table)) ADDRESS_LOOKUP_TABLE_ID IllegalOwner) (\<lambda>_.
     let table_data = data_of s table in
     if length table_data < LOOKUP_TABLE_META_SIZE then fail InvalidLookupTable
     else if (from_le_bytes (slice LOOKUP_TABLE_DEACTIVATION_OFFSET 8 table_data) :: u64) \<noteq> - 1
     then fail InvalidLookupTable
     else
       let addresses = drop LOOKUP_TABLE_META_SIZE table_data in
       and_then (resolve_indexes views addresses (ml_writable_indexes lookup) writable_at) (\<lambda>writable_at.
       and_then (resolve_indexes views addresses (ml_readonly_indexes lookup) readonly_at) (\<lambda>readonly_at.
       Inr (i + 1, writable_at, readonly_at)))))))"

definition check_accounts ::
  "store \<Rightarrow> view list \<Rightarrow> transaction_message \<Rightarrow> unit result" where
  "check_accounts s remaining message =
     (let num_static = unat (num_account_keys (tm_header message));
          num_all = tm_num_all_keys message in
      if length remaining < num_all then fail NotEnoughAccounts
      else
        and_then (check_static_keys remaining 0 (tm_account_keys message)) (\<lambda>_.
        if length remaining < num_all + unat (num_lookups (tm_header message))
        then fail NotEnoughAccounts
        else
          and_then (for_lookups (resolve_lookup s remaining num_all) (cursor_new (tm_lookups message))
              (0, num_static, num_static + tm_num_writable_lookup_keys message)) (\<lambda>_.
          Inr ())))"

section \<open>The instructions\<close>

text \<open>\<open>&signers[..1 + ephemeral_count]\<close>: the vault, then the ephemeral signers.\<close>

definition execute_signers :: "address \<Rightarrow> address \<Rightarrow> transaction \<Rightarrow> bytes list list result" where
  "execute_signers multisig_key transaction_key state =
     (let vault_seeds = [VAULT_SEED, as_array multisig_key, [tx_vault_index state], [tx_vault_bump state]];
          ephemeral_seeds = map (\<lambda>i. [EPHEMERAL_SEED, as_array transaction_key, [of_nat i],
              [bumps_list (tx_ephemeral_bumps state) ! i]]) [0..<MAX_EPHEMERAL_SIGNERS] in
      if unat (tx_ephemeral_count state) \<le> MAX_EPHEMERAL_SIGNERS
      then Inr (take (1 + unat (tx_ephemeral_count state)) (vault_seeds # ephemeral_seeds))
      else Inl Panicked)"

fun views_at :: "view list \<Rightarrow> nat list \<Rightarrow> view list result" where
  "views_at views [] = Inr []"
| "views_at views (k # ks) =
     and_then (index_of views k) (\<lambda>v. and_then (views_at views ks) (\<lambda>vs. Inr (v # vs)))"

text \<open>The arrays have \<open>MAX_CPI_ACCOUNTS\<close> entries, filled up with the first view; only the first
  \<open>account_count\<close> are passed on.\<close>

definition execute_instruction ::
  "runtime \<Rightarrow> address \<Rightarrow> view \<Rightarrow> view \<Rightarrow> view list \<Rightarrow> transaction_message \<Rightarrow> bytes list list \<Rightarrow>
   compiled_instruction \<Rightarrow> store \<Rightarrow> store result" where
  "execute_instruction rt program_id executor multisig views message signers compiled s =
     (let account_count = length (ci_account_indexes compiled) in
      if MAX_CPI_ACCOUNTS < account_count then fail TooManyAccounts
      else
        and_then (index_of views (unat (ci_program_id_index compiled))) (\<lambda>program.
        if v_address program = program_id
        then apply_config_action rt multisig executor (ci_data compiled) True s
        else
          let key_indexes = map (\<lambda>i. if i < account_count then unat (ci_account_indexes compiled ! i) else 0)
                [0..<MAX_CPI_ACCOUNTS] in
          and_then (views_at views key_indexes) (\<lambda>cpi_views.
          let metas = map2 (\<lambda>k v. (v_address v, message_is_writable message k, message_is_signer message k))
                key_indexes cpi_views;
              ix = \<lparr>cpi_program = v_address program, cpi_metas = take account_count metas,
                    cpi_data = ci_data compiled\<rparr> in
          rt_invoke rt ix (take account_count cpi_views) signers s)))"

definition process_execute ::
  "runtime \<Rightarrow> address \<Rightarrow> view list \<Rightarrow> bytes \<Rightarrow> store \<Rightarrow> store result" where
  "process_execute rt program_id accounts instruction s =
     (case accounts of
        executor # multisig # transaction # remaining \<Rightarrow>
          and_then (begin_execution rt program_id executor multisig transaction instruction s)
            (\<lambda>(s, state).
          and_then (tx_load (ptr_of s transaction) (data_of s transaction)) (\<lambda>(_, _, stored_message).
          and_then (parse stored_message) (\<lambda>message.
          and_then (check_accounts s remaining message) (\<lambda>_.
          and_then (execute_signers (v_address multisig) (v_address transaction) state) (\<lambda>signers.
          for_instructions
            (execute_instruction rt program_id executor multisig remaining message signers)
            (cursor_new (tm_instructions message)) s)))))
      | _ \<Rightarrow> fail NotEnoughAccounts)"

section \<open>What the guards require\<close>

lemma check_time_lock_Inr:
  "check_time_lock rt time_lock state = Inr u \<longleftrightarrow>
     (time_lock = 0 \<or> (\<exists>now. rt_clock rt = Inr now \<and>
        (\<exists>elapsed. checked_sub_signed now (tx_approved_at state) = Some elapsed \<and>
           int (unat time_lock) \<le> sint elapsed)))"
  by (auto simp: check_time_lock_def and_then_Inr ok_or_Inr not_less word_neq_0_conv split: if_splits)

lemma checked_sub_signed_Some:
  fixes a b d :: "'a::len word"
  assumes "checked_sub_signed a b = Some d"
  shows "sint d = sint a - sint b"
proof -
  have r: "- (2 ^ (LENGTH('a) - 1)) \<le> sint a - sint b" "sint a - sint b < 2 ^ (LENGTH('a) - 1)"
    and d: "d = a - b"
    using assms by (auto simp: checked_sub_signed_def Let_def split: if_splits)
  have "d = word_of_int (sint a - sint b)" by (simp add: d)
  then have "sint d = signed_take_bit (LENGTH('a) - Suc 0) (sint a - sint b)"
    by (simp only: signed_of_int of_int_eq_id id_apply)
  also have "\<dots> = sint a - sint b"
    using r by (intro signed_take_bit_int_eq_self) simp_all
  finally show ?thesis .
qed

lemma begin_execution_Inr:
  assumes "begin_execution rt pid executor multisig transaction instr s = Inr (s1, h')"
  obtains c os ps h v m where
    "instr = []" "v_signer executor" "acc_owner (account_of s multisig) = pid"
    "acc_owner (account_of s transaction) = pid"
    "ms_load (ptr_of s multisig) (data_of s multisig) = Inr (c, os, ps)"
    "has_permission os ps (v_address executor) EXECUTE = Inr True"
    "tx_load (ptr_of s transaction) (data_of s transaction) = Inr (h, v, m)"
    "tx_multisig h = v_address multisig" "tx_status h = status_to_u8 Approved"
    "ms_time_lock c = 0 \<or> (\<exists>now. rt_clock rt = Inr now \<and>
       int (unat (ms_time_lock c)) \<le> sint now - sint (tx_approved_at h))"
    "h' = h\<lparr>tx_status := status_to_u8 Executed\<rparr>" "tx_invariant h' = Inr ()"
    "s1 = set_data transaction (tx_bytes h' v m) s"
proof -
  from assms obtain c os ps permitted h v m st where
      "instr = []" "v_signer executor" "acc_owner (account_of s multisig) = pid"
      "acc_owner (account_of s transaction) = pid"
    and l: "ms_load (ptr_of s multisig) (data_of s multisig) = Inr (c, os, ps)"
    and p: "has_permission os ps (v_address executor) EXECUTE = Inr permitted" "permitted"
    and t: "tx_load (ptr_of s transaction) (data_of s transaction) = Inr (h, v, m)"
      "tx_multisig h = v_address multisig" "status_from_u8 (tx_status h) = Inr st" "st = Approved"
    and time: "check_time_lock rt (ms_time_lock c) h = Inr ()"
    and inv: "tx_invariant (h\<lparr>tx_status := status_to_u8 Executed\<rparr>) = Inr ()"
    and s1: "set_data transaction (tx_bytes (h\<lparr>tx_status := status_to_u8 Executed\<rparr>) v m) s = s1"
      "h\<lparr>tx_status := status_to_u8 Executed\<rparr> = h'"
    unfolding begin_execution_def tx_load_mut_eq handler_steps unit_eq prod.inject
    by (elim exE conjE) (rule that)
  moreover have "ms_time_lock c = 0 \<or> (\<exists>now. rt_clock rt = Inr now \<and>
       int (unat (ms_time_lock c)) \<le> sint now - sint (tx_approved_at h))"
    using time checked_sub_signed_Some unfolding check_time_lock_Inr by metis
  moreover have "tx_status h = status_to_u8 Approved" using t(3,4) by (simp add: status_from_u8_Inr)
  ultimately show thesis by (intro that [of c os ps h v m]) simp_all
qed

section \<open>The accounts are the keys the owners approved\<close>

text \<open>What a lookup's index names: an entry of the table's address list, in the table's data.\<close>

definition resolved_key :: "store \<Rightarrow> message_lookup \<Rightarrow> u8 \<Rightarrow> address" where
  "resolved_key s l index = new_from_array
     (slice (unat index * 32) 32 (drop LOOKUP_TABLE_META_SIZE (acc_data (s (ml_account_key l)))))"

text \<open>All keys of a message in the order of its indexes: the static ones, then the writable and then
  the readonly ones of all lookups.\<close>

definition approved_keys :: "store \<Rightarrow> address list \<Rightarrow> message_lookup list \<Rightarrow> address list" where
  "approved_keys s keys lks =
     keys @ concat (map (\<lambda>l. map (resolved_key s l) (ml_writable_indexes l)) lks) @
     concat (map (\<lambda>l. map (resolved_key s l) (ml_readonly_indexes l)) lks)"

definition readonly_lookup_keys :: "message_lookup list \<Rightarrow> nat" where
  "readonly_lookup_keys lks = sum_list (map (\<lambda>l. length (ml_readonly_indexes l)) lks)"

lemma lookup_keys_split: "lookup_keys lks = writable_lookup_keys lks + readonly_lookup_keys lks"
  by (simp add: lookup_keys_def writable_lookup_keys_def readonly_lookup_keys_def sum_list_addf)

lemma map_slice_Suc:
  "i < length xs \<Longrightarrow> map f (slice i (Suc n) xs) = f (xs ! i) # map f (slice (Suc i) n xs)"
  by (simp add: slice_def flip: Cons_nth_drop_Suc)

lemma check_static_keys_Inr:
  "i + length keys \<le> length views \<Longrightarrow>
   check_static_keys views i keys = Inr () \<longleftrightarrow> map v_address (slice i (length keys) views) = keys"
proof (induction keys arbitrary: i)
  case Nil
  then show ?case by (simp add: slice_def)
next
  case (Cons k keys)
  then have "i < length views" by simp
  with Cons.IH [of "Suc i"] Cons.prems show ?case
    by (auto simp: map_slice_Suc)
qed

lemma slice_32: "i < length xs div 32 \<Longrightarrow> length (slice (i * 32) 32 xs) = 32"
proof -
  assume "i < length xs div 32"
  then have "i * 32 + 32 \<le> length xs" by linarith
  then show ?thesis by simp
qed

lemma as_array_eq_iff: "length bs = 32 \<Longrightarrow> as_array a = bs \<longleftrightarrow> a = new_from_array bs"
  by (metis as_array_new_from_array new_from_array_as_array)

lemma resolve_indexes_iff:
  "at + length indexes \<le> length views \<Longrightarrow>
   resolve_indexes views addresses indexes at = Inr at' \<longleftrightarrow>
   at' = at + length indexes \<and> (\<forall>i \<in> set indexes. unat i < length addresses div 32) \<and>
   map v_address (slice at (length indexes) views)
     = map (\<lambda>i. new_from_array (slice (unat i * 32) 32 addresses)) indexes"
proof (induction indexes arbitrary: at)
  case Nil
  then show ?case by (auto simp: slice_def)
next
  case (Cons i indexes)
  then have l: "at < length views" by simp
  have "resolve_indexes views addresses (i # indexes) at = Inr at' \<longleftrightarrow>
      unat i < length addresses div 32 \<and>
      v_address (views ! at) = new_from_array (slice (unat i * 32) 32 addresses) \<and>
      resolve_indexes views addresses indexes (Suc at) = Inr at'"
    using l by (auto simp: not_le as_array_eq_iff slice_32 if_fail_eq_Inr)
  with Cons.IH [of "Suc at"] Cons.prems l show ?case by (auto simp: map_slice_Suc)
qed

text \<open>A lookup's table is one of the lookup table program, not deactivated, and has an entry at each
  index the lookup names.\<close>

definition table_serves :: "store \<Rightarrow> message_lookup \<Rightarrow> bool" where
  "table_serves s l \<longleftrightarrow>
     (let table_data = acc_data (s (ml_account_key l)) in
      acc_owner (s (ml_account_key l)) = ADDRESS_LOOKUP_TABLE_ID \<and>
      LOOKUP_TABLE_META_SIZE \<le> length table_data \<and>
      (from_le_bytes (slice LOOKUP_TABLE_DEACTIVATION_OFFSET 8 table_data) :: u64) = - 1 \<and>
      (\<forall>i \<in> set (ml_writable_indexes l) \<union> set (ml_readonly_indexes l).
         unat i < (length table_data - LOOKUP_TABLE_META_SIZE) div 32))"

text \<open>Resolving accepts exactly the views that are the entries of tables that serve the lookups.\<close>

lemma resolve_lookup_iff:
  assumes "num_all + i < length views"
    and "w + length (ml_writable_indexes l) \<le> length views"
    and "r + length (ml_readonly_indexes l) \<le> length views"
  shows "resolve_lookup s views num_all l (i, w, r) = Inr out \<longleftrightarrow>
     out = (i + 1, w + length (ml_writable_indexes l), r + length (ml_readonly_indexes l)) \<and>
     v_address (views ! (num_all + i)) = ml_account_key l \<and> table_serves s l \<and>
     map v_address (slice w (length (ml_writable_indexes l)) views)
       = map (resolved_key s l) (ml_writable_indexes l) \<and>
     map v_address (slice r (length (ml_readonly_indexes l)) views)
       = map (resolved_key s l) (ml_readonly_indexes l)"
proof (cases "v_address (views ! (num_all + i)) = ml_account_key l")
  case True
  then show ?thesis
    using assms(1)
    unfolding resolve_lookup_def prod.case handler_steps resolve_indexes_iff [OF assms(2)]
      resolve_indexes_iff [OF assms(3)]
    by (auto simp: table_serves_def Let_def resolved_key_def [abs_def])
next
  case False
  with assms(1) show ?thesis by (auto simp: resolve_lookup_def and_then_Inr check_Inr)
qed

lemma resolve_lookups_iff:
  "num_all + i + length lks \<le> length views \<Longrightarrow>
   w + writable_lookup_keys lks \<le> length views \<Longrightarrow> r + readonly_lookup_keys lks \<le> length views \<Longrightarrow>
   (\<exists>out. fold_result (resolve_lookup s views num_all) lks (i, w, r) = Inr out) \<longleftrightarrow>
   map v_address (slice (num_all + i) (length lks) views) = map ml_account_key lks \<and>
   (\<forall>l \<in> set lks. table_serves s l) \<and>
   map v_address (slice w (writable_lookup_keys lks) views)
     = concat (map (\<lambda>l. map (resolved_key s l) (ml_writable_indexes l)) lks) \<and>
   map v_address (slice r (readonly_lookup_keys lks) views)
     = concat (map (\<lambda>l. map (resolved_key s l) (ml_readonly_indexes l)) lks)"
proof (induction lks arbitrary: i w r)
  case Nil
  then show ?case by (simp add: writable_lookup_keys_def readonly_lookup_keys_def slice_def)
next
  case (Cons l lks)
  let ?wn = "length (ml_writable_indexes l)" and ?rn = "length (ml_readonly_indexes l)"
  let ?w = "writable_lookup_keys lks" and ?r = "readonly_lookup_keys lks"
  have sums: "writable_lookup_keys (l # lks) = ?wn + ?w" "readonly_lookup_keys (l # lks) = ?rn + ?r"
    by (simp_all add: writable_lookup_keys_def readonly_lookup_keys_def)
  have fits: "num_all + i < length views" "w + ?wn \<le> length views" "r + ?rn \<le> length views"
    using Cons.prems sums by simp_all
  have cut: "(map v_address (slice w (?wn + ?w) views) = xs @ ys) \<longleftrightarrow>
      map v_address (slice w ?wn views) = xs \<and> map v_address (slice (w + ?wn) ?w views) = ys"
    if "length xs = ?wn" for xs ys
    using that fits(2) by (subst slice_append_slice [symmetric]) (auto simp: append_eq_append_conv)
  have cut': "(map v_address (slice r (?rn + ?r) views) = xs @ ys) \<longleftrightarrow>
      map v_address (slice r ?rn views) = xs \<and> map v_address (slice (r + ?rn) ?r views) = ys"
    if "length xs = ?rn" for xs ys
    using that fits(3) by (subst slice_append_slice [symmetric]) (auto simp: append_eq_append_conv)
  have "(\<exists>out. fold_result (resolve_lookup s views num_all) (l # lks) (i, w, r) = Inr out) \<longleftrightarrow>
     (v_address (views ! (num_all + i)) = ml_account_key l \<and> table_serves s l \<and>
      map v_address (slice w ?wn views) = map (resolved_key s l) (ml_writable_indexes l) \<and>
      map v_address (slice r ?rn views) = map (resolved_key s l) (ml_readonly_indexes l)) \<and>
     (\<exists>out. fold_result (resolve_lookup s views num_all) lks (i + 1, w + ?wn, r + ?rn) = Inr out)"
    by (auto simp: and_then_Inr resolve_lookup_iff [OF fits])
  then show ?case
    using Cons.prems sums fits(1)
    by (subst (asm) Cons.IH) (auto simp: cut cut' map_slice_Suc)
qed

lemma check_accounts_iff:
  assumes ok: "message_ok h keys ixs lks"
  shows "check_accounts s remaining (message_of h keys ixs lks) = Inr () \<longleftrightarrow>
     length keys + lookup_keys lks + length lks \<le> length remaining \<and>
     map v_address (take (length keys + lookup_keys lks) remaining) = approved_keys s keys lks \<and>
     map v_address (slice (length keys + lookup_keys lks) (length lks) remaining) = map ml_account_key lks \<and>
     (\<forall>l \<in> set lks. table_serves s l)"
proof (cases "length keys + lookup_keys lks + length lks \<le> length remaining")
  case len: True
  let ?n = "length keys" and ?w = "writable_lookup_keys lks" and ?r = "readonly_lookup_keys lks"
  let ?ws = "concat (map (\<lambda>l. map (resolved_key s l) (ml_writable_indexes l)) lks)"
  let ?rs = "concat (map (\<lambda>l. map (resolved_key s l) (ml_readonly_indexes l)) lks)"
  have h: "unat (num_account_keys h) = ?n" "unat (num_lookups h) = length lks" "list_all lookup_fits lks"
    using ok by (simp_all add: message_ok_def)
  have m: "tm_header (message_of h keys ixs lks) = h" "tm_account_keys (message_of h keys ixs lks) = keys"
    "tm_num_all_keys (message_of h keys ixs lks) = ?n + lookup_keys lks"
    "tm_num_writable_lookup_keys (message_of h keys ixs lks) = ?w"
    "tm_lookups (message_of h keys ixs lks) = encode_array encode_lookup lks"
    by (simp_all add: message_of_def)
  have fits: "?n + lookup_keys lks + 0 + length lks \<le> length remaining" "?n + ?w \<le> length remaining"
    "?n + ?w + ?r \<le> length remaining"
    using len by (simp_all add: lookup_keys_split)
  have lens: "length ?ws = ?w" "length ?rs = ?r"
    by (simp_all add: length_concat comp_def writable_lookup_keys_def readonly_lookup_keys_def)
  have cut: "take (?n + lookup_keys lks) remaining
      = slice 0 ?n remaining @ slice ?n ?w remaining @ slice (?n + ?w) ?r remaining"
    by (simp add: slice_join lookup_keys_split add.assoc) (simp add: slice_def)
  have keys: "map v_address (take (?n + lookup_keys lks) remaining) = approved_keys s keys lks \<longleftrightarrow>
      map v_address (slice 0 ?n remaining) = keys \<and> map v_address (slice ?n ?w remaining) = ?ws \<and>
      map v_address (slice (?n + ?w) ?r remaining) = ?rs"
    using lens fits unfolding cut approved_keys_def map_append by (simp add: append_eq_append_conv)
  have "check_accounts s remaining (message_of h keys ixs lks) = Inr () \<longleftrightarrow>
      check_static_keys remaining 0 keys = Inr () \<and>
      (\<exists>out. fold_result (resolve_lookup s remaining (?n + lookup_keys lks)) lks (0, ?n, ?n + ?w) = Inr out)"
    using len unfolding check_accounts_def Let_def m h
    by (auto simp: and_then_Inr if_fail_eq_Inr lks.loop_new [OF h(3)])
  also have "\<dots> \<longleftrightarrow> map v_address (take (?n + lookup_keys lks) remaining) = approved_keys s keys lks \<and>
     map v_address (slice (?n + lookup_keys lks) (length lks) remaining) = map ml_account_key lks \<and>
     (\<forall>l \<in> set lks. table_serves s l)"
    using resolve_lookups_iff [OF fits, of s] check_static_keys_Inr [of 0 keys remaining] len
    unfolding keys by auto
  finally show ?thesis using len by simp
next
  case False
  then show ?thesis
    using ok unfolding check_accounts_def Let_def
    by (auto simp: message_of_def message_ok_def and_then_Inr if_fail_eq_Inr)
qed

section \<open>The loop over the instructions\<close>

lemma execute_instruction_frame:
  assumes spec: "resize_spec rt" "transfer_spec rt" "close_spec rt" "invoke_spec pid rt"
    and run: "execute_instruction rt pid executor multisig views m signers compiled s = Inr s'"
    and a: "a \<noteq> v_address multisig" "acc_owner (s a) = pid"
  shows "acc_data (s' a) = acc_data (s a) \<and> acc_owner (s' a) = pid \<and> data_ptr (s' a) = data_ptr (s a)"
proof -
  from run consider (config) "apply_config_action rt multisig executor (ci_data compiled) True s = Inr s'"
    | (cpi) ix vs where "rt_invoke rt ix vs signers s = Inr s'"
    by (auto simp: execute_instruction_def Let_def and_then_Inr if_fail_eq_Inr split: if_splits)
  then show ?thesis
  proof cases
    case config
    with apply_config_action_frame [OF spec(1-3) config a(1)] a(2) show ?thesis by simp
  next
    case cpi
    with spec(4) a(2) show ?thesis unfolding invoke_spec_def by blast
  qed
qed

lemma execute_loop_frame:
  assumes spec: "resize_spec rt" "transfer_spec rt" "close_spec rt" "invoke_spec pid rt"
    and run: "fold_result (execute_instruction rt pid executor multisig views m signers) ixs s = Inr s'"
    and a: "a \<noteq> v_address multisig" "acc_owner (s a) = pid"
  shows "acc_data (s' a) = acc_data (s a) \<and> acc_owner (s' a) = pid \<and> data_ptr (s' a) = data_ptr (s a)"
proof -
  let ?P = "\<lambda>t. acc_data (t a) = acc_data (s a) \<and> acc_owner (t a) = pid \<and> data_ptr (t a) = data_ptr (s a)"
  have "?P s'"
  proof (rule fold_result_invariant [OF run, of ?P])
    show "?P s" using a by simp
    show "?P u" if "x \<in> set ixs" "?P t"
      "execute_instruction rt pid executor multisig views m signers x t = Inr u" for x t u
      using execute_instruction_frame [OF spec that(3) a(1)] that(2) by simp
  qed
  then show ?thesis .
qed

lemma execute_run:
  assumes run: "process_execute rt pid (executor # multisig # transaction # remaining) instr s = Inr s'"
  obtains c os ps h v m s1 hd keys ixs lks signers where
    "v_signer executor" "acc_owner (account_of s multisig) = pid" "acc_owner (account_of s transaction) = pid"
    "ms_load (ptr_of s multisig) (data_of s multisig) = Inr (c, os, ps)"
    "has_permission os ps (v_address executor) EXECUTE = Inr True"
    "tx_load (ptr_of s transaction) (data_of s transaction) = Inr (h, v, m)"
    "tx_multisig h = v_address multisig" "tx_status h = status_to_u8 Approved"
    "ms_time_lock c = 0 \<or> (\<exists>now. rt_clock rt = Inr now \<and>
       int (unat (ms_time_lock c)) \<le> sint now - sint (tx_approved_at h))"
    "s1 = set_data transaction (tx_bytes (h\<lparr>tx_status := status_to_u8 Executed\<rparr>) v m) s"
    "m = encode_message hd keys ixs lks" "message_ok hd keys ixs lks"
    "check_accounts s1 remaining (message_of hd keys ixs lks) = Inr ()"
    "execute_signers (v_address multisig) (v_address transaction)
       (h\<lparr>tx_status := status_to_u8 Executed\<rparr>) = Inr signers"
    "fold_result (execute_instruction rt pid executor multisig remaining
       (message_of hd keys ixs lks) signers) ixs s1 = Inr s'"
proof -
  from run obtain s1 h' x y stored msg signers where
      b: "begin_execution rt pid executor multisig transaction instr s = Inr (s1, h')"
    and l: "tx_load (ptr_of s1 transaction) (data_of s1 transaction) = Inr (x, y, stored)"
    and p: "parse stored = Inr msg"
    and acc: "check_accounts s1 remaining msg = Inr ()"
    and sg: "execute_signers (v_address multisig) (v_address transaction) h' = Inr signers"
    and loop: "for_instructions (execute_instruction rt pid executor multisig remaining msg signers)
          (cursor_new (tm_instructions msg)) s1 = Inr s'"
    unfolding process_execute_def list.case handler_steps unit_eq by (elim exE conjE) (rule that)
  from p obtain hd keys ixs lks where e: "stored = encode_message hd keys ixs lks"
      "message_ok hd keys ixs lks" "msg = message_of hd keys ixs lks"
    unfolding parse_iff by blast
  have "list_all instruction_fits ixs" using e(2) by (simp add: message_ok_def)
  then have fold: "fold_result (execute_instruction rt pid executor multisig remaining msg signers) ixs s1 = Inr s'"
    using loop unfolding e(3) by (simp add: ixs.loop_new message_of_def)
  from begin_execution_Inr [OF b] obtain c os ps h v m where
    g: "v_signer executor" "acc_owner (account_of s multisig) = pid"
    "acc_owner (account_of s transaction) = pid"
    "ms_load (ptr_of s multisig) (data_of s multisig) = Inr (c, os, ps)"
    "has_permission os ps (v_address executor) EXECUTE = Inr True"
    "tx_load (ptr_of s transaction) (data_of s transaction) = Inr (h, v, m)"
    "tx_multisig h = v_address multisig" "tx_status h = status_to_u8 Approved"
    "ms_time_lock c = 0 \<or> (\<exists>now. rt_clock rt = Inr now \<and>
       int (unat (ms_time_lock c)) \<le> sint now - sint (tx_approved_at h))"
    and h': "h' = h\<lparr>tx_status := status_to_u8 Executed\<rparr>"
    and s1: "s1 = set_data transaction (tx_bytes h' v m) s"
    by metis
  have "tx_load (ptr_of s1 transaction) (data_of s1 transaction) = Inr (h', v, m)"
    using g(6) by (simp add: s1 h' tx_load_Inr votes_fit_def)
  then have "stored = m" using l by simp
  with g s1 e acc sg fold show thesis
    unfolding h' by (intro that [of c os ps h v m s1 hd keys ixs lks signers]) simp_all
qed

section \<open>Properties\<close>

text \<open>C3: execution succeeds only when a signing owner with the execute permission asks for it on an
  Approved proposal of this multisig whose time lock, if there is one, has run out since the approval;
  and then every account the inner instructions can name is the key the owners approved at that index,
  the lookup tables' entries included, in live tables of the lookup table program.\<close>

theorem execute_only_approved:
  assumes "process_execute rt pid (executor # multisig # transaction # remaining) instr s = Inr s'"
  shows "\<exists>c os ps h v m hd keys ixs lks s1.
     v_signer executor \<and> acc_owner (account_of s multisig) = pid \<and>
     acc_owner (account_of s transaction) = pid \<and>
     ms_load (ptr_of s multisig) (data_of s multisig) = Inr (c, os, ps) \<and>
     (\<exists>i. is_owner os (v_address executor) = Some i \<and> (ps ! i = 0 \<or> ps ! i AND EXECUTE \<noteq> 0)) \<and>
     tx_load (ptr_of s transaction) (data_of s transaction) = Inr (h, v, m) \<and>
     tx_multisig h = v_address multisig \<and> tx_status h = status_to_u8 Approved \<and>
     (ms_time_lock c = 0 \<or> (\<exists>now. rt_clock rt = Inr now \<and>
        int (unat (ms_time_lock c)) \<le> sint now - sint (tx_approved_at h))) \<and>
     m = encode_message hd keys ixs lks \<and> message_ok hd keys ixs lks \<and>
     s1 = set_data transaction (tx_bytes (h\<lparr>tx_status := status_to_u8 Executed\<rparr>) v m) s \<and>
     map v_address (take (length keys + lookup_keys lks) remaining) = approved_keys s1 keys lks \<and>
     (\<forall>l \<in> set lks. table_serves s1 l)"
  apply (rule execute_run [OF assms])
  subgoal for c os ps h v m s1 hd keys ixs lks signers
    using check_accounts_iff [of hd keys ixs lks s1 remaining]
    by (intro exI [of _ c] exI [of _ os] exI [of _ ps] exI [of _ h] exI [of _ v] exI [of _ m]
        exI [of _ hd] exI [of _ keys] exI [of _ ixs] exI [of _ lks] exI [of _ s1])
       (auto simp: has_permission_True)
  done

text \<open>The proposal is marked Executed before its first inner instruction runs and stays so through every
  prefix of them, whatever the programs called do.\<close>

lemma execution_marked:
  assumes spec: "resize_spec rt" "transfer_spec rt" "close_spec rt" "invoke_spec pid rt"
    and run: "process_execute rt pid (executor # multisig # transaction # remaining) instr s = Inr s'"
    and differ: "v_address transaction \<noteq> v_address multisig"
  obtains h v m hd keys ixs lks signers s1 where
    "s1 = set_data transaction (tx_bytes h v m) s" "tx_status h = status_to_u8 Executed"
    "m = encode_message hd keys ixs lks"
    "fold_result (execute_instruction rt pid executor multisig remaining
       (message_of hd keys ixs lks) signers) ixs s1 = Inr s'"
    "\<forall>k t. fold_result (execute_instruction rt pid executor multisig remaining
       (message_of hd keys ixs lks) signers) (take k ixs) s1 = Inr t \<longrightarrow> data_of t transaction = tx_bytes h v m"
    "tx_load (ptr_of s' transaction) (data_of s' transaction) = Inr (h, v, m)"
    "acc_owner (account_of s' transaction) = pid"
proof -
  obtain c os ps h v m s1 hd keys ixs lks signers where
      own: "acc_owner (account_of s transaction) = pid"
    and load: "tx_load (ptr_of s transaction) (data_of s transaction) = Inr (h, v, m)"
    and s1: "s1 = set_data transaction (tx_bytes (h\<lparr>tx_status := status_to_u8 Executed\<rparr>) v m) s"
    and m: "m = encode_message hd keys ixs lks"
    and fold: "fold_result (execute_instruction rt pid executor multisig remaining
       (message_of hd keys ixs lks) signers) ixs s1 = Inr s'"
    by (rule execute_run [OF run]) blast
  let ?h = "h\<lparr>tx_status := status_to_u8 Executed\<rparr>"
  have own1: "acc_owner (account_of s1 transaction) = pid" using own by (simp add: s1)
  have prefix: "data_of t transaction = tx_bytes ?h v m \<and> acc_owner (account_of t transaction) = pid \<and>
      ptr_of t transaction = ptr_of s transaction"
    if "fold_result (execute_instruction rt pid executor multisig remaining
         (message_of hd keys ixs lks) signers) (take k ixs) s1 = Inr t" for k t
    using execute_loop_frame [OF spec that differ own1] by (simp add: s1)
  have fin: "data_of s' transaction = tx_bytes ?h v m" "ptr_of s' transaction = ptr_of s transaction"
    "acc_owner (account_of s' transaction) = pid"
    using prefix [of "length ixs" s'] fold by simp_all
  have load': "tx_load (ptr_of s' transaction) (data_of s' transaction) = Inr (?h, v, m)"
    using load by (simp add: fin(1,2) tx_load_Inr votes_fit_def)
  show thesis
    by (rule that [of s1 ?h v m hd keys ixs lks signers]) (use s1 m fold prefix load' fin(3) in simp_all)
qed

section \<open>One instruction\<close>

lemma views_at_nth: "\<forall>k \<in> set ks. k < length views \<Longrightarrow> views_at views ks = Inr (map ((!) views) ks)"
  by (induction ks) (auto simp: index_of_def)

lemma execute_instruction_eq:
  assumes few: "length (ci_account_indexes ix) \<le> MAX_CPI_ACCOUNTS"
    and ok: "unat (ci_program_id_index ix) < length views"
      "\<forall>i \<in> set (ci_account_indexes ix). unat i < length views"
  shows "execute_instruction rt pid executor multisig views m signers ix s =
    (let program = v_address (views ! unat (ci_program_id_index ix)) in
     if program = pid then apply_config_action rt multisig executor (ci_data ix) True s
     else rt_invoke rt
       \<lparr>cpi_program = program,
        cpi_metas = map (\<lambda>i. (v_address (views ! unat i), message_is_writable m (unat i), message_is_signer m (unat i)))
          (ci_account_indexes ix),
        cpi_data = ci_data ix\<rparr>
       (map (\<lambda>i. views ! unat i) (ci_account_indexes ix)) signers s)"
proof -
  let ?ks = "map (\<lambda>i. if i < length (ci_account_indexes ix) then unat (ci_account_indexes ix ! i) else 0)
    [0..<MAX_CPI_ACCOUNTS]"
  have "\<forall>k \<in> set ?ks. k < length views" using ok by auto
  then have at: "views_at views ?ks = Inr (map ((!) views) ?ks)" by (rule views_at_nth)
  have first: "take (length (ci_account_indexes ix)) (map f ?ks) = map (\<lambda>i. f (unat i)) (ci_account_indexes ix)" for f :: "nat \<Rightarrow> 'z"
    using few by (intro nth_equalityI) simp_all
  have metas: "map2 (\<lambda>k v. (v_address v, message_is_writable m k, message_is_signer m k)) ?ks (map ((!) views) ?ks)
      = map (\<lambda>k. (v_address (views ! k), message_is_writable m k, message_is_signer m k)) ?ks"
    by (intro nth_equalityI) simp_all
  show ?thesis
    using few ok(1) unfolding execute_instruction_def Let_def at metas and_then_simps first
    by (simp add: index_of_def first del: map_map)
qed

text \<open>What the code computes of an instruction, said from the message alone: which keys it names, and which of
  them its groups make writable or signing.\<close>

definition key_privileges :: "message_header \<Rightarrow> address list \<Rightarrow> message_lookup list \<Rightarrow> nat \<Rightarrow> bool \<times> bool" where
  "key_privileges h keys lks i =
     (i < unat (num_writable_signers h) \<or>
      unat (num_signers h) \<le> i \<and> i < unat (num_signers h) + unat (num_writable_non_signers h) \<or>
      length keys \<le> i \<and> i < length keys + writable_lookup_keys lks,
      i < unat (num_signers h))"

definition instruction_effect ::
  "runtime \<Rightarrow> address \<Rightarrow> view \<Rightarrow> view \<Rightarrow> view list \<Rightarrow> (nat \<Rightarrow> address) \<Rightarrow> (nat \<Rightarrow> bool \<times> bool) \<Rightarrow>
   bytes list list \<Rightarrow> compiled_instruction \<Rightarrow> store \<Rightarrow> store result" where
  "instruction_effect rt pid executor multisig views key_at privileges signers ix s =
     (if key_at (unat (ci_program_id_index ix)) = pid
      then apply_config_action rt multisig executor (ci_data ix) True s
      else rt_invoke rt
        \<lparr>cpi_program = key_at (unat (ci_program_id_index ix)),
         cpi_metas = map (\<lambda>i. (key_at (unat i), privileges (unat i))) (ci_account_indexes ix),
         cpi_data = ci_data ix\<rparr>
        (map (\<lambda>i. views ! unat i) (ci_account_indexes ix)) signers s)"

lemma execute_signers_eq:
  "unat (tx_ephemeral_count h) \<le> MAX_EPHEMERAL_SIGNERS \<Longrightarrow> execute_signers M T h = Inr
     ([VAULT_SEED, as_array M, [tx_vault_index h], [tx_vault_bump h]] #
      map (\<lambda>j. [EPHEMERAL_SEED, as_array T, [of_nat j], [bumps_list (tx_ephemeral_bumps h) ! j]])
        [0..<unat (tx_ephemeral_count h)])"
  by (simp add: execute_signers_def take_map)

lemma execute_signers_bound:
  "execute_signers M T h = Inr signers \<Longrightarrow> unat (tx_ephemeral_count h) \<le> MAX_EPHEMERAL_SIGNERS"
  by (simp add: execute_signers_def Let_def split: if_splits)

lemma approved_keys_nth:
  assumes "map v_address (take (length keys + lookup_keys lks) views) = approved_keys s keys lks"
    and "length keys + lookup_keys lks \<le> length views" "i < length keys + lookup_keys lks"
  shows "v_address (views ! i) = approved_keys s keys lks ! i"
  using assms(2,3) by (simp add: assms(1) [symmetric])

lemma execute_instruction_effect:
  assumes ok: "message_ok h keys ixs lks" "ix \<in> set ixs" "length (ci_account_indexes ix) \<le> MAX_CPI_ACCOUNTS"
    and views: "map v_address (take (length keys + lookup_keys lks) views) = approved_keys s1 keys lks"
      "length keys + lookup_keys lks \<le> length views"
  shows "execute_instruction rt pid executor multisig views (message_of h keys ixs lks) signers ix =
    instruction_effect rt pid executor multisig views (\<lambda>i. approved_keys s1 keys lks ! i)
      (key_privileges h keys lks) signers ix"
proof
  fix s
  have p: "unat (ci_program_id_index ix) < length keys + lookup_keys lks"
    and a: "\<And>i. i \<in> set (ci_account_indexes ix) \<Longrightarrow> unat i < length keys + lookup_keys lks"
    using ok by (auto simp: message_ok_def)
  note named = approved_keys_nth [OF views]
  have metas: "map (\<lambda>i. (v_address (views ! unat i), message_is_writable (message_of h keys ixs lks) (unat i),
        message_is_signer (message_of h keys ixs lks) (unat i))) (ci_account_indexes ix)
      = map (\<lambda>i. (approved_keys s1 keys lks ! unat i, key_privileges h keys lks (unat i))) (ci_account_indexes ix)"
    using named a unfolding message_is_writable_iff [OF ok(1)] key_privileges_def message_is_signer_def
    by (intro map_cong) (simp_all add: message_of_def)
  have in_range: "unat (ci_program_id_index ix) < length views"
    "\<forall>i \<in> set (ci_account_indexes ix). unat i < length views"
    using p a views(2) by fastforce+
  show "execute_instruction rt pid executor multisig views (message_of h keys ixs lks) signers ix s =
    instruction_effect rt pid executor multisig views (\<lambda>i. approved_keys s1 keys lks ! i)
      (key_privileges h keys lks) signers ix s"
    unfolding execute_instruction_eq [OF ok(3) in_range] metas named [OF p] Let_def instruction_effect_def ..
qed

text \<open>C9: a successful execution does exactly what the approved message says. It runs the message's
  instructions in order, each naming at most 32 accounts; one addressed to this program is a configuration action on
  the multisig, whatever accounts it names, and any other is one call of the program its index names among the approved
  keys, with its data unchanged, the accounts its indexes name among them, each writable and signing
  exactly as the groups of the message's header and the lookups' writable indexes put it, and signed with the seeds of the proposal's
  vault and of its ephemeral signers, and no others.\<close>

theorem inner_instruction_correct:
  assumes run: "process_execute rt pid (executor # multisig # transaction # remaining) instr s = Inr s'"
    and tx: "tx_load (ptr_of s transaction) (data_of s transaction) = Inr (h, v, m)"
  shows "\<exists>hd keys ixs lks s1. m = encode_message hd keys ixs lks \<and> message_ok hd keys ixs lks \<and>
     s1 = set_data transaction (tx_bytes (h\<lparr>tx_status := status_to_u8 Executed\<rparr>) v m) s \<and>
     (\<forall>ix \<in> set ixs. length (ci_account_indexes ix) \<le> 32) \<and>
     unat (tx_ephemeral_count h) \<le> 4 \<and>
     fold_result (instruction_effect rt pid executor multisig remaining (\<lambda>i. approved_keys s1 keys lks ! i)
       (\<lambda>i. (i < unat (num_writable_signers hd) \<or>
             unat (num_signers hd) \<le> i \<and> i < unat (num_signers hd) + unat (num_writable_non_signers hd) \<or>
             length keys \<le> i \<and> i < length keys + writable_lookup_keys lks,
             i < unat (num_signers hd)))
       ([VAULT_SEED, as_array (v_address multisig), [tx_vault_index h], [tx_vault_bump h]] #
        map (\<lambda>j. [EPHEMERAL_SEED, as_array (v_address transaction), [of_nat j], [bumps_list (tx_ephemeral_bumps h) ! j]])
          [0..<unat (tx_ephemeral_count h)])) ixs s1 = Inr s'"
proof -
  obtain h0 v0 m0 s1 hd keys ixs lks signers where
      load: "tx_load (ptr_of s transaction) (data_of s transaction) = Inr (h0, v0, m0)"
    and s1: "s1 = set_data transaction (tx_bytes (h0\<lparr>tx_status := status_to_u8 Executed\<rparr>) v0 m0) s"
    and m: "m0 = encode_message hd keys ixs lks" "message_ok hd keys ixs lks"
    and acc: "check_accounts s1 remaining (message_of hd keys ixs lks) = Inr ()"
    and sg: "execute_signers (v_address multisig) (v_address transaction)
       (h0\<lparr>tx_status := status_to_u8 Executed\<rparr>) = Inr signers"
    and fold: "fold_result (execute_instruction rt pid executor multisig remaining
       (message_of hd keys ixs lks) signers) ixs s1 = Inr s'"
    by (rule execute_run [OF run])
  have eq: "h0 = h" "v0 = v" "m0 = m" using load tx by simp_all
  have few: "length (ci_account_indexes ix) \<le> MAX_CPI_ACCOUNTS" if "ix \<in> set ixs" for ix
    using fold_result_ran [OF fold that] by (auto simp: execute_instruction_def Let_def if_fail_eq_Inr)
  have views: "map v_address (take (length keys + lookup_keys lks) remaining) = approved_keys s1 keys lks"
    "length keys + lookup_keys lks \<le> length remaining"
    using check_accounts_iff [OF m(2), THEN iffD1, OF acc] by simp_all
  note four = execute_signers_bound [OF sg]
  have signers: "signers = [VAULT_SEED, as_array (v_address multisig), [tx_vault_index h], [tx_vault_bump h]] #
      map (\<lambda>j. [EPHEMERAL_SEED, as_array (v_address transaction), [of_nat j], [bumps_list (tx_ephemeral_bumps h) ! j]])
        [0..<unat (tx_ephemeral_count h)]"
    using sg four by (simp add: execute_signers_eq eq)
  have "fold_result (instruction_effect rt pid executor multisig remaining (\<lambda>i. approved_keys s1 keys lks ! i)
      (key_privileges hd keys lks) signers) ixs s1 = Inr s'"
    using fold execute_instruction_effect [OF m(2) _ few views]
      fold_result_cong [of ixs "execute_instruction rt pid executor multisig remaining (message_of hd keys ixs lks) signers"]
    by simp
  with m s1 few four show ?thesis
    unfolding eq signers key_privileges_def [abs_def] MAX_CPI_ACCOUNTS_def MAX_EPHEMERAL_SIGNERS_def by force
qed

section \<open>No panic\<close>

lemma check_static_keys_no_panic:
  "i + length keys \<le> length views \<Longrightarrow> \<not> panics (check_static_keys views i keys)"
  by (induction keys arbitrary: i) auto

lemma resolve_indexes_no_panic:
  "at + length indexes \<le> length views \<Longrightarrow> \<not> panics (resolve_indexes views addresses indexes at)"
  by (induction indexes arbitrary: at) auto

lemma resolve_lookups_no_panic:
  "num_all + i + length lks \<le> length views \<Longrightarrow>
   w + writable_lookup_keys lks \<le> length views \<Longrightarrow> r + readonly_lookup_keys lks \<le> length views \<Longrightarrow>
   \<not> panics (fold_result (resolve_lookup s views num_all) lks (i, w, r))"
proof (induction lks arbitrary: i w r)
  case Nil
  then show ?case by simp
next
  case (Cons l lks)
  let ?wn = "length (ml_writable_indexes l)" and ?rn = "length (ml_readonly_indexes l)"
  have sums: "writable_lookup_keys (l # lks) = ?wn + writable_lookup_keys lks"
    "readonly_lookup_keys (l # lks) = ?rn + readonly_lookup_keys lks"
    by (simp_all add: writable_lookup_keys_def readonly_lookup_keys_def)
  have fits: "num_all + i < length views" "w + ?wn \<le> length views" "r + ?rn \<le> length views"
    using Cons.prems sums by simp_all
  have "\<not> panics (resolve_lookup s views num_all l (i, w, r))"
    using fits by (simp add: resolve_lookup_def Let_def resolve_indexes_no_panic)
  moreover have "\<not> panics (fold_result (resolve_lookup s views num_all) lks st)"
    if step: "resolve_lookup s views num_all l (i, w, r) = Inr st" for st
  proof -
    obtain w' r' where
        w': "resolve_indexes views (drop LOOKUP_TABLE_META_SIZE (acc_data (s (ml_account_key l))))
          (ml_writable_indexes l) w = Inr w'"
      and r': "resolve_indexes views (drop LOOKUP_TABLE_META_SIZE (acc_data (s (ml_account_key l))))
          (ml_readonly_indexes l) r = Inr r'"
      and st: "st = (i + 1, w', r')"
      using step fits(1) by (auto simp: resolve_lookup_def and_then_Inr check_Inr Let_def if_fail_eq_Inr)
    have "w' = w + ?wn" "r' = r + ?rn"
      using w' r' by (simp_all add: resolve_indexes_iff [OF fits(2)] resolve_indexes_iff [OF fits(3)])
    then show ?thesis unfolding st using Cons.prems sums by (intro Cons.IH) simp_all
  qed
  ultimately show ?case by simp
qed

lemma check_accounts_no_panic:
  assumes ok: "message_ok h keys ixs lks"
  shows "\<not> panics (check_accounts s remaining (message_of h keys ixs lks))"
proof -
  have h: "unat (num_account_keys h) = length keys" "unat (num_lookups h) = length lks"
    "list_all lookup_fits lks"
    using ok by (simp_all add: message_ok_def)
  have m: "tm_header (message_of h keys ixs lks) = h" "tm_account_keys (message_of h keys ixs lks) = keys"
    "tm_num_all_keys (message_of h keys ixs lks) = length keys + lookup_keys lks"
    "tm_num_writable_lookup_keys (message_of h keys ixs lks) = writable_lookup_keys lks"
    "tm_lookups (message_of h keys ixs lks) = encode_array encode_lookup lks"
    by (simp_all add: message_of_def)
  show ?thesis
    unfolding check_accounts_def Let_def m h lks.loop_new [OF h(3)]
    by (intro no_panic_intros)
       (auto simp: lookup_keys_split check_static_keys_no_panic resolve_lookups_no_panic)
qed

lemma execute_signers_no_panic:
  "tx_invariant h = Inr () \<Longrightarrow> \<not> panics (execute_signers m t h)"
  by (simp add: execute_signers_def Let_def tx_invariant_iff)

lemma views_at_no_panic: "\<forall>k \<in> set ks. k < length views \<Longrightarrow> \<not> panics (views_at views ks)"
  by (induction ks) auto

lemma execute_instruction_no_panic:
  assumes rt: "runtime_no_panic rt" and spec: "resize_spec rt" "transfer_spec rt"
    and ix: "unat (ci_program_id_index ix) < n" "\<forall>i \<in> set (ci_account_indexes ix). unat i < n"
    and n: "n \<le> length views"
  shows "\<not> panics (execute_instruction rt pid executor multisig views m signers ix s)"
proof -
  have "\<forall>k \<in> set (map (\<lambda>i. if i < length (ci_account_indexes ix)
      then unat (ci_account_indexes ix ! i) else 0) [0..<MAX_CPI_ACCOUNTS]). k < length views"
    using ix n by (auto; metis nth_mem order_less_le_trans)
  then have "\<not> panics (views_at views (map (\<lambda>i. if i < length (ci_account_indexes ix)
      then unat (ci_account_indexes ix ! i) else 0) [0..<MAX_CPI_ACCOUNTS]))"
    by (rule views_at_no_panic)
  moreover have "unat (ci_program_id_index ix) < length views" using ix(1) n by simp
  ultimately show ?thesis
    unfolding execute_instruction_def Let_def
    by (intro no_panic_intros)
       (use apply_config_action_no_panic [OF rt spec] runtime_no_panicD [OF rt] in simp_all)
qed

lemma execute_loop_no_panic:
  assumes rt: "runtime_no_panic rt" and spec: "resize_spec rt" "transfer_spec rt"
    and ok: "message_ok h keys ixs lks" and len: "length keys + lookup_keys lks \<le> length views"
  shows "\<not> panics (fold_result (execute_instruction rt pid executor multisig views m signers) ixs s)"
proof (rule fold_result_no_panic [of "\<lambda>_. True"])
  fix ix t
  assume "ix \<in> set ixs"
  then have "unat (ci_program_id_index ix) < length keys + lookup_keys lks"
    "\<forall>i \<in> set (ci_account_indexes ix). unat i < length keys + lookup_keys lks"
    using ok by (auto simp: message_ok_def)
  then show "\<not> panics (execute_instruction rt pid executor multisig views m signers ix t)"
    using len by (rule execute_instruction_no_panic [OF rt spec])
qed simp_all

lemma execute_no_panic:
  assumes rt: "runtime_no_panic rt" and spec: "resize_spec rt" "transfer_spec rt"
  shows "\<not> panics (process_execute rt pid accounts instr s)"
proof -
  have perm: "\<not> panics (has_permission os ps a p)"
    if "ms_load (ptr_of s multisig) (data_of s multisig) = Inr (h, os, ps)" for multisig h os ps a p
    using that by (intro has_permission_no_panic) (simp add: ms_load_Inr)
  have begin': "\<not> panics (begin_execution rt pid executor multisig transaction instr s)"
    for executor multisig transaction
    unfolding begin_execution_def Let_def tx_load_mut_eq check_time_lock_def
    by (auto simp: perm runtime_no_panicD [OF rt])
  have inv: "tx_invariant h' = Inr ()"
    if "begin_execution rt pid executor multisig transaction instr s = Inr x" "x = (s1, h')"
    for executor multisig transaction x s1 h'
    by (rule begin_execution_Inr [OF that(1) [unfolded that(2)]])
  have body: "\<not> panics (and_then (check_accounts s1 remaining msg) (\<lambda>_.
        and_then (execute_signers mk tk h') (\<lambda>signers.
        for_instructions (execute_instruction rt pid executor multisig remaining msg signers)
          (cursor_new (tm_instructions msg)) s1)))"
    if p: "parse stored = Inr msg" and h': "tx_invariant h' = Inr ()"
    for s1 remaining msg mk tk h' executor multisig stored
  proof -
    from p obtain hd keys ixs lks where ok: "message_ok hd keys ixs lks"
      and msg: "msg = message_of hd keys ixs lks"
      unfolding parse_iff by blast
    have fit: "list_all instruction_fits ixs" using ok by (simp add: message_ok_def)
    show ?thesis
    proof (intro no_panic_and_then)
      show "\<not> panics (check_accounts s1 remaining msg)"
        unfolding msg by (rule check_accounts_no_panic [OF ok])
      show "\<not> panics (execute_signers mk tk h')" by (rule execute_signers_no_panic [OF h'])
      fix signers u
      assume "check_accounts s1 remaining msg = Inr u"
      then have "length keys + lookup_keys lks \<le> length remaining"
        using check_accounts_iff [OF ok, of s1 remaining] by (simp add: msg)
      from execute_loop_no_panic [OF rt spec ok this]
      show "\<not> panics (for_instructions (execute_instruction rt pid executor multisig remaining msg signers)
          (cursor_new (tm_instructions msg)) s1)"
        by (simp add: msg message_of_def ixs.loop_new [OF fit])
    qed
  qed
  show ?thesis
    unfolding process_execute_def
    by (intro no_panic_list no_panic_and_then [of "begin_execution _ _ _ _ _ _ _"] no_panic_prod
        no_panic_and_then [of "tx_load _ _"] no_panic_and_then [of "parse _"])
       (rule begin' tx_load_no_panic parse_no_panic | (rule body, assumption, rule inv, assumption, assumption) | simp)+
qed

end
