(* ===== verification/Create.thy ===== *)
theory Create
  imports Message Transaction_State
begin

text \<open>
  Instruction 1, src/instruction/create_transaction.rs: \<open>init_proposal\<close>, which instruction 10
  shares, the handler, and the proposal and configuration a successful call leaves.
\<close>

record create_transaction_header =
  ct_vault_index :: u8
  ct_vault_bump :: u8
  ct_bump :: u8
  ct_ephemeral_count :: u8
  ct_ephemeral_bumps :: bumps4

definition CREATE_LEN :: nat where "CREATE_LEN = 8"

definition create_transaction_header_of :: "bytes \<Rightarrow> create_transaction_header" where
  "create_transaction_header_of bs =
     \<lparr>ct_vault_index = bs ! 0, ct_vault_bump = bs ! 1, ct_bump = bs ! 2,
      ct_ephemeral_count = bs ! 3, ct_ephemeral_bumps = bumps_of (slice 4 4 bs)\<rparr>"

text \<open>The scope that reserves the next index: the new store, the index and the owner count.\<close>

definition reserve_index :: "view \<Rightarrow> view \<Rightarrow> store \<Rightarrow> (store \<times> u64 \<times> u32) result" where
  "reserve_index creator multisig s =
     and_then (ms_load_mut (ptr_of s multisig) (data_of s multisig)) (\<lambda>(ms, owners, permissions).
     and_then (ok_or NotAnOwner (is_owner owners (v_address creator))) (\<lambda>position.
     and_then (index_of permissions position) (\<lambda>mask.
     if mask \<noteq> 0 \<and> mask AND INITIATE = 0 then fail Unauthorized
     else and_then (ok_or Overflow (checked_add (ms_transaction_index ms) 1)) (\<lambda>index.
       let ms = ms\<lparr>ms_transaction_index := index\<rparr> in
       Inr (set_data multisig (ms_bytes ms owners permissions) s, index, ms_owners_count ms)))))"

definition init_proposal ::
  "runtime \<Rightarrow> address \<Rightarrow> view \<Rightarrow> view \<Rightarrow> view \<Rightarrow> bytes \<Rightarrow> u8 \<Rightarrow> u8 \<Rightarrow> u8 \<Rightarrow> u8 \<Rightarrow> bumps4 \<Rightarrow>
   store \<Rightarrow> store result" where
  "init_proposal rt program_id creator multisig transaction message vault_index vault_bump bump
     ephemeral_count bumps s =
     (if MAX_EPHEMERAL_SIGNERS < unat ephemeral_count then fail InvalidInstructionData
      else if MAX_MESSAGE_SIZE < length message then fail InvalidMessage
      else
        and_then (parse message) (\<lambda>_.
        and_then (reserve_index creator multisig s) (\<lambda>(s, index, owners_count).
        let seeds = [TRANSACTION_SEED, as_array (v_address multisig), to_le_bytes 8 index, [bump]];
            space = tx_space (unat owners_count) (length message) in
        and_then (rt_rent rt) (\<lambda>minimum_balance.
        and_then (rt_create_account rt creator transaction (of_nat space) (minimum_balance space)
            program_id seeds s) (\<lambda>s.
        and_then (tx_split_uninitialized (ptr_of s transaction) (data_of s transaction))
          (\<lambda>(state, tail).
        let state = state\<lparr>tx_multisig := v_address multisig, tx_creator := v_address creator,
              tx_index := index, tx_approved_at := 0, tx_owners_count := owners_count,
              tx_approved_count := 0, tx_rejected_count := 0, tx_cancelled_count := 0,
              tx_message_len := of_nat (length message),
              tx_status := status_to_u8 Active, tx_bump := bump,
              tx_vault_index := vault_index, tx_vault_bump := vault_bump,
              tx_ephemeral_count := ephemeral_count, tx_ephemeral_bumps := bumps,
              tx_pad := 0\<rparr>;
            bits = len_for (unat owners_count) in
        and_then (split_at_mut (3 * bits) tail) (\<lambda>(votes, stored_message).
        let votes = replicate (length votes) 0 in
        and_then (copy_from_slice stored_message message) (\<lambda>stored_message.
        let s = set_data transaction (tx_encode state @ votes @ stored_message) s in
        and_then (tx_invariant state) (\<lambda>_. Inr s)))))))))"

definition process_create_transaction ::
  "runtime \<Rightarrow> address \<Rightarrow> view list \<Rightarrow> bytes \<Rightarrow> store \<Rightarrow> store result" where
  "process_create_transaction rt program_id accounts instruction s =
     (case accounts of
        creator # multisig # transaction # system_program_view # remaining \<Rightarrow>
          and_then (check_signer creator MissingSignature) (\<lambda>_.
          and_then (validate_eq (v_address system_program_view) system_program InvalidProgramId) (\<lambda>_.
          and_then (check_owner s multisig program_id IllegalOwner) (\<lambda>_.
          if data_of s transaction \<noteq> [] \<or> lamports (account_of s transaction) \<noteq> 0
          then fail AlreadyInitialized
          else if length instruction < CREATE_LEN then fail InvalidInstructionData
          else
            let header = create_transaction_header_of instruction;
                message = drop CREATE_LEN instruction in
            init_proposal rt program_id creator multisig transaction message
              (ct_vault_index header) (ct_vault_bump header) (ct_bump header)
              (ct_ephemeral_count header) (ct_ephemeral_bumps header) s)))
      | _ \<Rightarrow> fail NotEnoughAccounts)"

text \<open>The call of \<open>init_proposal\<close> a success comes down to.\<close>

lemma create_transaction_init:
  fixes instr defines "header \<equiv> create_transaction_header_of instr"
  assumes "process_create_transaction rt pid (creator # multisig # transaction # sp # remaining) instr s = Inr s'"
  shows "v_signer creator" "acc_owner (account_of s multisig) = pid" "data_of s transaction = []"
    and "init_proposal rt pid creator multisig transaction (drop CREATE_LEN instr) (ct_vault_index header)
       (ct_vault_bump header) (ct_bump header) (ct_ephemeral_count header) (ct_ephemeral_bumps header) s = Inr s'"
  using assms unfolding header_def process_create_transaction_def list.case handler_steps by blast+

section \<open>The proposal it creates\<close>

definition fresh_transaction ::
  "address \<Rightarrow> address \<Rightarrow> u64 \<Rightarrow> u32 \<Rightarrow> bytes \<Rightarrow> u8 \<Rightarrow> u8 \<Rightarrow> u8 \<Rightarrow> u8 \<Rightarrow> bumps4 \<Rightarrow> transaction" where
  "fresh_transaction multisig creator index n message vi vb bump ec eb =
     \<lparr>tx_multisig = multisig, tx_creator = creator, tx_index = index, tx_approved_at = 0,
      tx_owners_count = n, tx_approved_count = 0, tx_rejected_count = 0, tx_cancelled_count = 0,
      tx_message_len = of_nat (length message), tx_status = status_to_u8 Active, tx_bump = bump,
      tx_vault_index = vi, tx_vault_bump = vb, tx_ephemeral_count = ec, tx_ephemeral_bumps = eb,
      tx_pad = 0\<rparr>"

definition clear_votes :: "u32 \<Rightarrow> votes" where
  "clear_votes n =
     \<lparr>v_approved = replicate (len_for (unat n)) 0, v_rejected = replicate (len_for (unat n)) 0,
      v_cancelled = replicate (len_for (unat n)) 0\<rparr>"

lemma fresh_transaction_update:
  "h\<lparr>tx_multisig := multisig, tx_creator := creator, tx_index := index, tx_approved_at := 0,
     tx_owners_count := n, tx_approved_count := 0, tx_rejected_count := 0,
     tx_cancelled_count := 0, tx_message_len := of_nat (length message),
     tx_status := status_to_u8 Active, tx_bump := bump, tx_vault_index := vi,
     tx_vault_bump := vb, tx_ephemeral_count := ec, tx_ephemeral_bumps := eb, tx_pad := 0\<rparr>
   = fresh_transaction multisig creator index n message vi vb bump ec eb"
  by (simp add: fresh_transaction_def)

lemma bitmap_count_zero [simp]: "bitmap_count (replicate k 0) = 0"
  by (simp add: bm.tally_card)

lemma fresh_transaction_wf:
  assumes "tx_invariant (fresh_transaction m c index n message vi vb bump ec eb) = Inr ()"
    and "length message \<le> MAX_MESSAGE_SIZE"
  shows "tx_wf (fresh_transaction m c index n message vi vb bump ec eb) (clear_votes n) message"
  using assms by (simp add: tx_wf_def fresh_transaction_def clear_votes_def votes_fit_def
      MAX_MESSAGE_SIZE_def unat_of_nat)

lemma reserve_index_Inr:
  "reserve_index creator multisig s = Inr (s', index, n) \<longleftrightarrow>
     (\<exists>h os ps i. ms_load (ptr_of s multisig) (data_of s multisig) = Inr (h, os, ps) \<and>
        is_owner os (v_address creator) = Some i \<and>
        (ps ! i = 0 \<or> ps ! i AND INITIATE \<noteq> 0) \<and>
        checked_add (ms_transaction_index h) 1 = Some index \<and> n = ms_owners_count h \<and>
        s' = set_data multisig (ms_bytes (h\<lparr>ms_transaction_index := index\<rparr>) os ps) s)"
proof -
  have "index_of ps i = Inr (ps ! i)"
    if "ms_load (ptr_of s multisig) (data_of s multisig) = Inr (h, os, ps)"
      "is_owner os (v_address creator) = Some i" for h os ps i
    using loaded_owner [OF that] by simp
  then show ?thesis
    unfolding reserve_index_def ms_load_mut_eq handler_steps prod.inject
    by (auto; metis sum.inject(2))
qed

text \<open>The steps of a success of \<open>init_proposal\<close>, with the bytes it writes.\<close>

lemma init_proposal_run:
  assumes run: "init_proposal rt pid creator multisig transaction message vi vb bump ec eb s = Inr s'"
  obtains h os ps i index m minimum_balance s1 where
    "ms_load (ptr_of s multisig) (data_of s multisig) = Inr (h, os, ps)"
    "is_owner os (v_address creator) = Some i" "ps ! i = 0 \<or> ps ! i AND INITIATE \<noteq> 0"
    "unat index = Suc (unat (ms_transaction_index h))" "parse message = Inr m"
    "rt_create_account rt creator transaction (of_nat (tx_space (unat (ms_owners_count h)) (length message)))
       (minimum_balance (tx_space (unat (ms_owners_count h)) (length message))) pid
       [TRANSACTION_SEED, as_array (v_address multisig), to_le_bytes 8 index, [bump]]
       (set_data multisig (ms_bytes (h\<lparr>ms_transaction_index := index\<rparr>) os ps) s) = Inr s1"
    "(of_nat (tx_space (unat (ms_owners_count h)) (length message)) :: u64) \<noteq> 0" "8 dvd ptr_of s1 transaction"
    "tx_wf (fresh_transaction (v_address multisig) (v_address creator) index (ms_owners_count h)
       message vi vb bump ec eb) (clear_votes (ms_owners_count h)) message"
    "s' = set_data transaction (tx_bytes (fresh_transaction (v_address multisig) (v_address creator) index
       (ms_owners_count h) message vi vb bump ec eb) (clear_votes (ms_owners_count h)) message) s1"
proof -
  from run obtain m s0 index n minimum_balance s1 state tail votes stored st where
      lim: "unat ec \<le> MAX_EPHEMERAL_SIGNERS" "length message \<le> MAX_MESSAGE_SIZE"
    and m: "parse message = Inr m"
    and res: "reserve_index creator multisig s = Inr (s0, index, n)"
    and "rt_rent rt = Inr minimum_balance"
    and create: "rt_create_account rt creator transaction (of_nat (tx_space (unat n) (length message)))
          (minimum_balance (tx_space (unat n) (length message))) pid
          [TRANSACTION_SEED, as_array (v_address multisig), to_le_bytes 8 index, [bump]] s0 = Inr s1"
    and split: "tx_split_uninitialized (ptr_of s1 transaction) (data_of s1 transaction) = Inr (state, tail)"
    and votes: "split_at_mut (3 * len_for (unat n)) tail = Inr (votes, stored)"
    and st: "st = message"
    and inv: "tx_invariant (fresh_transaction (v_address multisig) (v_address creator) index n message
          vi vb bump ec eb) = Inr ()"
    and s': "set_data transaction (tx_encode (fresh_transaction (v_address multisig) (v_address creator)
          index n message vi vb bump ec eb) @ replicate (length votes) 0 @ st) s1 = s'"
    unfolding init_proposal_def handler_steps copy_from_slice_Inr unit_eq
      fresh_transaction_update simp_thms ex_simps
    by (elim exE conjE) (rule that)
  from res obtain h os ps i where owner: "ms_load (ptr_of s multisig) (data_of s multisig) = Inr (h, os, ps)"
      "is_owner os (v_address creator) = Some i" "ps ! i = 0 \<or> ps ! i AND INITIATE \<noteq> 0"
    and index: "checked_add (ms_transaction_index h) 1 = Some index" and n: "n = ms_owners_count h"
    and s0: "s0 = set_data multisig (ms_bytes (h\<lparr>ms_transaction_index := index\<rparr>) os ps) s"
    unfolding reserve_index_Inr by blast
  have idx: "unat index = Suc (unat (ms_transaction_index h))" using checked_add_Some [OF index] by simp
  have "unat n \<le> MAX_OWNER" using inv by (simp add: tx_invariant_iff fresh_transaction_def)
  then have nz: "(of_nat (tx_space (unat n) (length message)) :: u64) \<noteq> 0"
    using lim by (intro space_nonzero)
      (simp_all add: tx_space_def TX_LEN_def MAX_MESSAGE_SIZE_def MAX_OWNER_def len_for_def)
  have "length votes = 3 * len_for (unat n)" using votes by (simp add: split_at_mut_Inr)
  then have "tx_encode t @ replicate (length votes) 0 @ st = tx_bytes t (clear_votes n) message" for t
    by (simp add: st tx_bytes_def clear_votes_def replicate_add numeral_3_eq_3)
  then have "s' = set_data transaction (tx_bytes (fresh_transaction (v_address multisig) (v_address creator) index n
      message vi vb bump ec eb) (clear_votes n) message) s1"
    using s' by simp
  moreover have "8 dvd ptr_of s1 transaction" using split by (simp add: txl.uninit_Inr)
  moreover note fresh_transaction_wf [OF inv lim(2)]
  ultimately show thesis
    using that [of h os ps i index m minimum_balance s1] owner idx m create nz unfolding n s0 by blast
qed

definition init_proposal_post ::
  "runtime \<Rightarrow> address \<Rightarrow> view \<Rightarrow> view \<Rightarrow> view \<Rightarrow> bytes \<Rightarrow> u8 \<Rightarrow> u8 \<Rightarrow> u8 \<Rightarrow> u8 \<Rightarrow> bumps4 \<Rightarrow>
   store \<Rightarrow> store \<Rightarrow> multisig \<Rightarrow> address list \<Rightarrow> bytes \<Rightarrow> u64 \<Rightarrow> bool" where
  "init_proposal_post rt pid creator multisig transaction message vi vb bump ec eb s s' h os ps index \<longleftrightarrow>
     (let t = fresh_transaction (v_address multisig) (v_address creator) index (ms_owners_count h)
                message vi vb bump ec eb in
      data_of s' multisig = ms_bytes (h\<lparr>ms_transaction_index := index\<rparr>) os ps \<and>
      acc_owner (account_of s' multisig) = acc_owner (account_of s multisig) \<and>
      data_of s' transaction = tx_bytes t (clear_votes (ms_owners_count h)) message \<and>
      acc_owner (account_of s' transaction) = pid \<and>
      ptr_of s' multisig = ptr_of s multisig \<and> 8 dvd ptr_of s' transaction \<and>
      tx_wf t (clear_votes (ms_owners_count h)) message \<and>
      (v_signer transaction \<or>
       rt_pda rt [TRANSACTION_SEED, as_array (v_address multisig), to_le_bytes 8 index, [bump]] pid
         = Some (v_address transaction)) \<and>
      (\<forall>a. a \<noteq> v_address multisig \<and> a \<noteq> v_address transaction \<longrightarrow> acc_data (s' a) = acc_data (s a)))"

lemma init_proposal_effect:
  assumes spec: "create_account_spec pid rt"
    and run: "init_proposal rt pid creator multisig transaction message vi vb bump ec eb s = Inr s'"
    and unused: "data_of s transaction = []"
  obtains h os ps i index m where
    "ms_load (ptr_of s multisig) (data_of s multisig) = Inr (h, os, ps)"
    "is_owner os (v_address creator) = Some i" "ps ! i = 0 \<or> ps ! i AND INITIATE \<noteq> 0"
    "unat index = Suc (unat (ms_transaction_index h))" "parse message = Inr m"
    "init_proposal_post rt pid creator multisig transaction message vi vb bump ec eb s s' h os ps index"
proof (rule init_proposal_run [OF run])
  fix h :: multisig and os ps i index m minimum_balance s1
  let ?t = "fresh_transaction (v_address multisig) (v_address creator) index (ms_owners_count h) message vi vb bump ec eb"
    and ?space = "of_nat (tx_space (unat (ms_owners_count h)) (length message)) :: u64"
  assume load: "ms_load (ptr_of s multisig) (data_of s multisig) = Inr (h, os, ps)"
    and owner: "is_owner os (v_address creator) = Some i" "ps ! i = 0 \<or> ps ! i AND INITIATE \<noteq> 0"
      "unat index = Suc (unat (ms_transaction_index h))" "parse message = Inr m"
    and create: "rt_create_account rt creator transaction ?space
       (minimum_balance (tx_space (unat (ms_owners_count h)) (length message))) pid
       [TRANSACTION_SEED, as_array (v_address multisig), to_le_bytes 8 index, [bump]]
       (set_data multisig (ms_bytes (h\<lparr>ms_transaction_index := index\<rparr>) os ps) s) = Inr s1"
    and nz: "?space \<noteq> 0" and "8 dvd ptr_of s1 transaction" "tx_wf ?t (clear_votes (ms_owners_count h)) message"
    and s': "s' = set_data transaction (tx_bytes ?t (clear_votes (ms_owners_count h)) message) s1"
  moreover have "v_address multisig \<noteq> v_address transaction" using ms_load_nonempty [OF load] unused by auto
  ultimately have "init_proposal_post rt pid creator multisig transaction message vi vb bump ec eb s s' h os ps index"
    using create_account_effect(2,4) [OF spec create nz] create_account_others [OF spec create nz]
    unfolding init_proposal_post_def Let_def by (intro conjI) simp_all
  with load owner show thesis by (rule that)
qed

section \<open>Properties\<close>

lemma create_transaction_effect:
  assumes "create_account_spec pid rt"
    and "process_create_transaction rt pid (creator # multisig # transaction # sp # remaining) instr s
           = Inr s'"
  shows "\<exists>h os ps i m t. v_signer creator \<and> acc_owner (account_of s multisig) = pid \<and>
     ms_load (ptr_of s multisig) (data_of s multisig) = Inr (h, os, ps) \<and>
     is_owner os (v_address creator) = Some i \<and> (ps ! i = 0 \<or> ps ! i AND INITIATE \<noteq> 0) \<and>
     parse (drop CREATE_LEN instr) = Inr m \<and>
     tx_wf t (clear_votes (ms_owners_count h)) (drop CREATE_LEN instr) \<and>
     tx_status t = status_to_u8 Active \<and> tx_multisig t = v_address multisig \<and>
     tx_creator t = v_address creator \<and> tx_owners_count t = ms_owners_count h \<and>
     unat (tx_index t) = Suc (unat (ms_transaction_index h)) \<and>
     tx_load (ptr_of s' transaction) (data_of s' transaction)
       = Inr (t, clear_votes (ms_owners_count h), drop CREATE_LEN instr) \<and>
     acc_owner (account_of s' transaction) = pid \<and>
     (v_signer transaction \<or> rt_pda rt [TRANSACTION_SEED, as_array (v_address multisig),
        to_le_bytes 8 (tx_index t), [tx_bump t]] pid = Some (v_address transaction)) \<and>
     ms_load (ptr_of s' multisig) (data_of s' multisig)
       = Inr (h\<lparr>ms_transaction_index := tx_index t\<rparr>, os, ps) \<and>
     acc_owner (account_of s' multisig) = pid \<and>
     (\<forall>a. a \<noteq> v_address multisig \<and> a \<noteq> v_address transaction \<longrightarrow> acc_data (s' a) = acc_data (s a))"
proof -
  let ?hd = "create_transaction_header_of instr"
  note guards = create_transaction_init(1-3) [OF assms(2)] and run = create_transaction_init(4) [OF assms(2)]
  from init_proposal_effect [OF assms(1) run guards(3)] obtain h os ps i index m where
    load: "ms_load (ptr_of s multisig) (data_of s multisig) = Inr (h, os, ps)"
      "is_owner os (v_address creator) = Some i" "ps ! i = 0 \<or> ps ! i AND INITIATE \<noteq> 0"
      "unat index = Suc (unat (ms_transaction_index h))" "parse (drop CREATE_LEN instr) = Inr m"
    and post: "init_proposal_post rt pid creator multisig transaction (drop CREATE_LEN instr)
       (ct_vault_index ?hd) (ct_vault_bump ?hd) (ct_bump ?hd) (ct_ephemeral_count ?hd)
       (ct_ephemeral_bumps ?hd) s s' h os ps index" .
  let ?t = "fresh_transaction (v_address multisig) (v_address creator) index (ms_owners_count h)
       (drop CREATE_LEN instr) (ct_vault_index ?hd) (ct_vault_bump ?hd) (ct_bump ?hd)
       (ct_ephemeral_count ?hd) (ct_ephemeral_bumps ?hd)"
  have "tx_index ?t = index" "tx_status ?t = status_to_u8 Active" "tx_multisig ?t = v_address multisig"
    "tx_creator ?t = v_address creator" "tx_owners_count ?t = ms_owners_count h"
    "tx_bump ?t = ct_bump ?hd"
    by (simp_all add: fresh_transaction_def)
  moreover have "tx_load (ptr_of s' transaction) (data_of s' transaction)
      = Inr (?t, clear_votes (ms_owners_count h), drop CREATE_LEN instr)"
    using post by (simp add: init_proposal_post_def Let_def tx_load_Inr tx_wf_def)
  moreover have "ms_load (ptr_of s' multisig) (data_of s' multisig)
      = Inr (h\<lparr>ms_transaction_index := index\<rparr>, os, ps)"
    using post load(1) by (simp add: init_proposal_post_def Let_def ms_load_Inr)
  ultimately show ?thesis
    using guards load post unfolding init_proposal_post_def Let_def by metis
qed

text \<open>C33: a proposal that \<open>create_transaction\<close> accepts was signed for by an owner allowed to
  initiate, carries a message the parser accepts, takes the index after the configuration's counter
  and moves that counter by one, and is written as a well-formed Active proposal with no votes and
  the configuration's owner count; nothing else's data changes.\<close>

theorem create_transaction_correct:
  assumes "create_account_spec pid rt"
    and "process_create_transaction rt pid (creator # multisig # transaction # sp # remaining) instr s
           = Inr s'"
  shows "\<exists>h os ps i m t. v_signer creator \<and> acc_owner (account_of s multisig) = pid \<and>
     ms_load (ptr_of s multisig) (data_of s multisig) = Inr (h, os, ps) \<and>
     is_owner os (v_address creator) = Some i \<and> (ps ! i = 0 \<or> ps ! i AND INITIATE \<noteq> 0) \<and>
     parse (drop CREATE_LEN instr) = Inr m \<and>
     tx_wf t (clear_votes (ms_owners_count h)) (drop CREATE_LEN instr) \<and>
     tx_status t = status_to_u8 Active \<and> tx_multisig t = v_address multisig \<and>
     tx_creator t = v_address creator \<and> tx_owners_count t = ms_owners_count h \<and>
     unat (tx_index t) = Suc (unat (ms_transaction_index h)) \<and>
     tx_load (ptr_of s' transaction) (data_of s' transaction)
       = Inr (t, clear_votes (ms_owners_count h), drop CREATE_LEN instr) \<and>
     acc_owner (account_of s' transaction) = pid \<and>
     (v_signer transaction \<or> rt_pda rt [TRANSACTION_SEED, as_array (v_address multisig),
        to_le_bytes 8 (tx_index t), [tx_bump t]] pid = Some (v_address transaction)) \<and>
     ms_load (ptr_of s' multisig) (data_of s' multisig)
       = Inr (h\<lparr>ms_transaction_index := tx_index t\<rparr>, os, ps) \<and>
     acc_owner (account_of s' multisig) = pid \<and>
     (\<forall>a. a \<noteq> v_address multisig \<and> a \<noteq> v_address transaction \<longrightarrow> acc_data (s' a) = acc_data (s a))"
  by (rule create_transaction_effect [OF assms])

section \<open>No panic\<close>

lemma reserve_index_no_panic [simp]: "\<not> panics (reserve_index creator multisig s)"
proof -
  have "\<not> panics (index_of ps i)"
    if "ms_load (ptr_of s multisig) (data_of s multisig) = Inr (h, os, ps)"
      "is_owner os (v_address creator) = Some i" for h os ps i
    using loaded_owner [OF that] by simp
  then show ?thesis by (auto simp: reserve_index_def ms_load_mut_eq ok_or_Inr Let_def)
qed

lemma init_proposal_no_panic:
  assumes rt: "runtime_no_panic rt" and spec: "create_account_spec pid rt"
  shows "\<not> panics (init_proposal rt pid creator multisig transaction message vi vb bump ec eb s)"
proof (cases "MAX_MESSAGE_SIZE < length message")
  case True
  then show ?thesis by (simp add: init_proposal_def)
next
  case False
  have split: "length tail = 3 * len_for (unat n) + length message"
    if t: "tx_split_uninitialized (ptr_of s1 transaction) (data_of s1 transaction) = Inr (st, tail)"
      and c: "rt_create_account rt creator transaction (of_nat (tx_space (unat n) (length message))) lam
        pid seeds s0 = Inr s1"
    for n :: u32 and lam seeds s0 s1 st tail
  proof -
    let ?sp = "tx_space (unat n) (length message)"
    have sp: "?sp = 112 + (3 * len_for (unat n) + length message)" by (simp add: tx_space_def TX_LEN_def)
    have "len_for (unat n) \<le> 2 ^ 32" using unat_less [of n] by (simp add: len_for_def)
    then have u: "unat (of_nat ?sp :: u64) = ?sp"
      using False by (intro unat_space) (simp add: sp MAX_MESSAGE_SIZE_def)
    then have nz: "(of_nat ?sp :: u64) \<noteq> 0" using sp by (metis add_is_0 unat_0 zero_neq_numeral)
    from create_account_effect(4) [OF spec c nz] have "data_of s1 transaction = replicate ?sp 0"
      using u by simp
    with t have "replicate ?sp 0 = tx_encode st @ tail" by (simp add: txl.uninit_Inr)
    then have "?sp = 112 + length tail" by (metis length_append length_replicate txl.enc_length)
    then show ?thesis using sp by simp
  qed
  have fits: "\<not> panics (split_at_mut (3 * len_for (unat n)) tail)"
    "split_at_mut (3 * len_for (unat n)) tail = Inr (votes, stored) \<Longrightarrow> \<not> panics (copy_from_slice stored message)"
    if "tx_split_uninitialized (ptr_of s1 transaction) (data_of s1 transaction) = Inr (st, tail)"
      "rt_create_account rt creator transaction (of_nat (tx_space (unat n) (length message))) lam
        pid seeds s0 = Inr s1"
    for n :: u32 and lam seeds s0 s1 st tail votes stored
    using split [OF that] by (auto simp: split_at_mut_def copy_from_slice_def)
  show ?thesis
    unfolding init_proposal_def Let_def fresh_transaction_update
    by (intro no_panic_intros) (use fits runtime_no_panicD [OF rt] txl.parts_no_panic in simp_all)
qed

lemma create_transaction_no_panic:
  assumes "runtime_no_panic rt" "create_account_spec pid rt"
  shows "\<not> panics (process_create_transaction rt pid accounts instr s)"
  unfolding process_create_transaction_def Let_def
  by (auto split: list.split simp: init_proposal_no_panic [OF assms])

end
