(* ===== verification/Proposal_Life.thy ===== *)
theory Proposal_Life
  imports Ballot Vote Execute Create
begin

text \<open>
  The life of one proposal: the handlers approve, reject, cancel and execute implement the steps of
  the abstract ballot, and from the instruction that created the proposal on,
  whatever happens to the other accounts and to the configuration, its status means what the
  ballot says.
\<close>

section \<open>The electorate of a configuration\<close>

definition voter_set :: "address list \<Rightarrow> bytes \<Rightarrow> address set" where
  "voter_set owners permissions =
     fst ` set (filter (\<lambda>(_, mask). mask_can_vote mask) (zip owners permissions))"

lemma voter_set_nth:
  "i < length owners \<Longrightarrow> i < length permissions \<Longrightarrow> mask_can_vote (permissions ! i) \<Longrightarrow>
   owners ! i \<in> voter_set owners permissions"
  by (force simp: voter_set_def set_zip)

lemma voter_set_iff:
  "a \<in> voter_set owners permissions \<longleftrightarrow>
     (\<exists>i. i < length owners \<and> i < length permissions \<and> owners ! i = a \<and> mask_can_vote (permissions ! i))"
  by (force simp: voter_set_def set_zip)

lemma length_filter_zip:
  "length xs = length ys \<Longrightarrow> length (filter (\<lambda>(_, y). P y) (zip xs ys)) = length (filter P ys)"
  by (induction xs ys rule: list_induct2) auto

lemma card_voter_set:
  assumes "ascending owners" "length permissions = length owners"
  shows "card (voter_set owners permissions) = voters permissions"
proof -
  let ?xs = "filter (\<lambda>(_, mask). mask_can_vote mask) (zip owners permissions)"
  have "distinct owners" using assms(1) by (rule ascending_distinct)
  then have "distinct (map fst ?xs)" by (intro distinct_map_filter) (simp add: assms(2))
  from distinct_card [OF this] have "card (fst ` set ?xs) = length ?xs" by (simp only: set_map length_map)
  then show ?thesis
    using length_filter_zip [of owners permissions mask_can_vote] assms(2)
    by (simp only: voter_set_def voters_def)
qed

lemma finite_voter_set [simp]: "finite (voter_set owners permissions)"
  by (simp add: voter_set_def)

interpretation el: electorate "\<lambda>(c, os, ps). ms_wf c os ps" "\<lambda>(c, os, ps). voter_set os ps"
  "\<lambda>(c, os, ps). unat (ms_threshold c)"
  by unfold_locales
     (auto simp: ms_wf_def ms_invariant_iff card_voter_set)

lemmas electorate_facts =
  el.step_ok [of "(c, os, ps)" for c os ps, simplified]
  el.fresh_ok [of "(c, os, ps)" for c os ps, simplified]

section \<open>The ballot of a proposal\<close>

definition status_of :: "u8 \<Rightarrow> transaction_status" where
  "status_of v = (case status_from_u8 v of Inr st \<Rightarrow> st | Inl _ \<Rightarrow> Active)"

lemma status_of_to [simp]: "status_of (status_to_u8 st) = st"
  by (simp add: status_of_def)

lemma status_of_numerals [simp]:
  "status_of 0 = Active" "status_of 1 = Approved" "status_of 2 = Rejected" "status_of 3 = Executed"
  "status_of 4 = Cancelled"
  by (simp_all add: status_of_def status_from_u8_def)

definition ballot_of :: "address list \<Rightarrow> transaction \<Rightarrow> votes \<Rightarrow> ballot" where
  "ballot_of owners h v =
     \<lparr>b_status = status_of (tx_status h), b_approved = cast_by owners (v_approved v),
      b_rejected = cast_by owners (v_rejected v), b_cancelled = cast_by owners (v_cancelled v)\<rparr>"

lemma ballot_of_simps [simp]:
  "b_status (ballot_of owners h v) = status_of (tx_status h)"
  "b_approved (ballot_of owners h v) = cast_by owners (v_approved v)"
  "b_rejected (ballot_of owners h v) = cast_by owners (v_rejected v)"
  "b_cancelled (ballot_of owners h v) = cast_by owners (v_cancelled v)"
  by (simp_all add: ballot_of_def)

lemma cast_by_zero [simp]: "cast_by owners (replicate k 0) = {}"
  by (simp add: cast_by_def)

text \<open>What a handler leaves of the proposal: its message, its terms, and a well-formed header.\<close>

definition proposal_kept :: "transaction \<Rightarrow> transaction \<Rightarrow> bool" where
  "proposal_kept h h' \<longleftrightarrow>
     tx_multisig h' = tx_multisig h \<and> tx_creator h' = tx_creator h \<and> tx_index h' = tx_index h \<and>
     tx_owners_count h' = tx_owners_count h \<and> tx_message_len h' = tx_message_len h \<and>
     tx_bump h' = tx_bump h \<and> tx_vault_index h' = tx_vault_index h \<and>
     tx_vault_bump h' = tx_vault_bump h \<and> tx_ephemeral_count h' = tx_ephemeral_count h \<and>
     tx_ephemeral_bumps h' = tx_ephemeral_bumps h"

lemma proposal_kept_update:
  "h' = h\<lparr>tx_approved_count := n, tx_status := st, tx_approved_at := t\<rparr> \<Longrightarrow> proposal_kept h h'"
  "h' = h\<lparr>tx_rejected_count := n, tx_status := st\<rparr> \<Longrightarrow> proposal_kept h h'"
  "h' = h\<lparr>tx_cancelled_count := n, tx_status := st\<rparr> \<Longrightarrow> proposal_kept h h'"
  "h' = h\<lparr>tx_status := st\<rparr> \<Longrightarrow> proposal_kept h h'"
  by (simp_all add: proposal_kept_def)

lemma proposal_kept_trans: "proposal_kept h h' \<Longrightarrow> proposal_kept h' h'' \<Longrightarrow> proposal_kept h h''"
  by (simp add: proposal_kept_def)

lemma proposal_kept_refl [simp]: "proposal_kept h h"
  by (simp add: proposal_kept_def)

lemma owner_votes:
  assumes "ms_load p d = Inr (c, os, ps)" "is_owner os a = Some i" "mask_can_vote (ps ! i)"
  shows "a \<in> voter_set os ps"
  using loaded_owner [OF assms(1,2)] assms(3) by (auto simp: voter_set_iff)

section \<open>The handlers implement the ballot\<close>

lemma approve_refines:
  assumes run: "process_approve rt pid (owner # multisig # transaction # remaining) instr s = Inr s'"
    and ms: "ms_load (ptr_of s multisig) (data_of s multisig) = Inr (c, os, ps)" "ms_wf c os ps"
    and tx: "tx_load (ptr_of s transaction) (data_of s transaction) = Inr (h, v, m)" "tx_wf h v m"
  shows "\<exists>h' v'. s' = set_data transaction (tx_bytes h' v' m) s \<and> tx_wf h' v' m \<and> proposal_kept h h' \<and>
     cast_by os (v_approved v') \<subseteq> cast_by os (v_approved v) \<union> {v_address owner} \<and>
     ballot_step (voter_set os ps) (unat (ms_threshold c)) (ballot_of os h v) (ballot_of os h' v')"
proof -
  obtain h' v' i where e: "is_owner os (v_address owner) = Some i" "mask_can_vote (ps ! i)"
    "tx_status h = status_to_u8 Active"
    "v_address owner \<notin> cast_by os (v_approved v) \<union> cast_by os (v_rejected v)"
    "s' = set_data transaction (tx_bytes h' v' m) s" "tx_wf h' v' m"
    "cast_by os (v_approved v') = insert (v_address owner) (cast_by os (v_approved v))"
    "v_rejected v' = v_rejected v" "v_cancelled v' = v_cancelled v"
    and st: "if unat (ms_threshold c) \<le> card (cast_by os (v_approved v'))
      then tx_status h' = status_to_u8 Approved \<and> rt_clock rt = Inr (tx_approved_at h')
      else tx_status h' = status_to_u8 Active \<and> tx_approved_at h' = tx_approved_at h"
    and h': "h' = h\<lparr>tx_approved_count := tx_approved_count h + 1, tx_status := tx_status h',
            tx_approved_at := tx_approved_at h'\<rparr>"
    using approve_effect [OF assms] by blast
  have kept: "proposal_kept h h'" using h' by (rule proposal_kept_update)
  have ab: "b_status (ballot_of os h v) = Active" "v_address owner \<in> voter_set os ps"
    "v_address owner \<notin> b_approved (ballot_of os h v) \<union> b_rejected (ballot_of os h v)"
    using e owner_votes [OF ms(1)] by auto
  have "ballot_of os h' v' = (ballot_of os h v)
     \<lparr>b_approved := insert (v_address owner) (b_approved (ballot_of os h v)),
      b_status := (if unat (ms_threshold c) \<le> card (insert (v_address owner) (b_approved (ballot_of os h v)))
                   then Approved else Active)\<rparr>"
    using st e(7-9) by (auto simp: ballot_of_def)
  with ballot_step.approve [OF ab] have
    "ballot_step (voter_set os ps) (unat (ms_threshold c)) (ballot_of os h v) (ballot_of os h' v')" by simp
  moreover have "cast_by os (v_approved v') \<subseteq> cast_by os (v_approved v) \<union> {v_address owner}" using e(7) by blast
  ultimately show ?thesis using e(5,6) kept by blast
qed

lemma reject_refines:
  assumes run: "process_reject pid (owner # multisig # transaction # remaining) instr s = Inr s'"
    and ms: "ms_load (ptr_of s multisig) (data_of s multisig) = Inr (c, os, ps)" "ms_wf c os ps"
    and tx: "tx_load (ptr_of s transaction) (data_of s transaction) = Inr (h, v, m)" "tx_wf h v m"
  shows "\<exists>h' v'. s' = set_data transaction (tx_bytes h' v' m) s \<and> tx_wf h' v' m \<and> proposal_kept h h' \<and>
     cast_by os (v_approved v') \<subseteq> cast_by os (v_approved v) \<and>
     ballot_step (voter_set os ps) (unat (ms_threshold c)) (ballot_of os h v) (ballot_of os h' v')"
proof -
  obtain h' v' i where e: "is_owner os (v_address owner) = Some i" "mask_can_vote (ps ! i)"
    "tx_status h = status_to_u8 Active"
    "v_address owner \<notin> cast_by os (v_approved v) \<union> cast_by os (v_rejected v)"
    "s' = set_data transaction (tx_bytes h' v' m) s" "tx_wf h' v' m"
    "cast_by os (v_rejected v') = insert (v_address owner) (cast_by os (v_rejected v))"
    "v_approved v' = v_approved v" "v_cancelled v' = v_cancelled v"
    and st: "tx_status h' = status_to_u8
       (if voters ps - card (cast_by os (v_rejected v')) < unat (ms_threshold c) then Rejected else Active)"
    and h': "h' = h\<lparr>tx_rejected_count := tx_rejected_count h + 1, tx_status := tx_status h'\<rparr>"
    using reject_effect [OF assms] by blast
  have kept: "proposal_kept h h'" using h' by (rule proposal_kept_update)
  have ab: "b_status (ballot_of os h v) = Active" "v_address owner \<in> voter_set os ps"
    "v_address owner \<notin> b_approved (ballot_of os h v) \<union> b_rejected (ballot_of os h v)"
    using e owner_votes [OF ms(1)] by auto
  have "card (voter_set os ps) = voters ps"
    using ms(2) by (simp add: ms_wf_def card_voter_set)
  then have "ballot_of os h' v' = (ballot_of os h v)
     \<lparr>b_rejected := insert (v_address owner) (b_rejected (ballot_of os h v)),
      b_status := (if card (voter_set os ps) - card (insert (v_address owner) (b_rejected (ballot_of os h v)))
                      < unat (ms_threshold c) then Rejected else Active)\<rparr>"
    using st e(7-9) by (auto simp: ballot_of_def)
  with ballot_step.reject [OF ab] have
    "ballot_step (voter_set os ps) (unat (ms_threshold c)) (ballot_of os h v) (ballot_of os h' v')" by simp
  moreover have "cast_by os (v_approved v') \<subseteq> cast_by os (v_approved v)" by (simp add: e(8))
  ultimately show ?thesis using e(5,6) kept by blast
qed

lemma cancel_refines:
  assumes run: "process_cancel pid (signer # multisig # transaction # remaining) instr s = Inr s'"
    and ms: "ms_load (ptr_of s multisig) (data_of s multisig) = Inr (c, os, ps)" "ms_wf c os ps"
    and tx: "tx_load (ptr_of s transaction) (data_of s transaction) = Inr (h, v, m)" "tx_wf h v m"
  shows "\<exists>h' v'. s' = set_data transaction (tx_bytes h' v' m) s \<and> tx_wf h' v' m \<and> proposal_kept h h' \<and>
     cast_by os (v_approved v') \<subseteq> cast_by os (v_approved v) \<and>
     ballot_step (voter_set os ps) (unat (ms_threshold c)) (ballot_of os h v) (ballot_of os h' v')"
proof -
  obtain h' v' where e: "s' = set_data transaction (tx_bytes h' v' m) s" "tx_wf h' v' m"
    "v_approved v' = v_approved v" "v_rejected v' = v_rejected v"
    and paths: "tx_status h = status_to_u8 Active \<and> tx_creator h = v_address signer \<and>
        h' = h\<lparr>tx_status := status_to_u8 Cancelled\<rparr> \<and> v' = v \<or>
      tx_status h = status_to_u8 Approved \<and> v_address signer \<notin> cast_by os (v_cancelled v) \<and>
        (\<exists>i. is_owner os (v_address signer) = Some i \<and> mask_can_vote (ps ! i)) \<and>
        cast_by os (v_cancelled v') = insert (v_address signer) (cast_by os (v_cancelled v)) \<and>
        unat (tx_cancelled_count h') = card (cast_by os (v_cancelled v')) \<and>
        tx_status h' = status_to_u8
          (if unat (ms_threshold c) \<le> card (cast_by os (v_cancelled v')) then Cancelled else Approved) \<and>
        h' = h\<lparr>tx_cancelled_count := tx_cancelled_count h + 1, tx_status := tx_status h'\<rparr>"
    using cancel_effect [OF assms] by blast
  have same: "cast_by os (v_approved v') \<subseteq> cast_by os (v_approved v)" by (simp add: e(3))
  from paths show ?thesis
  proof (elim disjE conjE exE)
    assume a: "tx_status h = status_to_u8 Active" and h': "h' = h\<lparr>tx_status := status_to_u8 Cancelled\<rparr>"
      and v': "v' = v"
    have "ballot_of os h' v' = (ballot_of os h v)\<lparr>b_status := Cancelled\<rparr>"
      by (simp add: h' v' ballot_of_def del: status_to_u8.simps)
    moreover have "b_status (ballot_of os h v) = Active" by (simp add: a del: status_to_u8.simps)
    ultimately have "ballot_step (voter_set os ps) (unat (ms_threshold c)) (ballot_of os h v) (ballot_of os h' v')"
      by (metis ballot_step.withdraw)
    moreover have "proposal_kept h h'" using h' by (rule proposal_kept_update)
    ultimately show ?thesis using e(1,2) same by blast
  next
    fix i
    assume a: "tx_status h = status_to_u8 Approved" "v_address signer \<notin> cast_by os (v_cancelled v)"
      "is_owner os (v_address signer) = Some i" "mask_can_vote (ps ! i)"
      "cast_by os (v_cancelled v') = insert (v_address signer) (cast_by os (v_cancelled v))"
      "tx_status h' = status_to_u8
          (if unat (ms_threshold c) \<le> card (cast_by os (v_cancelled v')) then Cancelled else Approved)"
      and h': "h' = h\<lparr>tx_cancelled_count := tx_cancelled_count h + 1, tx_status := tx_status h'\<rparr>"
    have kept: "proposal_kept h h'" using h' by (rule proposal_kept_update)
    have ab: "b_status (ballot_of os h v) = Approved" "v_address signer \<in> voter_set os ps"
      "v_address signer \<notin> b_cancelled (ballot_of os h v)"
      using a owner_votes [OF ms(1)] by auto
    have "ballot_of os h' v' = (ballot_of os h v)
       \<lparr>b_cancelled := insert (v_address signer) (b_cancelled (ballot_of os h v)),
        b_status := (if unat (ms_threshold c) \<le> card (insert (v_address signer) (b_cancelled (ballot_of os h v)))
                     then Cancelled else Approved)\<rparr>"
      using a e by (simp add: ballot_of_def)
    with ballot_step.vote_cancel [OF ab] have
      "ballot_step (voter_set os ps) (unat (ms_threshold c)) (ballot_of os h v) (ballot_of os h' v')" by simp
    with e(1,2) same kept show ?thesis by blast
  qed
qed

definition runtime_ok :: "address \<Rightarrow> runtime \<Rightarrow> bool" where
  "runtime_ok pid rt \<longleftrightarrow>
     create_account_spec pid rt \<and> resize_spec rt \<and> transfer_spec rt \<and> close_spec rt \<and> invoke_spec pid rt"

lemma execute_refines:
  assumes rt: "runtime_ok pid rt"
    and run: "process_execute rt pid (executor # multisig # transaction # remaining) instr s = Inr s'"
    and tx: "tx_load (ptr_of s transaction) (data_of s transaction) = Inr (h, v, m)" "tx_wf h v m"
    and differ: "v_address transaction \<noteq> v_address multisig"
  shows "\<exists>h'. tx_load (ptr_of s' transaction) (data_of s' transaction) = Inr (h', v, m) \<and>
     tx_wf h' v m \<and> proposal_kept h h' \<and> tx_status h' = status_to_u8 Executed \<and>
     ballot_step V k (ballot_of os h v) (ballot_of os h' v)"
proof -
  note spec = rt [unfolded runtime_ok_def, THEN conjunct2, THEN conjunct1]
    rt [unfolded runtime_ok_def, THEN conjunct2, THEN conjunct2, THEN conjunct1]
    rt [unfolded runtime_ok_def, THEN conjunct2, THEN conjunct2, THEN conjunct2, THEN conjunct1]
    rt [unfolded runtime_ok_def, THEN conjunct2, THEN conjunct2, THEN conjunct2, THEN conjunct2]
  let ?h = "h\<lparr>tx_status := status_to_u8 Executed\<rparr>"
  obtain h0 v0 m0 s1 hd keys ixs lks signers where
      own: "acc_owner (account_of s transaction) = pid"
    and load: "tx_load (ptr_of s transaction) (data_of s transaction) = Inr (h0, v0, m0)"
    and st: "tx_status h0 = status_to_u8 Approved"
    and s1: "s1 = set_data transaction (tx_bytes (h0\<lparr>tx_status := status_to_u8 Executed\<rparr>) v0 m0) s"
    and fold: "fold_result (execute_instruction rt pid executor multisig remaining
       (message_of hd keys ixs lks) signers) ixs s1 = Inr s'"
    by (rule execute_run [OF run]) blast
  have eq: "h0 = h" "v0 = v" "m0 = m" using load tx(1) by simp_all
  have own1: "acc_owner (account_of s1 transaction) = pid" using own by (simp add: s1)
  have "data_of s' transaction = tx_bytes ?h v m" "ptr_of s' transaction = ptr_of s transaction"
    using execute_loop_frame [OF spec fold differ own1] by (simp_all add: s1 eq)
  then have load': "tx_load (ptr_of s' transaction) (data_of s' transaction) = Inr (?h, v, m)"
    using tx(1) by (simp add: tx_load_Inr votes_fit_def)
  have "tx_invariant ?h = Inr ()"
    using tx(2) by (simp add: tx_wf_def tx_invariant_iff del: status_to_u8.simps)
  then have wf: "tx_wf ?h v m" using tx(2) by (simp add: tx_wf_def votes_fit_def)
  have "b_status (ballot_of os h v) = Approved" using st by (simp add: eq)
  then have "ballot_step V k (ballot_of os h v) ((ballot_of os h v)\<lparr>b_status := Executed\<rparr>)"
    by (rule ballot_step.execute)
  moreover have "ballot_of os ?h v = (ballot_of os h v)\<lparr>b_status := Executed\<rparr>"
    by (simp add: ballot_of_def)
  ultimately have "ballot_step V k (ballot_of os h v) (ballot_of os ?h v)" by (simp only:)
  then show ?thesis
    using load' wf by (intro exI [of _ ?h]) (simp add: proposal_kept_def del: status_to_u8.simps)
qed

section \<open>The life of a proposal\<close>

text \<open>
  What may happen beside the proposal at address \<open>T\<close> under the configuration at \<open>M\<close>: nothing writes
  the proposal, and, while it is not executed, the configuration either keeps what voting reads or declares the
  proposal stale. Every configuration change of the program but closing does so.
\<close>

definition same_electorate ::
  "multisig \<times> address list \<times> bytes \<Rightarrow> multisig \<times> address list \<times> bytes \<Rightarrow> bool" where
  "same_electorate = (\<lambda>(c, os, ps) (c', os', ps').
     os' = os \<and> ps' = ps \<and> ms_threshold c' = ms_threshold c \<and> ms_wf c' os' ps')"

definition beside :: "address \<Rightarrow> address \<Rightarrow> store \<Rightarrow> store \<Rightarrow> bool" where
  "beside M T s s' \<longleftrightarrow>
     acc_data (s' T) = acc_data (s T) \<and> (8 dvd data_ptr (s T) \<longrightarrow> 8 dvd data_ptr (s' T)) \<and>
     (\<forall>c os ps h v m. ms_load (data_ptr (s M)) (acc_data (s M)) = Inr (c, os, ps) \<longrightarrow>
        tx_load (data_ptr (s T)) (acc_data (s T)) = Inr (h, v, m) \<longrightarrow>
        tx_status h \<noteq> status_to_u8 Executed \<longrightarrow>
        (\<exists>c' os' ps'. ms_load (data_ptr (s' M)) (acc_data (s' M)) = Inr (c', os', ps') \<and>
           ms_stale_transaction_index c \<le> ms_stale_transaction_index c' \<and>
           (same_electorate (c, os, ps) (c', os', ps') \<or>
            tx_index h \<le> ms_stale_transaction_index c')))"

text \<open>One step carries the owner whose approval it is, if it is one; a life carries all of them.\<close>

inductive life_step :: "address \<Rightarrow> address \<Rightarrow> address \<Rightarrow> address set \<Rightarrow> store \<Rightarrow> store \<Rightarrow> bool"
  for pid M T where
  approving: "process_approve rt pid (owner # multisig # transaction # remaining) instr s = Inr s' \<Longrightarrow>
    v_address multisig = M \<Longrightarrow> v_address transaction = T \<Longrightarrow> life_step pid M T {v_address owner} s s'"
| rejecting: "process_reject pid (owner # multisig # transaction # remaining) instr s = Inr s' \<Longrightarrow>
    v_address multisig = M \<Longrightarrow> v_address transaction = T \<Longrightarrow> life_step pid M T {} s s'"
| cancelling: "process_cancel pid (owner # multisig # transaction # remaining) instr s = Inr s' \<Longrightarrow>
    v_address multisig = M \<Longrightarrow> v_address transaction = T \<Longrightarrow> life_step pid M T {} s s'"
| executing: "runtime_ok pid rt \<Longrightarrow>
    process_execute rt pid (executor # multisig # transaction # remaining) instr s = Inr s' \<Longrightarrow>
    v_address multisig = M \<Longrightarrow> v_address transaction = T \<Longrightarrow> life_step pid M T {} s s'"
| elsewhere: "beside M T s s' \<Longrightarrow> life_step pid M T {} s s'"

inductive life :: "address \<Rightarrow> address \<Rightarrow> address \<Rightarrow> address set \<Rightarrow> store \<Rightarrow> store \<Rightarrow> bool"
  for pid M T where
  born: "life pid M T {} s s"
| goes_on: "life pid M T A s s' \<Longrightarrow> life_step pid M T B s' s'' \<Longrightarrow> life pid M T (A \<union> B) s s''"

text \<open>What holds all along: the proposal is well formed and its terms are the first ones, its ballot is
  a good one for the first electorate, its approvals are those of the owners \<open>A\<close>, and the configuration still has that electorate, or has left
  the proposal behind, or the proposal has been executed.\<close>

definition life_inv ::
  "address \<Rightarrow> address \<Rightarrow> multisig \<times> address list \<times> bytes \<Rightarrow> transaction \<Rightarrow> bytes \<Rightarrow>
   address set \<Rightarrow> store \<Rightarrow> bool" where
  "life_inv M T cfg h0 m A s = (case cfg of (c0, os0, ps0) \<Rightarrow>
     \<exists>h v. tx_load (data_ptr (s T)) (acc_data (s T)) = Inr (h, v, m) \<and> tx_wf h v m \<and>
        proposal_kept h0 h \<and>
        ballot_ok (voter_set os0 ps0) (unat (ms_threshold c0)) (ballot_of os0 h v) \<and>
        cast_by os0 (v_approved v) \<subseteq> A \<and>
        (tx_status h = status_to_u8 Executed \<or>
         (\<exists>c os ps. ms_load (data_ptr (s M)) (acc_data (s M)) = Inr (c, os, ps) \<and>
            (same_electorate cfg (c, os, ps) \<or> tx_index h \<le> ms_stale_transaction_index c))))"

lemma life_inv_vote:
  assumes inv: "life_inv M T cfg h0 m A s" and differ: "M \<noteq> T" and T: "v_address transaction = T"
    and vote: "\<And>c os ps h v. ms_load (data_ptr (s M)) (acc_data (s M)) = Inr (c, os, ps) \<Longrightarrow>
       tx_load (data_ptr (s T)) (acc_data (s T)) = Inr (h, v, m) \<Longrightarrow> tx_wf h v m \<Longrightarrow>
       ms_stale_transaction_index c < tx_index h \<and>
       (ms_wf c os ps \<longrightarrow> (\<exists>h' v'. s' = set_data transaction (tx_bytes h' v' m) s \<and> tx_wf h' v' m \<and>
          proposal_kept h h' \<and> cast_by os (v_approved v') \<subseteq> cast_by os (v_approved v) \<union> B \<and>
          ballot_step (voter_set os ps) (unat (ms_threshold c)) (ballot_of os h v) (ballot_of os h' v')))"
    and open': "\<And>h v. tx_load (data_ptr (s T)) (acc_data (s T)) = Inr (h, v, m) \<Longrightarrow>
       tx_status h \<noteq> status_to_u8 Executed"
  shows "life_inv M T cfg h0 m (A \<union> B) s'"
proof -
  obtain c0 os0 ps0 where cfg: "cfg = (c0, os0, ps0)" by (metis prod_cases3)
  from inv obtain h v where
      tx: "tx_load (data_ptr (s T)) (acc_data (s T)) = Inr (h, v, m)" "tx_wf h v m"
    and kept: "proposal_kept h0 h"
    and signed: "cast_by os0 (v_approved v) \<subseteq> A"
    and ok: "ballot_ok (voter_set os0 ps0) (unat (ms_threshold c0)) (ballot_of os0 h v)"
    and c: "tx_status h = status_to_u8 Executed \<or>
         (\<exists>c os ps. ms_load (data_ptr (s M)) (acc_data (s M)) = Inr (c, os, ps) \<and>
            (same_electorate cfg (c, os, ps) \<or> tx_index h \<le> ms_stale_transaction_index c))"
    unfolding life_inv_def cfg prod.case by blast
  from c open' [OF tx(1)] obtain c os ps where
      ms: "ms_load (data_ptr (s M)) (acc_data (s M)) = Inr (c, os, ps)"
    and e: "same_electorate cfg (c, os, ps) \<or> tx_index h \<le> ms_stale_transaction_index c" by blast
  note r = vote [OF ms tx]
  from e r have same: "same_electorate cfg (c, os, ps)" by auto
  then have eq: "os = os0" "ps = ps0" "ms_threshold c = ms_threshold c0" "ms_wf c os ps"
    by (auto simp: same_electorate_def cfg)
  from r eq(4) obtain h' v' where s': "s' = set_data transaction (tx_bytes h' v' m) s"
    and wf: "tx_wf h' v' m" and kept': "proposal_kept h h'"
    and add: "cast_by os (v_approved v') \<subseteq> cast_by os (v_approved v) \<union> B"
    and step: "ballot_step (voter_set os ps) (unat (ms_threshold c)) (ballot_of os h v) (ballot_of os h' v')"
    by blast
  have "ballot_ok (voter_set os0 ps0) (unat (ms_threshold c0)) (ballot_of os0 h' v')"
    using el.step_ok [of "(c, os, ps)", simplified, OF eq(4) step] ok by (simp add: eq)
  moreover have "cast_by os0 (v_approved v') \<subseteq> A \<union> B" using add signed eq(1) by blast
  moreover have "tx_load (data_ptr (s' T)) (acc_data (s' T)) = Inr (h', v', m)"
    using tx(1) tx_wf_fits [OF wf] by (simp add: s' T tx_load_Inr)
  moreover have "ms_load (data_ptr (s' M)) (acc_data (s' M)) = Inr (c, os, ps)"
    using ms differ T by (simp add: s')
  ultimately show ?thesis
    using wf proposal_kept_trans [OF kept kept'] same unfolding life_inv_def cfg prod.case by blast
qed

lemma life_inv_beside:
  assumes inv: "life_inv M T cfg h0 m A s" and step: "beside M T s s'"
  shows "life_inv M T cfg h0 m A s'"
proof -
  obtain c0 os0 ps0 where cfg: "cfg = (c0, os0, ps0)" by (metis prod_cases3)
  from inv obtain h v where
      tx: "tx_load (data_ptr (s T)) (acc_data (s T)) = Inr (h, v, m)" "tx_wf h v m" "proposal_kept h0 h"
      "ballot_ok (voter_set os0 ps0) (unat (ms_threshold c0)) (ballot_of os0 h v)"
      "cast_by os0 (v_approved v) \<subseteq> A"
    and c: "tx_status h = status_to_u8 Executed \<or>
         (\<exists>c os ps. ms_load (data_ptr (s M)) (acc_data (s M)) = Inr (c, os, ps) \<and>
            (same_electorate cfg (c, os, ps) \<or> tx_index h \<le> ms_stale_transaction_index c))"
    unfolding life_inv_def cfg prod.case by blast
  have tx': "tx_load (data_ptr (s' T)) (acc_data (s' T)) = Inr (h, v, m)"
    using tx(1) step by (simp add: beside_def tx_load_Inr)
  have "tx_status h = status_to_u8 Executed \<or>
         (\<exists>c os ps. ms_load (data_ptr (s' M)) (acc_data (s' M)) = Inr (c, os, ps) \<and>
            (same_electorate cfg (c, os, ps) \<or> tx_index h \<le> ms_stale_transaction_index c))"
  proof (cases "tx_status h = status_to_u8 Executed")
    case False
    with c obtain c os ps where ms: "ms_load (data_ptr (s M)) (acc_data (s M)) = Inr (c, os, ps)"
      and e: "same_electorate cfg (c, os, ps) \<or> tx_index h \<le> ms_stale_transaction_index c" by blast
    from step ms tx(1) False obtain c' os' ps' where
        ms': "ms_load (data_ptr (s' M)) (acc_data (s' M)) = Inr (c', os', ps')"
      and le: "ms_stale_transaction_index c \<le> ms_stale_transaction_index c'"
      and d: "same_electorate (c, os, ps) (c', os', ps') \<or> tx_index h \<le> ms_stale_transaction_index c'"
      unfolding beside_def by blast
    from e d le have "same_electorate cfg (c', os', ps') \<or> tx_index h \<le> ms_stale_transaction_index c'"
      by (auto simp: same_electorate_def cfg)
    with ms' show ?thesis by blast
  qed blast
  with tx tx' show ?thesis unfolding life_inv_def cfg prod.case by blast
qed

lemma votable_status:
  "process_approve rt pid (owner # multisig # transaction # remaining) instr s = Inr s' \<or>
   process_reject pid (owner # multisig # transaction # remaining) instr s = Inr s' \<or>
   process_cancel pid (owner # multisig # transaction # remaining) instr s = Inr s' \<Longrightarrow>
   tx_load (ptr_of s transaction) (data_of s transaction) = Inr (h, v, m) \<Longrightarrow>
   tx_status h \<noteq> status_to_u8 Executed"
  unfolding process_approve_def process_reject_def process_cancel_def tx_load_mut_eq
  by (auto simp: and_then_Inr check_votable_Inr status_from_u8_Inr split: transaction_status.splits)
     (metis transaction_status.exhaust)

lemma votable_index:
  assumes "process_approve rt pid (owner # multisig # transaction # remaining) instr s = Inr s' \<or>
     process_reject pid (owner # multisig # transaction # remaining) instr s = Inr s' \<or>
     process_cancel pid (owner # multisig # transaction # remaining) instr s = Inr s'"
    and "ms_load (ptr_of s multisig) (data_of s multisig) = Inr (c, os, ps)"
    and "tx_load (ptr_of s transaction) (data_of s transaction) = Inr (h, v, m)"
  shows "ms_stale_transaction_index c < tx_index h"
  using assms(1)
proof (elim disjE)
  assume "process_approve rt pid (owner # multisig # transaction # remaining) instr s = Inr s'"
  from approve_run [OF this assms(2,3)] show ?thesis by metis
next
  assume "process_reject pid (owner # multisig # transaction # remaining) instr s = Inr s'"
  from reject_run [OF this assms(2,3)] show ?thesis by metis
next
  assume "process_cancel pid (owner # multisig # transaction # remaining) instr s = Inr s'"
  from cancel_run [OF this assms(2,3)] show ?thesis by metis
qed

lemma life_step_inv:
  assumes "life_step pid M T B s s'" and differ: "M \<noteq> T" and inv: "life_inv M T cfg h0 m A s"
  shows "life_inv M T cfg h0 m (A \<union> B) s'"
  using assms(1)
proof (cases rule: life_step.cases)
  case (approving rt owner multisig transaction remaining instr)
  then show ?thesis
    using approve_refines [OF approving(2)] votable_index [of rt pid owner multisig transaction remaining instr s s']
      votable_status [of rt pid owner multisig transaction remaining instr s s']
    by (intro life_inv_vote [OF inv differ approving(4)]) auto
next
  case (rejecting owner multisig transaction remaining instr)
  then show ?thesis
    using reject_refines [OF rejecting(2)] votable_index [of _ pid owner multisig transaction remaining instr s s']
      votable_status [of _ pid owner multisig transaction remaining instr s s']
    by (intro life_inv_vote [OF inv differ rejecting(4)]) auto
next
  case (cancelling owner multisig transaction remaining instr)
  then show ?thesis
    using cancel_refines [OF cancelling(2)] votable_index [of _ pid owner multisig transaction remaining instr s s']
      votable_status [of _ pid owner multisig transaction remaining instr s s']
    by (intro life_inv_vote [OF inv differ cancelling(4)]) auto
next
  case (executing rt executor multisig transaction remaining instr)
  obtain c0 os0 ps0 where cfg: "cfg = (c0, os0, ps0)" by (metis prod_cases3)
  from inv obtain h v where
      tx: "tx_load (data_ptr (s T)) (acc_data (s T)) = Inr (h, v, m)" "tx_wf h v m" "proposal_kept h0 h"
      "ballot_ok (voter_set os0 ps0) (unat (ms_threshold c0)) (ballot_of os0 h v)"
      "cast_by os0 (v_approved v) \<subseteq> A"
    unfolding life_inv_def cfg prod.case by blast
  from execute_refines [OF executing(2,3), of h v m "voter_set os0 ps0" "unat (ms_threshold c0)" os0]
    tx executing(4,5) differ obtain h' where
      h': "tx_load (data_ptr (s' T)) (acc_data (s' T)) = Inr (h', v, m)" "tx_wf h' v m"
      "proposal_kept h h'" "tx_status h' = status_to_u8 Executed"
    and step: "ballot_step (voter_set os0 ps0) (unat (ms_threshold c0)) (ballot_of os0 h v) (ballot_of os0 h' v)"
    by auto
  have "ballot_ok (voter_set os0 ps0) (unat (ms_threshold c0)) (ballot_of os0 h' v)"
    using step tx(4) by cases (auto simp: ballot_ok_def)
  with h' tx(5) proposal_kept_trans [OF tx(3) h'(3)] show ?thesis unfolding executing(1) Un_empty_right life_inv_def cfg prod.case by blast
next
  case elsewhere
  from life_inv_beside [OF inv elsewhere(2)] show ?thesis by (simp add: elsewhere(1))
qed

lemma life_inv_life:
  assumes "life pid M T B s s'" "M \<noteq> T" "life_inv M T cfg h0 m A s"
  shows "life_inv M T cfg h0 m (A \<union> B) s'"
  using assms by (induction rule: life.induct) (auto dest: life_step_inv simp: Un_assoc)

section \<open>All four together\<close>

lemma vote_or_execute_refines:
  assumes rt: "runtime_ok pid rt" and differ: "v_address transaction \<noteq> v_address multisig"
    and ms: "ms_load (ptr_of s multisig) (data_of s multisig) = Inr (c, os, ps)" "ms_wf c os ps"
    and tx: "tx_load (ptr_of s transaction) (data_of s transaction) = Inr (h, v, m)" "tx_wf h v m"
    and run: "process_approve rt pid (signer # multisig # transaction # remaining) instr s = Inr s' \<or>
       process_reject pid (signer # multisig # transaction # remaining) instr s = Inr s' \<or>
       process_cancel pid (signer # multisig # transaction # remaining) instr s = Inr s' \<or>
       process_execute rt pid (signer # multisig # transaction # remaining) instr s = Inr s'"
  shows "\<exists>h' v'. tx_load (ptr_of s' transaction) (data_of s' transaction) = Inr (h', v', m) \<and>
     tx_wf h' v' m \<and> proposal_kept h h' \<and>
     ballot_step (voter_set os ps) (unat (ms_threshold c)) (ballot_of os h v) (ballot_of os h' v')"
proof -
  have written: "tx_load (ptr_of s' transaction) (data_of s' transaction) = Inr (h', v', m)"
    if "s' = set_data transaction (tx_bytes h' v' m) s" "tx_wf h' v' m" for h' v'
    using that(2) tx(1) tx_wf_fits [OF that(2)] by (simp add: that(1) tx_load_Inr)
  from run show ?thesis
  proof (elim disjE)
    assume "process_approve rt pid (signer # multisig # transaction # remaining) instr s = Inr s'"
    from approve_refines [OF this ms tx] written show ?thesis by metis
  next
    assume "process_reject pid (signer # multisig # transaction # remaining) instr s = Inr s'"
    from reject_refines [OF this ms tx] written show ?thesis by metis
  next
    assume "process_cancel pid (signer # multisig # transaction # remaining) instr s = Inr s'"
    from cancel_refines [OF this ms tx] written show ?thesis by metis
  next
    assume "process_execute rt pid (signer # multisig # transaction # remaining) instr s = Inr s'"
    from execute_refines [OF rt this tx differ] show ?thesis by metis
  qed
qed

section \<open>Properties\<close>

text \<open>C5: the handlers approve, reject, cancel and execute refine the abstract ballot: each call that
  succeeds is one step of the ballot among the owners allowed to vote, with the configuration's
  threshold, on the same message and the same terms.\<close>

theorem votes_refine:
  assumes rt: "runtime_ok pid rt" and differ: "v_address transaction \<noteq> v_address multisig"
    and ms: "ms_load (ptr_of s multisig) (data_of s multisig) = Inr (c, os, ps)" "ms_wf c os ps"
    and tx: "tx_load (ptr_of s transaction) (data_of s transaction) = Inr (h, v, m)" "tx_wf h v m"
    and run: "process_approve rt pid (signer # multisig # transaction # remaining) instr s = Inr s' \<or>
       process_reject pid (signer # multisig # transaction # remaining) instr s = Inr s' \<or>
       process_cancel pid (signer # multisig # transaction # remaining) instr s = Inr s' \<or>
       process_execute rt pid (signer # multisig # transaction # remaining) instr s = Inr s'"
  shows "\<exists>h' v'. tx_load (ptr_of s' transaction) (data_of s' transaction) = Inr (h', v', m) \<and>
     tx_wf h' v' m \<and> proposal_kept h h' \<and>
     ballot_step (voter_set os ps) (unat (ms_threshold c)) (ballot_of os h v) (ballot_of os h' v')"
  by (rule vote_or_execute_refines [OF assms])

text \<open>The instruction that creates a proposal starts its life.\<close>

lemma created_life_inv:
  assumes create: "create_account_spec pid rt"
      "init_proposal rt pid creator multisig transaction m vi vb bump ec eb s = Inr s0"
      "data_of s transaction = []"
    and ms: "ms_load (ptr_of s multisig) (data_of s multisig) = Inr (c, os, ps)" "ms_wf c os ps"
  obtains t where "life_inv (v_address multisig) (v_address transaction) (c, os, ps) t m {} s0"
    "v_address multisig \<noteq> v_address transaction"
    "tx_multisig t = v_address multisig" "tx_creator t = v_address creator"
    "unat (tx_index t) = Suc (unat (ms_transaction_index c))"
    "ms_load (ptr_of s0 multisig) (data_of s0 multisig) = Inr (c\<lparr>ms_transaction_index := tx_index t\<rparr>, os, ps)"
    "ms_wf (c\<lparr>ms_transaction_index := tx_index t\<rparr>) os ps"
    "acc_owner (account_of s0 transaction) = pid"
    "acc_owner (account_of s0 multisig) = acc_owner (account_of s multisig)"
    "tx_load (ptr_of s0 transaction) (data_of s0 transaction) = Inr (t, clear_votes (ms_owners_count c), m)"
    "tx_owners_count t = ms_owners_count c"
proof -
  let ?n = "ms_owners_count c"
  obtain index where idx: "unat index = Suc (unat (ms_transaction_index c))"
    and post: "init_proposal_post rt pid creator multisig transaction m vi vb bump ec eb s s0 c os ps index"
    using init_proposal_effect [OF create] ms(1) by (metis Inr_inject prod.inject)
  define t where "t = fresh_transaction (v_address multisig) (v_address creator) index ?n m vi vb bump ec eb"
  have t: "tx_status t = status_to_u8 Active" "tx_multisig t = v_address multisig"
    "tx_creator t = v_address creator" "tx_index t = index" "tx_owners_count t = ?n"
    by (simp_all add: t_def fresh_transaction_def)
  have wf: "tx_wf t (clear_votes ?n) m"
    and load: "tx_load (ptr_of s0 transaction) (data_of s0 transaction) = Inr (t, clear_votes ?n, m)"
    and load': "ms_load (ptr_of s0 multisig) (data_of s0 multisig)
      = Inr (c\<lparr>ms_transaction_index := index\<rparr>, os, ps)"
    and own: "acc_owner (account_of s0 transaction) = pid"
      "acc_owner (account_of s0 multisig) = acc_owner (account_of s multisig)"
    using post ms(1) by (simp_all add: init_proposal_post_def Let_def t_def tx_load_Inr ms_load_Inr tx_wf_def)
  have differ: "v_address multisig \<noteq> v_address transaction"
    using ms_load_nonempty [OF ms(1)] create(3) by auto
  have wf': "ms_wf (c\<lparr>ms_transaction_index := index\<rparr>) os ps"
    using ms(2) idx by (auto simp: ms_wf_def ms_invariant_iff word_le_nat_alt)
  then have same: "same_electorate (c, os, ps) (c\<lparr>ms_transaction_index := index\<rparr>, os, ps)"
    by (simp add: same_electorate_def)
  have "ballot_of os t (clear_votes ?n) = fresh_ballot" "cast_by os (v_approved (clear_votes ?n)) = {}"
    using t(1) by (simp_all add: ballot_of_def fresh_ballot_def clear_votes_def)
  moreover have "ballot_ok (voter_set os ps) (unat (ms_threshold c)) fresh_ballot"
    using el.fresh_ok [of "(c, os, ps)"] ms(2) by simp
  ultimately have "life_inv (v_address multisig) (v_address transaction) (c, os, ps) t m {} s0"
    using wf load load' same proposal_kept_refl unfolding life_inv_def prod.case by (metis subset_refl)
  with differ t(2,3,5) idx load load' wf' own show thesis unfolding t(4) [symmetric] by (intro that) simp_all
qed

text \<open>What the status says, read off the invariant.\<close>

lemma life_inv_status:
  assumes "life_inv M T (c, os, ps) t m A s" "ms_wf c os ps"
  shows "\<exists>h v. tx_load (data_ptr (s T)) (acc_data (s T)) = Inr (h, v, m) \<and> tx_wf h v m \<and>
     tx_creator h = tx_creator t \<and> tx_multisig h = tx_multisig t \<and> proposal_kept t h \<and>
     ballot_ok (voter_set os ps) (unat (ms_threshold c)) (ballot_of os h v) \<and>
     cast_by os (v_approved v) \<subseteq> A \<and>
     (tx_status h \<in> {status_to_u8 Approved, status_to_u8 Executed} \<longrightarrow>
        unat (ms_threshold c) \<le> card (cast_by os (v_approved v)) \<and>
        cast_by os (v_approved v) \<subseteq> voter_set os ps \<and>
        card (cast_by os (v_cancelled v)) < unat (ms_threshold c)) \<and>
     (tx_status h = status_to_u8 Rejected \<longrightarrow>
        voters ps - card (cast_by os (v_rejected v)) < unat (ms_threshold c))"
proof -
  from assms(1) obtain h v where
      h: "tx_load (data_ptr (s T)) (acc_data (s T)) = Inr (h, v, m)" "tx_wf h v m"
      "proposal_kept t h" "cast_by os (v_approved v) \<subseteq> A"
    and ok: "ballot_ok (voter_set os ps) (unat (ms_threshold c)) (ballot_of os h v)"
    unfolding life_inv_def prod.case by blast
  have "card (voter_set os ps) = voters ps" using assms(2) by (simp add: ms_wf_def card_voter_set)
  then have "(tx_status h \<in> {status_to_u8 Approved, status_to_u8 Executed} \<longrightarrow>
        unat (ms_threshold c) \<le> card (cast_by os (v_approved v)) \<and>
        cast_by os (v_approved v) \<subseteq> voter_set os ps \<and>
        card (cast_by os (v_cancelled v)) < unat (ms_threshold c)) \<and>
     (tx_status h = status_to_u8 Rejected \<longrightarrow>
        voters ps - card (cast_by os (v_rejected v)) < unat (ms_threshold c))"
    using ok by (auto simp: ballot_ok_def)
  with h ok show ?thesis unfolding proposal_kept_def by metis
qed

text \<open>C4: from the instruction that creates a proposal on, through any sequence of approvals,
  rejections, cancellations and executions of it, mixed with anything that does not write the
  proposal and either keeps the electorate or makes the proposal stale, the proposal keeps its
  message and every one of its terms (its creator, multisig and index, the vault it spends from with the bumps
  of its signers, its own bump, the number of owners it counts), only owners whose approval succeeded count as
  approving, and its status tells the
  truth about the owners who could vote when it was created: Approved or Executed means at least
  threshold of them approved and fewer cancelled, Rejected that too few are left to approve, Cancelled
  after an approval that threshold of them cancelled, and none of them both approved and rejected.\<close>

theorem status_means_votes:
  assumes create: "create_account_spec pid rt"
      "process_create_transaction rt pid (creator # multisig # transaction # sp # remaining) instr s = Inr s0"
    and ms: "ms_load (ptr_of s multisig) (data_of s multisig) = Inr (c, os, ps)" "ms_wf c os ps"
    and life: "life pid (v_address multisig) (v_address transaction) A s0 s'"
  shows "\<exists>t h v. tx_load (ptr_of s0 transaction) (data_of s0 transaction)
       = Inr (t, clear_votes (ms_owners_count c), drop CREATE_LEN instr) \<and>
     tx_load (ptr_of s' transaction) (data_of s' transaction) = Inr (h, v, drop CREATE_LEN instr) \<and>
     tx_wf h v (drop CREATE_LEN instr) \<and> proposal_kept t h \<and>
     tx_creator h = v_address creator \<and> tx_multisig h = v_address multisig \<and>
     unat (tx_index h) = Suc (unat (ms_transaction_index c)) \<and>
     ballot_ok (voter_set os ps) (unat (ms_threshold c)) (ballot_of os h v) \<and>
     cast_by os (v_approved v) \<subseteq> A \<and>
     (tx_status h \<in> {status_to_u8 Approved, status_to_u8 Executed} \<longrightarrow>
        unat (ms_threshold c) \<le> card (cast_by os (v_approved v)) \<and>
        cast_by os (v_approved v) \<subseteq> voter_set os ps \<and>
        card (cast_by os (v_cancelled v)) < unat (ms_threshold c)) \<and>
     (tx_status h = status_to_u8 Rejected \<longrightarrow>
        voters ps - card (cast_by os (v_rejected v)) < unat (ms_threshold c))"
proof -
  note init = create_transaction_init(4,3) [OF create(2)]
  obtain t where
      inv: "life_inv (v_address multisig) (v_address transaction) (c, os, ps) t (drop CREATE_LEN instr) {} s0"
    and differ: "v_address multisig \<noteq> v_address transaction"
    and t: "tx_multisig t = v_address multisig" "tx_creator t = v_address creator"
      "unat (tx_index t) = Suc (unat (ms_transaction_index c))"
    and load: "tx_load (ptr_of s0 transaction) (data_of s0 transaction)
      = Inr (t, clear_votes (ms_owners_count c), drop CREATE_LEN instr)"
    by (rule created_life_inv [OF create(1) init ms])
  from life_inv_status [OF life_inv_life [OF life differ inv] ms(2)] obtain h v where
      h: "tx_load (ptr_of s' transaction) (data_of s' transaction) = Inr (h, v, drop CREATE_LEN instr)"
        "tx_wf h v (drop CREATE_LEN instr)" "proposal_kept t h"
    and votes: "ballot_ok (voter_set os ps) (unat (ms_threshold c)) (ballot_of os h v)"
      "cast_by os (v_approved v) \<subseteq> A"
      "tx_status h \<in> {status_to_u8 Approved, status_to_u8 Executed} \<longrightarrow>
        unat (ms_threshold c) \<le> card (cast_by os (v_approved v)) \<and>
        cast_by os (v_approved v) \<subseteq> voter_set os ps \<and>
        card (cast_by os (v_cancelled v)) < unat (ms_threshold c)"
      "tx_status h = status_to_u8 Rejected \<longrightarrow>
        voters ps - card (cast_by os (v_rejected v)) < unat (ms_threshold c)"
    by auto
  have "tx_creator h = v_address creator" "tx_multisig h = v_address multisig"
    "unat (tx_index h) = Suc (unat (ms_transaction_index c))"
    using h(3) t by (simp_all add: proposal_kept_def)
  with load h votes show ?thesis by blast
qed

end
