(* ===== verification/Init.thy ===== *)
theory Init
  imports Multisig_State
begin

text \<open>
  Instruction 0, src/instruction/init_multisig.rs: the payload header, the handler, and the
  well-formedness of the account it creates.
\<close>

record init_multisig_data =
  in_threshold :: u32
  in_owners_count :: u32
  in_bump :: u8
  in_pad :: bytes
  in_config_authority :: address

definition INIT_LEN :: nat where "INIT_LEN = 44"

text \<open>The packed header read from the front of the payload.\<close>

definition init_multisig_data_of :: "bytes \<Rightarrow> init_multisig_data" where
  "init_multisig_data_of bs =
     \<lparr>in_threshold = from_le_bytes (slice 0 4 bs), in_owners_count = from_le_bytes (slice 4 4 bs),
      in_bump = bs ! 8, in_pad = slice 9 3 bs,
      in_config_authority = new_from_array (slice 12 32 bs)\<rparr>"

text \<open>The scan for strictly ascending owners.\<close>

definition check_sorted :: "address list \<Rightarrow> unit result" where
  "check_sorted owners =
     fold_result (\<lambda>i _. if owners ! i \<le> owners ! (i - 1) then fail OwnersNotSorted else Inr ())
       [1..<length owners] ()"

definition process_init_multisig ::
  "runtime \<Rightarrow> address \<Rightarrow> view list \<Rightarrow> bytes \<Rightarrow> store \<Rightarrow> store result" where
  "process_init_multisig rt program_id accounts instruction s =
     (case accounts of
        creator # create_key # multisig # system_program_view # remaining \<Rightarrow>
          and_then (check_signer creator MissingSignature) (\<lambda>_.
          and_then (check_signer create_key MissingSignature) (\<lambda>_.
          and_then (validate_eq (v_address system_program_view) system_program InvalidProgramId) (\<lambda>_.
          if data_of s multisig \<noteq> [] \<or> lamports (account_of s multisig) \<noteq> 0
          then fail AlreadyInitialized
          else if length instruction < INIT_LEN then fail InvalidInstructionData
          else
            let data = init_multisig_data_of instruction;
                owner_bytes = drop INIT_LEN instruction;
                owners_count = unat (in_owners_count data) in
            if owners_count = 0 \<or> MAX_OWNER < owners_count then fail InvalidOwnerCount
            else if length owner_bytes \<noteq> owners_count * 32 then fail InvalidInstructionData
            else
              let owners = decode_array 32 new_from_array owners_count owner_bytes in
              and_then (check_sorted owners) (\<lambda>_.
              let seeds = [MULTISIG_SEED, as_array (v_address create_key), [in_bump data]];
                  space = ms_space owners_count in
              and_then (rt_rent rt) (\<lambda>minimum_balance.
              and_then (rt_create_account rt creator multisig (of_nat space) (minimum_balance space)
                  program_id seeds s) (\<lambda>s.
              and_then (ms_split_uninitialized (ptr_of s multisig) (data_of s multisig))
                (\<lambda>(state, tail).
              let state = state\<lparr>ms_create_key := v_address create_key,
                    ms_config_authority := in_config_authority data,
                    ms_rent_collector := default_address,
                    ms_transaction_index := 0,
                    ms_stale_transaction_index := 0,
                    ms_closed_transaction_count := 0,
                    ms_time_lock := 0,
                    ms_owners_count := in_owners_count data,
                    ms_voter_count := in_owners_count data,
                    ms_threshold := in_threshold data,
                    ms_bump := in_bump data,
                    ms_pad := 0\<rparr> in
              and_then (split_at_mut (owners_count * 32) tail) (\<lambda>(stored_owners, permissions).
              and_then (copy_from_slice stored_owners owner_bytes) (\<lambda>stored_owners.
              let permissions = replicate (length permissions) 0;
                  s = set_data multisig (ms_encode state @ stored_owners @ permissions) s in
              and_then (ms_invariant state) (\<lambda>_. Inr s))))))))))
      | _ \<Rightarrow> fail NotEnoughAccounts)"

section \<open>The account it creates\<close>

lemma check_sorted_Inr: "check_sorted owners = Inr () \<longleftrightarrow> ascending owners"
proof -
  have "check_sorted owners = Inr () \<longleftrightarrow> (\<forall>i. 1 \<le> i \<longrightarrow> i < length owners \<longrightarrow> owners ! (i - 1) < owners ! i)"
    by (auto simp: check_sorted_def fold_result_unit not_le)
  also have "\<dots> \<longleftrightarrow> (\<forall>i. Suc i < length owners \<longrightarrow> owners ! i < owners ! Suc i)"
    by (metis Suc_le_D diff_Suc_1 le_add1 One_nat_def plus_1_eq_Suc)
  finally show ?thesis by (simp add: ascending_iff_Suc)
qed

lemma voters_all [simp]: "voters (replicate n 0) = n"
  by (simp add: voters_def mask_can_vote_def)

text \<open>A fresh account with these fields is well formed exactly when the threshold is in range.\<close>

definition fresh_multisig :: "address \<Rightarrow> init_multisig_data \<Rightarrow> multisig" where
  "fresh_multisig create_key data =
     \<lparr>ms_create_key = create_key, ms_config_authority = in_config_authority data,
      ms_rent_collector = default_address, ms_transaction_index = 0,
      ms_stale_transaction_index = 0, ms_closed_transaction_count = 0, ms_time_lock = 0,
      ms_owners_count = in_owners_count data, ms_voter_count = in_owners_count data,
      ms_threshold = in_threshold data, ms_bump = in_bump data, ms_pad = 0\<rparr>"

lemma fresh_multisig_update:
  "h\<lparr>ms_create_key := k, ms_config_authority := in_config_authority data,
     ms_rent_collector := default_address, ms_transaction_index := 0,
     ms_stale_transaction_index := 0, ms_closed_transaction_count := 0, ms_time_lock := 0,
     ms_owners_count := in_owners_count data, ms_voter_count := in_owners_count data,
     ms_threshold := in_threshold data, ms_bump := in_bump data, ms_pad := 0\<rparr>
   = fresh_multisig k data"
  by (simp add: fresh_multisig_def)

lemma fresh_multisig_wf:
  assumes "0 < unat (in_owners_count data)" "unat (in_owners_count data) \<le> MAX_OWNER"
    and "ms_invariant (fresh_multisig k data) = Inr ()"
    and "length owners = unat (in_owners_count data)" "ascending owners"
  shows "ms_wf (fresh_multisig k data) owners (replicate (unat (in_owners_count data)) 0)"
  using assms by (simp add: ms_wf_def fresh_multisig_def)

text \<open>What a successful call has checked and left behind.\<close>

lemma init_multisig_effect:
  assumes spec: "create_account_spec pid rt"
    and run: "process_init_multisig rt pid (creator # create_key # multisig # sp # remaining) instr s
                = Inr s'"
  defines "data \<equiv> init_multisig_data_of instr"
  defines "n \<equiv> unat (in_owners_count data)"
  defines "owners \<equiv> decode_array 32 new_from_array n (drop INIT_LEN instr)"
  shows "v_signer creator \<and> v_signer create_key \<and> v_address sp = system_program \<and>
      data_of s multisig = [] \<and> lamports (account_of s multisig) = 0 \<and>
      ms_wf (fresh_multisig (v_address create_key) data) owners (replicate n 0) \<and>
      data_of s' multisig = ms_bytes (fresh_multisig (v_address create_key) data) owners
        (replicate n 0) \<and>
      acc_owner (account_of s' multisig) = pid \<and>
      (v_signer multisig \<or>
       rt_pda rt [MULTISIG_SEED, as_array (v_address create_key), [ms_bump (fresh_multisig
         (v_address create_key) data)]] pid = Some (v_address multisig))"
proof -
  from run obtain minimum_balance s1 state tail stored permissions ob where
      sig: "v_signer creator" "v_signer create_key" "v_address sp = system_program"
    and unused: "data_of s multisig = []" "lamports (account_of s multisig) = 0"
    and n: "n \<noteq> 0" "n \<le> MAX_OWNER"
    and len: "length (drop INIT_LEN instr) = n * 32"
    and sorted: "check_sorted owners = Inr ()"
    and "rt_rent rt = Inr minimum_balance"
    and create: "rt_create_account rt creator multisig (of_nat (ms_space n)) (minimum_balance (ms_space n))
          pid [MULTISIG_SEED, as_array (v_address create_key), [in_bump data]] s = Inr s1"
    and split: "ms_split_uninitialized (ptr_of s1 multisig) (data_of s1 multisig) = Inr (state, tail)"
    and stored: "split_at_mut (n * 32) tail = Inr (stored, permissions)"
    and ob: "ob = drop INIT_LEN instr"
    and inv: "ms_invariant (fresh_multisig (v_address create_key) data) = Inr ()"
    and s': "set_data multisig (ms_encode (fresh_multisig (v_address create_key) data) @
          ob @ replicate (length permissions) 0) s1 = s'"
    unfolding process_init_multisig_def list.case handler_steps copy_from_slice_Inr unit_eq
      data_def [symmetric] n_def [symmetric] owners_def [symmetric] fresh_multisig_update
      simp_thms ex_simps
    by (elim exE conjE) (rule that)
  have small: "ms_space n = 144 + n * 33" by (simp add: ms_space_def MS_LEN_def)
  then have space: "unat (of_nat (ms_space n) :: u64) = ms_space n"
    using n by (intro unat_space) (simp add: MAX_OWNER_def)
  then have nz: "(of_nat (ms_space n) :: u64) \<noteq> 0" using small by (metis add_is_0 unat_0 zero_neq_numeral)
  note effect = create_account_effect [OF spec create nz]
  have "length tail = n * 33"
    using split effect(4) space small by (simp add: msl.uninit_Inr)
       (metis length_append length_replicate msl.enc_length add_left_cancel)
  then have "length permissions = n" using stored by (auto simp: split_at_mut_Inr)
  moreover have "encode_array as_array owners = drop INIT_LEN instr"
    using len by (simp add: owners_def addr.encode_decode_array)
  moreover have "ms_wf (fresh_multisig (v_address create_key) data) owners (replicate n 0)"
    using n inv sorted unfolding n_def
    by (intro fresh_multisig_wf) (simp_all add: check_sorted_Inr owners_def n_def)
  moreover have "acc_owner (account_of s' multisig) = pid"
    using effect(4) by (simp add: s' [symmetric])
  moreover have "v_signer multisig \<or>
       rt_pda rt [MULTISIG_SEED, as_array (v_address create_key), [in_bump data]] pid
         = Some (v_address multisig)"
    using effect(2) .
  ultimately show ?thesis
    using sig unused by (simp add: s' [symmetric] ob ms_bytes_def fresh_multisig_def)
qed

section \<open>No panic\<close>

lemma check_sorted_no_panic [simp]: "\<not> panics (check_sorted owners)"
  unfolding check_sorted_def by (rule fold_result_no_panic [of "\<lambda>_. True"]) simp_all

lemma init_multisig_no_panic:
  assumes "runtime_no_panic rt" "create_account_spec pid rt"
  shows "\<not> panics (process_init_multisig rt pid accounts instr s)"
proof -
  let ?n = "unat (in_owners_count (init_multisig_data_of instr))"
  have split: "length tail = ?n * 33"
    if t: "ms_split_uninitialized (ptr_of s1 ms) (data_of s1 ms) = Inr (st, tail)"
      and c: "rt_create_account rt creator ms (of_nat (ms_space ?n)) lam pid seeds s = Inr s1"
      and n: "\<not> MAX_OWNER < ?n"
    for creator ms lam seeds s1 st tail
  proof -
    have sp: "ms_space ?n = 144 + ?n * 33" by (simp add: ms_space_def MS_LEN_def)
    then have u: "unat (of_nat (ms_space ?n) :: u64) = ms_space ?n"
      using n by (intro unat_space) (simp add: MAX_OWNER_def)
    then have nz: "(of_nat (ms_space ?n) :: u64) \<noteq> 0" using sp by (metis add_is_0 unat_0 zero_neq_numeral)
    from create_account_effect(4) [OF assms(2) c nz] have "data_of s1 ms = replicate (144 + ?n * 33) 0"
      using u sp by simp
    with t have "replicate (144 + ?n * 33) 0 = ms_encode st @ tail" by (simp add: msl.uninit_Inr)
    then have "144 + ?n * 33 = 144 + length tail"
      by (metis length_append length_replicate msl.enc_length)
    then show ?thesis by simp
  qed
  show ?thesis
    unfolding process_init_multisig_def Let_def
    by (auto split: list.split simp: runtime_no_panicD [OF assms(1)] msl.parts_no_panic split_at_mut_Inr
        split_at_mut_def copy_from_slice_def dest: split)
qed

section \<open>Properties\<close>

text \<open>C35: a multisig is created only on the signatures of its payer and of the key its address derives
  from, at an address that held nothing; the account is the program's, carries the owners, threshold
  and config authority of the payload, starts with no proposals, no time lock and every owner permitted
  everything, and is well formed: owners strictly ascending, threshold in range.\<close>

theorem init_multisig_correct:
  assumes "create_account_spec pid rt"
    and "process_init_multisig rt pid (creator # create_key # multisig # sp # remaining) instr s = Inr s'"
  shows "\<exists>c owners. let data = init_multisig_data_of instr; n = unat (in_owners_count data) in
     v_signer creator \<and> v_signer create_key \<and> data_of s multisig = [] \<and>
     lamports (account_of s multisig) = 0 \<and> acc_owner (account_of s' multisig) = pid \<and>
     data_of s' multisig = ms_bytes c owners (replicate n 0) \<and> ms_wf c owners (replicate n 0) \<and>
     owners = decode_array 32 new_from_array n (drop INIT_LEN instr) \<and>
     ms_create_key c = v_address create_key \<and> ms_threshold c = in_threshold data \<and>
     ms_config_authority c = in_config_authority data \<and> ms_rent_collector c = default_address \<and>
     ms_transaction_index c = 0 \<and> ms_time_lock c = 0 \<and> all_transactions_closed c \<and>
     (v_signer multisig \<or> rt_pda rt [MULTISIG_SEED, as_array (v_address create_key), [ms_bump c]] pid
        = Some (v_address multisig))"
proof -
  let ?d = "init_multisig_data_of instr"
  let ?n = "unat (in_owners_count ?d)"
  let ?c = "fresh_multisig (v_address create_key) ?d"
  have "ms_create_key ?c = v_address create_key" "ms_threshold ?c = in_threshold ?d"
    "ms_config_authority ?c = in_config_authority ?d" "ms_rent_collector ?c = default_address"
    "ms_transaction_index ?c = 0" "ms_time_lock ?c = 0" "all_transactions_closed ?c"
    by (simp_all add: fresh_multisig_def all_transactions_closed_def)
  then show ?thesis
    using init_multisig_effect [OF assms] unfolding Let_def
    by (intro exI [of _ ?c] exI [of _ "decode_array 32 new_from_array ?n (drop INIT_LEN instr)"]) blast
qed

end
