(* ===== verification/Close_Transaction.thy ===== *)
theory Close_Transaction
  imports Buffer_Ops
begin

text \<open>
  Instruction 6, src/instruction/close_transaction.rs: a finished proposal is closed by anyone,
  its rent goes where stored state says, and the configuration counts the closure.
\<close>

text \<open>The scope that counts the closure: the new store and the rent collector.\<close>

definition count_closure :: "view \<Rightarrow> store \<Rightarrow> (store \<times> address) result" where
  "count_closure multisig s =
     and_then (ms_load_mut (ptr_of s multisig) (data_of s multisig)) (\<lambda>(ms, owners, permissions).
     and_then (ok_or Overflow (checked_add (ms_closed_transaction_count ms) 1)) (\<lambda>closed.
     let ms = ms\<lparr>ms_closed_transaction_count := closed\<rparr> in
     and_then (ms_invariant ms) (\<lambda>_.
     Inr (set_data multisig (ms_bytes ms owners permissions) s, ms_rent_collector ms))))"

definition process_close_transaction ::
  "runtime \<Rightarrow> address \<Rightarrow> view list \<Rightarrow> bytes \<Rightarrow> store \<Rightarrow> store result" where
  "process_close_transaction rt program_id accounts instruction s =
     (case accounts of
        transaction # multisig # destination # remaining \<Rightarrow>
          if instruction \<noteq> [] then fail InvalidInstructionData
          else
            and_then (check_owner s transaction program_id IllegalOwner) (\<lambda>_.
            and_then (check_owner s multisig program_id IllegalOwner) (\<lambda>_.
            and_then (count_closure multisig s) (\<lambda>(s, rent_collector).
            and_then (tx_load (ptr_of s transaction) (data_of s transaction)) (\<lambda>(state, _, _).
            and_then (validate_eq (tx_multisig state) (v_address multisig) MultisigMismatch) (\<lambda>_.
            let expected = (if rent_collector = default_address then tx_creator state
                            else rent_collector) in
            and_then (validate_eq expected (v_address destination) InvalidAccount) (\<lambda>_.
            and_then (status_from_u8 (tx_status state)) (\<lambda>status.
            and_then (case status of
                        Executed \<Rightarrow> Inr ()
                      | Rejected \<Rightarrow> Inr ()
                      | Cancelled \<Rightarrow> Inr ()
                      | _ \<Rightarrow> fail InvalidStatus) (\<lambda>_.
            let refund = lamports (account_of s transaction) in
            and_then (ok_or Overflow (checked_add (lamports (account_of s destination)) refund))
              (\<lambda>credited.
            let s = set_lamports destination credited s;
                s = set_lamports transaction 0 s in
            rt_close rt transaction s)))))))))
      | _ \<Rightarrow> fail NotEnoughAccounts)"

section \<open>What a closure does\<close>

lemma close_transaction_as_buffer:
  "(let refund = lamports (account_of s transaction) in
    and_then (ok_or Overflow (checked_add (lamports (account_of s destination)) refund))
      (\<lambda>credited.
       let s = set_lamports destination credited s;
           s = set_lamports transaction 0 s in
       rt_close rt transaction s)) = close_buffer rt transaction destination s"
  by (simp add: close_buffer_def)

lemma count_closure_Inr:
  "count_closure multisig s = Inr (s', collector) \<longleftrightarrow>
     (\<exists>c os ps n. ms_load (ptr_of s multisig) (data_of s multisig) = Inr (c, os, ps) \<and>
        checked_add (ms_closed_transaction_count c) 1 = Some n \<and>
        ms_invariant (c\<lparr>ms_closed_transaction_count := n\<rparr>) = Inr () \<and>
        collector = ms_rent_collector c \<and>
        s' = set_data multisig (ms_bytes (c\<lparr>ms_closed_transaction_count := n\<rparr>) os ps) s)"
  unfolding count_closure_def ms_load_mut_eq by (auto simp: and_then_Inr ok_or_Inr Let_def)

lemma terminal_Inr:
  "(case st of Executed \<Rightarrow> Inr () | Rejected \<Rightarrow> Inr () | Cancelled \<Rightarrow> Inr () | _ \<Rightarrow> fail InvalidStatus)
     = Inr u \<longleftrightarrow> st = Executed \<or> st = Rejected \<or> st = Cancelled"
  by (cases st) auto

lemma close_transaction_run:
  assumes "process_close_transaction rt pid (transaction # multisig # destination # remaining) instr s = Inr s'"
  obtains s1 collector h v m st where
    "acc_owner (account_of s transaction) = pid" "acc_owner (account_of s multisig) = pid"
    "count_closure multisig s = Inr (s1, collector)"
    "tx_load (ptr_of s1 transaction) (data_of s1 transaction) = Inr (h, v, m)"
    "tx_multisig h = v_address multisig"
    "(if collector = default_address then tx_creator h else collector) = v_address destination"
    "status_from_u8 (tx_status h) = Inr st" "st = Executed \<or> st = Rejected \<or> st = Cancelled"
    "close_buffer rt transaction destination s1 = Inr s'"
  using assms
  unfolding process_close_transaction_def list.case close_transaction_as_buffer
    if_fail_eq_Inr and_then_Inr split_paired_Ex prod.case check_Inr terminal_Inr Let_def [where s = "if _ then _ else _"]
  by (elim exE conjE) (rule that)

lemma close_transaction_effect:
  assumes spec: "close_spec rt"
    and run: "process_close_transaction rt pid (transaction # multisig # destination # remaining) instr s
                = Inr s'"
    and differ: "v_address transaction \<noteq> v_address multisig"
      "v_address transaction \<noteq> v_address destination"
    and ms: "ms_load (ptr_of s multisig) (data_of s multisig) = Inr (c, os, ps)" "ms_wf c os ps"
  shows "\<exists>h v m c' st. tx_load (ptr_of s transaction) (data_of s transaction) = Inr (h, v, m) \<and>
     tx_multisig h = v_address multisig \<and> tx_status h = status_to_u8 st \<and>
     st \<in> {Executed, Rejected, Cancelled} \<and>
     v_address destination = (if ms_rent_collector c = default_address then tx_creator h
                              else ms_rent_collector c) \<and>
     c' = c\<lparr>ms_closed_transaction_count := ms_closed_transaction_count c + 1\<rparr> \<and>
     unat (ms_closed_transaction_count c') = Suc (unat (ms_closed_transaction_count c)) \<and>
     data_of s' multisig = ms_bytes c' os ps \<and> ms_wf c' os ps \<and>
     unat (lamports (account_of s' destination))
       = unat (lamports (account_of s destination)) + unat (lamports (account_of s transaction)) \<and>
     lamports (account_of s' transaction) = 0 \<and> data_of s' transaction = [] \<and>
     acc_owner (account_of s' transaction) = system_program \<and>
     (\<forall>a. a \<notin> {v_address transaction, v_address multisig, v_address destination} \<longrightarrow> s' a = s a)"
proof -
  from run obtain s1 collector h v m st where
      closure: "count_closure multisig s = Inr (s1, collector)"
    and tx: "tx_load (ptr_of s1 transaction) (data_of s1 transaction) = Inr (h, v, m)"
    and belongs: "tx_multisig h = v_address multisig"
    and dest: "(if collector = default_address then tx_creator h else collector) = v_address destination"
    and st: "status_from_u8 (tx_status h) = Inr st" "st = Executed \<or> st = Rejected \<or> st = Cancelled"
    and close: "close_buffer rt transaction destination s1 = Inr s'"
    using close_transaction_run [OF run] by metis
  from closure ms obtain n where n: "checked_add (ms_closed_transaction_count c) 1 = Some n"
    and inv: "ms_invariant (c\<lparr>ms_closed_transaction_count := n\<rparr>) = Inr ()"
    and collector: "collector = ms_rent_collector c"
    and s1: "s1 = set_data multisig (ms_bytes (c\<lparr>ms_closed_transaction_count := n\<rparr>) os ps) s"
    by (auto simp: count_closure_Inr)
  let ?c = "c\<lparr>ms_closed_transaction_count := ms_closed_transaction_count c + 1\<rparr>"
  have n': "n = ms_closed_transaction_count c + 1" "unat n = Suc (unat (ms_closed_transaction_count c))"
    using n checked_add_Some [OF n] by (auto simp: checked_add_def split: if_splits)
  note effect = close_buffer_effect [OF spec close differ(2)]
  have wf: "ms_wf ?c os ps" using ms(2) inv by (simp add: ms_wf_def n'(1))
  have txs: "tx_load (ptr_of s transaction) (data_of s transaction) = Inr (h, v, m)"
    using tx differ(1) by (simp add: s1)
  have status: "tx_status h = status_to_u8 st" "st \<in> {Executed, Rejected, Cancelled}"
    using st by (auto simp: status_from_u8_Inr)
  have multisig: "data_of s' multisig = ms_bytes ?c os ps"
    using effect(5) [of "v_address multisig"] differ(1) by (simp add: s1 n'(1))
  have lam: "unat (lamports (account_of s' destination))
       = unat (lamports (account_of s destination)) + unat (lamports (account_of s transaction))"
    using effect(1) by (simp add: s1)
  have others: "s' a = s a" if "a \<notin> {v_address transaction, v_address multisig, v_address destination}" for a
    using effect(6) [of a] that by (simp add: s1 set_data_other)
  have dest': "v_address destination = (if ms_rent_collector c = default_address then tx_creator h
                              else ms_rent_collector c)"
    using dest unfolding collector by (rule sym)
  show ?thesis
    using txs belongs dest' status multisig lam effect(2-4) others wf n'
    by (intro exI [of _ h] exI [of _ v] exI [of _ m] exI [of _ ?c] exI [of _ st]) simp
qed

text \<open>C36: closing succeeds only on a proposal of this multisig that is Executed, Rejected or
  Cancelled; every lamport it holds goes to the rent collector, or to the proposal's creator when
  none is set, none is created or lost, the account is emptied and handed to the system program, and the
  configuration counts exactly one more closure and stays well formed.\<close>

theorem close_transaction_correct:
  assumes spec: "close_spec rt"
    and run: "process_close_transaction rt pid (transaction # multisig # destination # remaining) instr s
                = Inr s'"
    and differ: "v_address transaction \<noteq> v_address multisig"
      "v_address transaction \<noteq> v_address destination"
    and ms: "ms_load (ptr_of s multisig) (data_of s multisig) = Inr (c, os, ps)" "ms_wf c os ps"
  shows "\<exists>h v m c' st. tx_load (ptr_of s transaction) (data_of s transaction) = Inr (h, v, m) \<and>
     tx_multisig h = v_address multisig \<and> tx_status h = status_to_u8 st \<and>
     st \<in> {Executed, Rejected, Cancelled} \<and>
     v_address destination = (if ms_rent_collector c = default_address then tx_creator h
                              else ms_rent_collector c) \<and>
     c' = c\<lparr>ms_closed_transaction_count := ms_closed_transaction_count c + 1\<rparr> \<and>
     unat (ms_closed_transaction_count c') = Suc (unat (ms_closed_transaction_count c)) \<and>
     data_of s' multisig = ms_bytes c' os ps \<and> ms_wf c' os ps \<and>
     unat (lamports (account_of s' destination))
       = unat (lamports (account_of s destination)) + unat (lamports (account_of s transaction)) \<and>
     lamports (account_of s' transaction) = 0 \<and> data_of s' transaction = [] \<and>
     acc_owner (account_of s' transaction) = system_program \<and>
     (\<forall>a. a \<notin> {v_address transaction, v_address multisig, v_address destination} \<longrightarrow> s' a = s a)"
  by (rule close_transaction_effect [OF assms])

lemma count_closure_no_panic [simp]: "\<not> panics (count_closure multisig s)"
  by (auto simp: count_closure_def ms_load_mut_eq Let_def)

lemma close_transaction_no_panic:
  assumes "runtime_no_panic rt"
  shows "\<not> panics (process_close_transaction rt pid accounts instr s)"
  unfolding process_close_transaction_def Let_def
  by (auto split: list.split transaction_status.split simp: runtime_no_panicD [OF assms])

lemma count_closure_accepts:
  assumes "ms_load (ptr_of s multisig) (data_of s multisig) = Inr (c, os, ps)" "ms_wf c os ps"
    and less: "ms_closed_transaction_count c < ms_transaction_index c"
  shows "count_closure multisig s = Inr (set_data multisig (ms_bytes
     (c\<lparr>ms_closed_transaction_count := ms_closed_transaction_count c + 1\<rparr>) os ps) s, ms_rent_collector c)"
proof -
  have lt: "unat (ms_closed_transaction_count c) < unat (ms_transaction_index c)"
    using less by (simp add: word_less_nat_alt)
  then have n: "unat (ms_closed_transaction_count c + 1) = Suc (unat (ms_closed_transaction_count c))"
    using unat_less [of "ms_transaction_index c"] by (intro unat_add_1_less) simp_all
  then have "checked_add (ms_closed_transaction_count c) 1 = Some (ms_closed_transaction_count c + 1)"
    using lt unat_less [of "ms_transaction_index c"] by (simp add: checked_add_def)
  moreover have "ms_invariant (c\<lparr>ms_closed_transaction_count := ms_closed_transaction_count c + 1\<rparr>) = Inr ()"
    using assms(2) lt n by (auto simp: ms_wf_def ms_invariant_iff word_le_nat_alt)
  ultimately show ?thesis using assms(1) by (simp add: count_closure_Inr)
qed

lemma close_buffer_accepts:
  assumes "unat (lamports (account_of s destination)) + unat (lamports (account_of s buffer)) < 2 ^ 64"
    and "\<And>v t. \<exists>t'. rt_close rt v t = Inr t'"
  obtains s' where "close_buffer rt buffer destination s = Inr s'"
proof -
  have "checked_add (lamports (account_of s destination)) (lamports (account_of s buffer))
      = Some (lamports (account_of s destination) + lamports (account_of s buffer))"
    using assms(1) by (simp add: checked_add_def)
  then show thesis using assms(2) that by (auto simp: close_buffer_def)
qed

text \<open>When a closing succeeds: for anyone, on a finished proposal, as long as the configuration has one left to count.\<close>

lemma close_transaction_accepts:
  assumes own: "acc_owner (account_of s transaction) = pid" "acc_owner (account_of s multisig) = pid"
    and ms: "ms_load (ptr_of s multisig) (data_of s multisig) = Inr (c, os, ps)" "ms_wf c os ps"
      "ms_closed_transaction_count c < ms_transaction_index c"
    and tx: "tx_load (ptr_of s transaction) (data_of s transaction) = Inr (h, v, m)" "tx_multisig h = v_address multisig"
      "tx_status h \<in> {status_to_u8 Executed, status_to_u8 Rejected, status_to_u8 Cancelled}"
    and receiver: "v_address destination
      = (if ms_rent_collector c = default_address then tx_creator h else ms_rent_collector c)"
    and room: "unat (lamports (account_of s destination)) + unat (lamports (account_of s transaction)) < 2 ^ 64"
    and differ: "v_address transaction \<noteq> v_address multisig"
    and rt: "close_spec rt" "\<And>v t. \<exists>t'. rt_close rt v t = Inr t'"
  obtains s' where "process_close_transaction rt pid (transaction # multisig # destination # remaining) [] s = Inr s'"
    "ms_load (ptr_of s' multisig) (data_of s' multisig)
       = Inr (c\<lparr>ms_closed_transaction_count := ms_closed_transaction_count c + 1\<rparr>, os, ps)"
    "\<And>a. a \<noteq> v_address transaction \<Longrightarrow> a \<noteq> v_address multisig \<Longrightarrow>
       acc_data (s' a) = acc_data (s a) \<and> acc_owner (s' a) = acc_owner (s a) \<and> data_ptr (s' a) = data_ptr (s a)"
proof -
  let ?c = "c\<lparr>ms_closed_transaction_count := ms_closed_transaction_count c + 1\<rparr>"
  define s1 where "s1 = set_data multisig (ms_bytes ?c os ps) s"
  have count: "count_closure multisig s = Inr (s1, ms_rent_collector c)"
    unfolding s1_def by (rule count_closure_accepts [where s = s and multisig = multisig, OF ms])
  have read: "tx_load (ptr_of s1 transaction) (data_of s1 transaction) = Inr (h, v, m)"
    using tx(1) differ by (simp add: s1_def)
  obtain st where st: "status_from_u8 (tx_status h) = Inr st" "st = Executed \<or> st = Rejected \<or> st = Cancelled"
    using tx(3) by (metis insertE singletonD status_from_u8_Inr)
  then have finished: "(case st of Executed \<Rightarrow> Inr () | Rejected \<Rightarrow> Inr () | Cancelled \<Rightarrow> Inr () | _ \<Rightarrow> fail InvalidStatus)
      = Inr ()"
    by (simp only: terminal_Inr)
  obtain s' where close: "close_buffer rt transaction destination s1 = Inr s'"
    by (rule close_buffer_accepts [of s1 destination transaction rt]) (use room rt(2) in \<open>simp_all add: s1_def\<close>)
  have run: "process_close_transaction rt pid (transaction # multisig # destination # remaining) [] s = Inr s'"
    using own tx(2) receiver [symmetric]
    by (cases "ms_rent_collector c = default_address")
       (simp_all add: process_close_transaction_def count read st(1) finished close [unfolded close_buffer_def Let_def] Let_def)
  have same: "acc_data (s' a) = acc_data (s1 a) \<and> acc_owner (s' a) = acc_owner (s1 a) \<and> data_ptr (s' a) = data_ptr (s1 a)"
    if "a \<noteq> v_address transaction" for a
    using close_buffer_frame [OF rt(1) close that] .
  have "ms_load (ptr_of s' multisig) (data_of s' multisig) = Inr (?c, os, ps)"
    using same [of "v_address multisig"] differ ms(1) by (simp add: s1_def ms_load_Inr)
  with run show thesis
  proof (rule that)
    show "acc_data (s' a) = acc_data (s a) \<and> acc_owner (s' a) = acc_owner (s a) \<and> data_ptr (s' a) = data_ptr (s a)"
      if "a \<noteq> v_address transaction" "a \<noteq> v_address multisig" for a
      using same [OF that(1)] that(2) by (simp add: s1_def)
  qed
qed

end
