(* ===== verification/Create_From_Buffer.thy ===== *)
theory Create_From_Buffer
  imports Create Buffer_Ops
begin

text \<open>
  Instruction 10, src/instruction/create_from_buffer.rs: a completed buffer becomes a proposal
  and is closed. The digest is \<open>rt_sha256\<close>, a parameter.
\<close>

record create_from_buffer_data =
  cb_bump :: u8
  cb_vault_bump :: u8
  cb_ephemeral_count :: u8
  cb_ephemeral_bumps :: bumps4

definition FROM_BUFFER_LEN :: nat where "FROM_BUFFER_LEN = 7"

definition create_from_buffer_data_of :: "bytes \<Rightarrow> create_from_buffer_data" where
  "create_from_buffer_data_of bs =
     \<lparr>cb_bump = bs ! 0, cb_vault_bump = bs ! 1, cb_ephemeral_count = bs ! 2,
      cb_ephemeral_bumps = bumps_of (slice 3 4 bs)\<rparr>"

definition process_create_from_buffer ::
  "runtime \<Rightarrow> address \<Rightarrow> view list \<Rightarrow> bytes \<Rightarrow> store \<Rightarrow> store result" where
  "process_create_from_buffer rt program_id accounts instruction s =
     (case accounts of
        creator # multisig # transaction # buffer # system_program_view # remaining \<Rightarrow>
          if length instruction \<noteq> FROM_BUFFER_LEN then fail InvalidInstructionData
          else
            let data = create_from_buffer_data_of instruction in
            and_then (check_signer creator MissingSignature) (\<lambda>_.
            and_then (validate_eq (v_address system_program_view) system_program InvalidProgramId) (\<lambda>_.
            and_then (check_owner s multisig program_id IllegalOwner) (\<lambda>_.
            and_then (check_owner s buffer program_id IllegalOwner) (\<lambda>_.
            if data_of s transaction \<noteq> [] \<or> lamports (account_of s transaction) \<noteq> 0
            then fail AlreadyInitialized
            else
              and_then (buf_load (ptr_of s buffer) (data_of s buffer)) (\<lambda>(state, region).
              and_then (validate_eq (buf_creator state) (v_address creator) InvalidAccount) (\<lambda>_.
              and_then (validate_eq (buf_multisig state) (v_address multisig) MultisigMismatch) (\<lambda>_.
              if \<not> is_complete state then fail BufferIncomplete
              else if rt_sha256 rt region \<noteq> buf_final_hash state then fail BufferHashMismatch
              else
                and_then (init_proposal rt program_id creator multisig transaction region
                    (buf_vault_index state) (cb_vault_bump data) (cb_bump data)
                    (cb_ephemeral_count data) (cb_ephemeral_bumps data) s) (\<lambda>s.
                close_buffer rt buffer creator s))))))))
      | _ \<Rightarrow> fail NotEnoughAccounts)"

text \<open>The steps of a success.\<close>

lemma create_from_buffer_steps:
  assumes "process_create_from_buffer rt pid (creator # multisig # transaction # buffer # sp # remaining) instr s
      = Inr s'"
  obtains b region s1 where "v_signer creator" "acc_owner (account_of s multisig) = pid" "data_of s transaction = []"
    "buf_load (ptr_of s buffer) (data_of s buffer) = Inr (b, region)"
    "buf_creator b = v_address creator" "buf_multisig b = v_address multisig"
    "is_complete b" "rt_sha256 rt region = buf_final_hash b"
    "init_proposal rt pid creator multisig transaction region (buf_vault_index b)
       (cb_vault_bump (create_from_buffer_data_of instr)) (cb_bump (create_from_buffer_data_of instr))
       (cb_ephemeral_count (create_from_buffer_data_of instr))
       (cb_ephemeral_bumps (create_from_buffer_data_of instr)) s = Inr s1"
    "close_buffer rt buffer creator s1 = Inr s'"
  using assms unfolding process_create_from_buffer_def list.case handler_steps
  by (elim exE conjE) (rule that)

text \<open>C34: a buffer becomes a proposal only when its creator signs, it belongs to this multisig, it
  is complete and its content hashes to the digest committed at creation; the proposal carries
  exactly that content and the buffer's vault, is Active, well formed and without votes, takes the
  next index, and the buffer's account is left without data and lamports.\<close>

theorem create_from_buffer_correct:
  assumes spec: "create_account_spec pid rt" "close_spec rt"
    and run: "process_create_from_buffer rt pid
       (creator # multisig # transaction # buffer # sp # remaining) instr s = Inr s'"
    and differ: "v_address buffer \<noteq> v_address creator" "v_address buffer \<noteq> v_address multisig"
  shows "\<exists>b region h os ps i m t. v_signer creator \<and>
     buf_load (ptr_of s buffer) (data_of s buffer) = Inr (b, region) \<and>
     buf_creator b = v_address creator \<and> buf_multisig b = v_address multisig \<and>
     buf_written b = buf_final_size b \<and> rt_sha256 rt region = buf_final_hash b \<and>
     ms_load (ptr_of s multisig) (data_of s multisig) = Inr (h, os, ps) \<and>
     is_owner os (v_address creator) = Some i \<and> (ps ! i = 0 \<or> ps ! i AND INITIATE \<noteq> 0) \<and>
     parse region = Inr m \<and> tx_wf t (clear_votes (ms_owners_count h)) region \<and>
     tx_status t = status_to_u8 Active \<and> tx_multisig t = v_address multisig \<and>
     tx_vault_index t = buf_vault_index b \<and> tx_owners_count t = ms_owners_count h \<and>
     unat (tx_index t) = Suc (unat (ms_transaction_index h)) \<and>
     data_of s' transaction = tx_bytes t (clear_votes (ms_owners_count h)) region \<and>
     data_of s' multisig = ms_bytes (h\<lparr>ms_transaction_index := tx_index t\<rparr>) os ps \<and>
     data_of s' buffer = [] \<and> lamports (account_of s' buffer) = 0"
proof -
  let ?d = "create_from_buffer_data_of instr"
  obtain b region s1 where
      sig: "v_signer creator"
    and unused: "data_of s transaction = []"
    and buf: "buf_load (ptr_of s buffer) (data_of s buffer) = Inr (b, region)"
      "buf_creator b = v_address creator" "buf_multisig b = v_address multisig"
      "is_complete b" "rt_sha256 rt region = buf_final_hash b"
    and init: "init_proposal rt pid creator multisig transaction region (buf_vault_index b)
       (cb_vault_bump ?d) (cb_bump ?d) (cb_ephemeral_count ?d) (cb_ephemeral_bumps ?d) s = Inr s1"
    and close: "close_buffer rt buffer creator s1 = Inr s'"
    by (rule create_from_buffer_steps [OF run])
  from init_proposal_effect [OF spec(1) init unused] obtain h os ps i index m where
    load: "ms_load (ptr_of s multisig) (data_of s multisig) = Inr (h, os, ps)"
      "is_owner os (v_address creator) = Some i" "ps ! i = 0 \<or> ps ! i AND INITIATE \<noteq> 0"
      "unat index = Suc (unat (ms_transaction_index h))" "parse region = Inr m"
    and post: "init_proposal_post rt pid creator multisig transaction region (buf_vault_index b)
       (cb_vault_bump ?d) (cb_bump ?d) (cb_ephemeral_count ?d) (cb_ephemeral_bumps ?d) s s1 h os ps index" .
  let ?t = "fresh_transaction (v_address multisig) (v_address creator) index (ms_owners_count h)
       region (buf_vault_index b) (cb_vault_bump ?d) (cb_bump ?d) (cb_ephemeral_count ?d)
       (cb_ephemeral_bumps ?d)"
  have t: "tx_index ?t = index" "tx_status ?t = status_to_u8 Active" "tx_multisig ?t = v_address multisig"
    "tx_vault_index ?t = buf_vault_index b" "tx_owners_count ?t = ms_owners_count h"
    by (simp_all add: fresh_transaction_def)
  note effect = close_buffer_effect [OF spec(2) close differ(1)]
  have "v_address buffer \<noteq> v_address transaction"
    using buf(1) unused by (auto simp: buf_load_Inr buf_bytes_def)
      (metis length_buf_encode list.size(3) zero_neq_numeral)
  then have "data_of s' transaction = tx_bytes ?t (clear_votes (ms_owners_count h)) region"
    "data_of s' multisig = ms_bytes (h\<lparr>ms_transaction_index := index\<rparr>) os ps"
    "tx_wf ?t (clear_votes (ms_owners_count h)) region"
    using post effect(5) [of "v_address transaction"] effect(5) [of "v_address multisig"] differ(2)
    by (simp_all add: init_proposal_post_def Let_def)
  with sig buf load t effect(2,3) show ?thesis
    by (intro exI [of _ b] exI [of _ region] exI [of _ h] exI [of _ os] exI [of _ ps] exI [of _ i]
        exI [of _ m] exI [of _ ?t]) (simp add: is_complete_def)
qed

lemma create_from_buffer_no_panic:
  assumes "runtime_no_panic rt" "create_account_spec pid rt"
  shows "\<not> panics (process_create_from_buffer rt pid accounts instr s)"
  unfolding process_create_from_buffer_def Let_def
  by (auto split: list.split simp: init_proposal_no_panic [OF assms] close_buffer_no_panic [OF assms(1)])

end
