(* ===== verification/Entrypoint.thy ===== *)
theory Entrypoint
  imports Init Vote Close_Transaction Create_From_Buffer Execute
begin

text \<open>
  src/entrypoint.rs: the program's address and the routing of an instruction by its first byte.
\<close>

text \<open>The bytes of \<open>4X5zUZ8apTxg8XJSwyxCR6TpDbLFBxm9TjECocLTKpAm\<close>.\<close>

definition ID :: address where
  "ID = new_from_array
     [52, 72, 32, 218, 158, 79, 220, 235, 132, 237, 218, 24, 88, 210, 229, 81,
      81, 84, 61, 159, 197, 110, 19, 155, 166, 170, 11, 45, 46, 163, 67, 226]"

definition process_instruction ::
  "runtime \<Rightarrow> address \<Rightarrow> view list \<Rightarrow> bytes \<Rightarrow> store \<Rightarrow> store result" where
  "process_instruction rt program_id accounts instruction_data s =
     (if program_id \<noteq> ID then Inl (Failed IncorrectProgramId)
      else case instruction_data of
        [] \<Rightarrow> Inl (Failed BadInstructionData)
      | tag # instr \<Rightarrow>
          if tag = 0 then process_init_multisig rt program_id accounts instr s
          else if tag = 1 then process_create_transaction rt program_id accounts instr s
          else if tag = 2 then process_approve rt program_id accounts instr s
          else if tag = 3 then process_reject program_id accounts instr s
          else if tag = 4 then process_execute rt program_id accounts instr s
          else if tag = 5 then process_cancel program_id accounts instr s
          else if tag = 6 then process_close_transaction rt program_id accounts instr s
          else if tag = 7 then process_buffer_create rt program_id accounts instr s
          else if tag = 8 then process_buffer_extend rt program_id accounts instr s
          else if tag = 9 then process_buffer_close rt program_id accounts instr s
          else if tag = 10 then process_create_from_buffer rt program_id accounts instr s
          else if tag = 11 then process_set_config rt program_id accounts instr s
          else Inl (Failed BadInstructionData))"

lemma handler_shapes:
  "process_init_multisig rt pid accounts instr s = Inr s' \<Longrightarrow> \<exists>a b c d r. accounts = a # b # c # d # r"
  "process_create_transaction rt pid accounts instr s = Inr s' \<Longrightarrow> \<exists>a b c d r. accounts = a # b # c # d # r"
  "process_approve rt pid accounts instr s = Inr s' \<Longrightarrow> \<exists>a b c r. accounts = a # b # c # r"
  "process_reject pid accounts instr s = Inr s' \<Longrightarrow> \<exists>a b c r. accounts = a # b # c # r"
  "process_execute rt pid accounts instr s = Inr s' \<Longrightarrow> \<exists>a b c r. accounts = a # b # c # r"
  "process_cancel pid accounts instr s = Inr s' \<Longrightarrow> \<exists>a b c r. accounts = a # b # c # r"
  "process_close_transaction rt pid accounts instr s = Inr s' \<Longrightarrow> \<exists>a b c r. accounts = a # b # c # r"
  "process_buffer_create rt pid accounts instr s = Inr s' \<Longrightarrow> \<exists>a b c d r. accounts = a # b # c # d # r"
  "process_buffer_extend rt pid accounts instr s = Inr s' \<Longrightarrow> \<exists>a b r. accounts = a # b # r"
  "process_buffer_close rt pid accounts instr s = Inr s' \<Longrightarrow> \<exists>a b r. accounts = a # b # r"
  "process_create_from_buffer rt pid accounts instr s = Inr s' \<Longrightarrow> \<exists>a b c d e r. accounts = a # b # c # d # e # r"
  "process_set_config rt pid accounts instr s = Inr s' \<Longrightarrow> \<exists>a b r. accounts = a # b # r"
  by (auto simp: process_init_multisig_def process_create_transaction_def process_approve_def process_reject_def
      process_execute_def process_cancel_def process_close_transaction_def process_buffer_create_def
      process_buffer_extend_def process_buffer_close_def process_create_from_buffer_def process_set_config_def
      split: list.splits)

text \<open>A successful call is the success of one of the twelve handlers on the accounts it expects.\<close>

lemma call_cases [consumes 1]:
  assumes "process_instruction rt ID accounts (tag # payload) s = Inr s'"
  obtains
    (init) creator create_key multisig sp r where "tag = 0" "accounts = creator # create_key # multisig # sp # r"
      "process_init_multisig rt ID (creator # create_key # multisig # sp # r) payload s = Inr s'"
  | (create) creator multisig transaction sp r where "tag = 1" "accounts = creator # multisig # transaction # sp # r"
      "process_create_transaction rt ID (creator # multisig # transaction # sp # r) payload s = Inr s'"
  | (approve) signer multisig transaction r where "tag = 2" "accounts = signer # multisig # transaction # r"
      "process_approve rt ID (signer # multisig # transaction # r) payload s = Inr s'"
  | (reject) signer multisig transaction r where "tag = 3" "accounts = signer # multisig # transaction # r"
      "process_reject ID (signer # multisig # transaction # r) payload s = Inr s'"
  | (execute) executor multisig transaction r where "tag = 4" "accounts = executor # multisig # transaction # r"
      "process_execute rt ID (executor # multisig # transaction # r) payload s = Inr s'"
  | (cancel) signer multisig transaction r where "tag = 5" "accounts = signer # multisig # transaction # r"
      "process_cancel ID (signer # multisig # transaction # r) payload s = Inr s'"
  | (close) transaction multisig destination r where "tag = 6" "accounts = transaction # multisig # destination # r"
      "process_close_transaction rt ID (transaction # multisig # destination # r) payload s = Inr s'"
  | (upload) creator multisig buf sp r where "tag = 7" "accounts = creator # multisig # buf # sp # r"
      "process_buffer_create rt ID (creator # multisig # buf # sp # r) payload s = Inr s'"
  | (extend) creator buf r where "tag = 8" "accounts = creator # buf # r"
      "process_buffer_extend rt ID (creator # buf # r) payload s = Inr s'"
  | (discard) creator buf r where "tag = 9" "accounts = creator # buf # r"
      "process_buffer_close rt ID (creator # buf # r) payload s = Inr s'"
  | (from_buffer) creator multisig transaction buf sp r where "tag = 10"
      "accounts = creator # multisig # transaction # buf # sp # r"
      "process_create_from_buffer rt ID (creator # multisig # transaction # buf # sp # r) payload s = Inr s'"
  | (config) authority multisig r where "tag = 11" "accounts = authority # multisig # r"
      "process_set_config rt ID (authority # multisig # r) payload s = Inr s'"
proof -
  from assms consider "tag = 0" "process_init_multisig rt ID accounts payload s = Inr s'"
    | "tag = 1" "process_create_transaction rt ID accounts payload s = Inr s'"
    | "tag = 2" "process_approve rt ID accounts payload s = Inr s'"
    | "tag = 3" "process_reject ID accounts payload s = Inr s'"
    | "tag = 4" "process_execute rt ID accounts payload s = Inr s'"
    | "tag = 5" "process_cancel ID accounts payload s = Inr s'"
    | "tag = 6" "process_close_transaction rt ID accounts payload s = Inr s'"
    | "tag = 7" "process_buffer_create rt ID accounts payload s = Inr s'"
    | "tag = 8" "process_buffer_extend rt ID accounts payload s = Inr s'"
    | "tag = 9" "process_buffer_close rt ID accounts payload s = Inr s'"
    | "tag = 10" "process_create_from_buffer rt ID accounts payload s = Inr s'"
    | "tag = 11" "process_set_config rt ID accounts payload s = Inr s'"
    unfolding process_instruction_def list.case by (auto split: if_splits)
  then show thesis
  proof cases
    case 1
    with handler_shapes(1) [OF 1(2)] show thesis using that(1) by blast
  next
    case 2
    with handler_shapes(2) [OF 2(2)] show thesis using that(2) by blast
  next
    case 3
    with handler_shapes(3) [OF 3(2)] show thesis using that(3) by blast
  next
    case 4
    with handler_shapes(4) [OF 4(2)] show thesis using that(4) by blast
  next
    case 5
    with handler_shapes(5) [OF 5(2)] show thesis using that(5) by blast
  next
    case 6
    with handler_shapes(6) [OF 6(2)] show thesis using that(6) by blast
  next
    case 7
    with handler_shapes(7) [OF 7(2)] show thesis using that(7) by blast
  next
    case 8
    with handler_shapes(8) [OF 8(2)] show thesis using that(8) by blast
  next
    case 9
    with handler_shapes(9) [OF 9(2)] show thesis using that(9) by blast
  next
    case 10
    with handler_shapes(10) [OF 10(2)] show thesis using that(10) by blast
  next
    case 11
    with handler_shapes(11) [OF 11(2)] show thesis using that(11) by blast
  next
    case 12
    with handler_shapes(12) [OF 12(2)] show thesis using that(12) by blast
  qed
qed

text \<open>C10: whatever accounts, data and store it is given, the program never panics: no index, slice or
  copy of it is ever out of range. It returns a new store or an error value.\<close>

theorem process_instruction_no_panic:
  assumes "runtime_no_panic rt" "create_account_spec program_id rt" "resize_spec rt" "transfer_spec rt"
  shows "process_instruction rt program_id accounts data s \<noteq> Inl Panicked"
proof (cases "program_id = ID")
  case True
  note spec = assms [unfolded True]
  have "\<not> panics (process_instruction rt ID accounts data s)"
    unfolding process_instruction_def
    by (intro no_panic_intros)
       (simp_all add: init_multisig_no_panic [OF spec(1,2)] create_transaction_no_panic [OF spec(1,2)]
          vote_no_panic(1) [OF spec(1)] vote_no_panic(2,3) execute_no_panic [OF spec(1,3,4)]
          close_transaction_no_panic [OF spec(1)] buffer_create_no_panic [OF spec(1,2)]
          buffer_extend_no_panic buffer_close_no_panic [OF spec(1)]
          create_from_buffer_no_panic [OF spec(1,2)] set_config_no_panic [OF spec(1,3,4)])
  then show ?thesis by (simp add: panics_def True)
qed (simp add: process_instruction_def)

end
