(* ===== verification/Examples.thy ===== *)
theory Examples
  imports Proposal_Life Entrypoint
begin

text \<open>
  One concrete situation, and the properties of the handlers applied to it: a multisig of three
  owners with threshold two, one proposal carrying one instruction for another program, a buffer,
  and the runtime \<open>sim_runtime\<close>.
\<close>

section \<open>The situation\<close>

definition ex_pid :: address where "ex_pid = ID"

lemma ex_pid_key [simp]: assumes "n \<noteq> 52" shows "key n \<noteq> ex_pid"
proof
  assume "key n = ex_pid"
  then have "hd (as_array (key n)) = hd (as_array ID)" by (simp only: ex_pid_def)
  moreover have "hd (as_array ID) = 52" by (simp add: ID_def as_array_new_from_array)
  ultimately show False using assms by simp
qed

definition ex_owners :: "address list" where "ex_owners = [key 1, key 2, key 3]"

definition ex_masks :: bytes where "ex_masks = [0, 0, 0]"

definition ex_config :: multisig where
  "ex_config =
     \<lparr>ms_create_key = key 20, ms_config_authority = key 5, ms_rent_collector = default_address,
      ms_transaction_index = 1, ms_stale_transaction_index = 0, ms_closed_transaction_count = 0,
      ms_time_lock = 60, ms_owners_count = 3, ms_voter_count = 3, ms_threshold = 2,
      ms_bump = 255, ms_pad = 0\<rparr>"

definition ex_message_header :: message_header where
  "ex_message_header =
     \<lparr>num_signers = 0, num_writable_signers = 0, num_writable_non_signers = 0,
      num_account_keys = 1, num_instructions = 1, num_lookups = 0\<rparr>"

definition ex_instruction :: compiled_instruction where
  "ex_instruction = \<lparr>ci_program_id_index = 0, ci_account_indexes = [], ci_data = [7]\<rparr>"

definition ex_message :: bytes where
  "ex_message = encode_message ex_message_header [key 30] [ex_instruction] []"

definition ex_proposal :: "transaction_status \<Rightarrow> nat \<Rightarrow> nat \<Rightarrow> transaction" where
  "ex_proposal st approved rejected =
     \<lparr>tx_multisig = key 10, tx_creator = key 1, tx_index = 1, tx_approved_at = 100,
      tx_owners_count = 3, tx_approved_count = of_nat approved, tx_rejected_count = of_nat rejected,
      tx_cancelled_count = 0, tx_message_len = of_nat (length ex_message),
      tx_status = status_to_u8 st, tx_bump = 254, tx_vault_index = 0, tx_vault_bump = 253,
      tx_ephemeral_count = 0, tx_ephemeral_bumps = (0, 0, 0, 0), tx_pad = 0\<rparr>"

definition ex_votes :: "u8 \<Rightarrow> u8 \<Rightarrow> votes" where
  "ex_votes approved rejected = \<lparr>v_approved = [approved], v_rejected = [rejected], v_cancelled = [0]\<rparr>"

definition ex_account :: "bytes \<Rightarrow> address \<Rightarrow> account" where
  "ex_account d own = \<lparr>lamports = 100000, acc_data = d, acc_owner = own, data_ptr = 0\<rparr>"

definition ex_view :: "u8 \<Rightarrow> view" where
  "ex_view n = \<lparr>v_address = key n, v_signer = True, v_writable = True\<rparr>"

text \<open>The configuration at \<open>key 10\<close>, the proposal at \<open>key 11\<close>; every other account is a wallet.\<close>

definition ex_store :: "bytes \<Rightarrow> bytes \<Rightarrow> store" where
  "ex_store config proposal = (\<lambda>a.
     if a = key 10 then ex_account config ex_pid
     else if a = key 11 then ex_account proposal ex_pid
     else ex_account [] system_program)"

abbreviation ex_config_bytes :: bytes where
  "ex_config_bytes \<equiv> ms_bytes ex_config ex_owners ex_masks"

lemma ex_store_simps [simp]:
  "ex_store c p (key 10) = ex_account c ex_pid"
  "ex_store c p (key 11) = ex_account p ex_pid"
  "n \<noteq> 10 \<Longrightarrow> n \<noteq> 11 \<Longrightarrow> ex_store c p (key n) = ex_account [] system_program"
  "acc_data (ex_account d own) = d" "acc_owner (ex_account d own) = own"
  "lamports (ex_account d own) = 100000" "data_ptr (ex_account d own) = 0"
  "v_address (ex_view n) = key n" "v_signer (ex_view n)"
  by (simp_all add: ex_store_def ex_account_def ex_view_def)

lemma ex_message_ok: "message_ok ex_message_header [key 30] [ex_instruction] []"
  by (simp add: message_ok_def ex_message_header_def ex_instruction_def instruction_fits_def lookup_keys_def)

lemma ex_length: "length ex_message = 43"
  by (simp add: ex_message_def encode_message_def encode_header_def encode_array_def
      ex_instruction_def encode_instruction_def)

lemma ex_wf: "ms_wf ex_config ex_owners ex_masks"
  by (simp add: ms_wf_def ex_config_def ex_owners_def ex_masks_def ms_invariant_iff MAX_OWNER_def
      MAX_TIME_LOCK_def voters_def mask_can_vote_def ascending_def)

lemma ex_config_load: "ms_load 0 ex_config_bytes = Inr (ex_config, ex_owners, ex_masks)"
  by (simp add: ms_load_Inr ex_config_def ex_owners_def ex_masks_def)

lemma ex_is_owner [simp]:
  "is_owner ex_owners (key 1) = Some 0" "is_owner ex_owners (key 2) = Some 1" "is_owner ex_owners (key 3) = Some 2"
  by (simp_all add: is_owner_def ex_owners_def binary_search_def counted_search_def search_loop.simps)

lemma ex_count_ones [simp]: "count_ones 0 = 0" "count_ones 1 = 1" "count_ones 2 = 1" "count_ones 3 = 2"
  by code_simp+

lemma ex_bits:
  "bitmap_get [0] i \<longleftrightarrow> False" "bitmap_get [1] i \<longleftrightarrow> i = 0" "bitmap_get [2] i \<longleftrightarrow> i = 1"
  "bitmap_get [3] i \<longleftrightarrow> i = 0 \<or> i = 1"
proof -
  have "\<forall>i \<in> set [0..<8]. (bitmap_get [0] i \<longleftrightarrow> False) \<and> (bitmap_get [1] i \<longleftrightarrow> i = 0) \<and>
      (bitmap_get [2] i \<longleftrightarrow> i = 1) \<and> (bitmap_get [3] i \<longleftrightarrow> i = 0 \<or> i = 1)"
    by code_simp
  moreover have "\<not> bitmap_get [w] i" if "\<not> i < 8" for w
    using that by (simp add: bitmap_get_def le_div_geq)
  ultimately show "bitmap_get [0] i \<longleftrightarrow> False" "bitmap_get [1] i \<longleftrightarrow> i = 0" "bitmap_get [2] i \<longleftrightarrow> i = 1"
    "bitmap_get [3] i \<longleftrightarrow> i = 0 \<or> i = 1"
    by (cases "i < 8"; force)+
qed

lemma ex_status: "\<exists>st. status_to_u8 st = 0" "\<exists>st. status_to_u8 st = 1" "\<exists>st. status_to_u8 st = 3"
  by (metis status_to_u8.simps)+

lemma ex_proposal_load:
  "tx_load 0 (tx_bytes (ex_proposal st a r) (ex_votes x y) ex_message)
     = Inr (ex_proposal st a r, ex_votes x y, ex_message)"
  by (simp add: tx_load_Inr votes_fit_def ex_proposal_def ex_votes_def ex_length len_for_def)

lemma ex_proposal_wf:
  "tx_wf (ex_proposal Active 0 0) (ex_votes 0 0) ex_message"
  "tx_wf (ex_proposal Active 1 0) (ex_votes 1 0) ex_message"
  "tx_wf (ex_proposal Active 0 1) (ex_votes 0 1) ex_message"
  "tx_wf (ex_proposal Approved 2 0) (ex_votes 3 0) ex_message"
  by (simp_all add: tx_wf_def tx_invariant_iff votes_fit_def ex_proposal_def ex_votes_def ex_length
      len_for_def MAX_OWNER_def MAX_MESSAGE_SIZE_def MAX_EPHEMERAL_SIGNERS_def bitmap_count_Cons ex_bits
      bitmap_count_def ex_status)

lemma ex_config_fields [simp]:
  "ms_create_key ex_config = key 20" "ms_config_authority ex_config = key 5"
  "ms_rent_collector ex_config = default_address" "ms_transaction_index ex_config = 1"
  "ms_stale_transaction_index ex_config = 0" "ms_closed_transaction_count ex_config = 0"
  "ms_time_lock ex_config = 60" "ms_owners_count ex_config = 3" "ms_voter_count ex_config = 3"
  "ms_threshold ex_config = 2" "cutoff ex_config = 2"
  by (simp_all add: ex_config_def cutoff_def saturating_sub_def)

lemma ex_proposal_fields [simp]:
  "tx_multisig (ex_proposal st a r) = key 10" "tx_creator (ex_proposal st a r) = key 1"
  "tx_index (ex_proposal st a r) = 1" "tx_approved_at (ex_proposal st a r) = 100"
  "tx_owners_count (ex_proposal st a r) = 3" "tx_approved_count (ex_proposal st a r) = of_nat a"
  "tx_rejected_count (ex_proposal st a r) = of_nat r" "tx_cancelled_count (ex_proposal st a r) = 0"
  "tx_message_len (ex_proposal st a r) = 43" "tx_status (ex_proposal st a r) = status_to_u8 st"
  "tx_ephemeral_count (ex_proposal st a r) = 0"
  by (simp_all add: ex_proposal_def ex_length)

lemma ex_votes_fields [simp]:
  "v_approved (ex_votes a r) = [a]" "v_rejected (ex_votes a r) = [r]" "v_cancelled (ex_votes a r) = [0]"
  by (simp_all add: ex_votes_def)

lemma ex_masks [simp]: "index_of ex_masks 0 = Inr 0" "index_of ex_masks (Suc 0) = Inr 0" "index_of ex_masks 2 = Inr 0"
  "mask_can_vote 0"
  by (simp_all add: index_of_def ex_masks_def mask_can_vote_def)

lemmas ex_eval =
  ex_config_load tx_load_mut_eq ms_load_mut_eq ex_proposal_load has_voted_def ex_bits bitmap_set_def
  status_from_u8_def latch_approved_def tx_invariant_def MAX_OWNER_def MAX_MESSAGE_SIZE_def
  MAX_EPHEMERAL_SIGNERS_def sim_runtime_def

section \<open>Votes\<close>

abbreviation ex_proposal_bytes :: "transaction_status \<Rightarrow> nat \<Rightarrow> nat \<Rightarrow> u8 \<Rightarrow> u8 \<Rightarrow> bytes" where
  "ex_proposal_bytes st a r x y \<equiv> tx_bytes (ex_proposal st a r) (ex_votes x y) ex_message"

lemma ex_approve_run:
  "\<exists>s'. process_approve (sim_runtime 100) ex_pid [ex_view 2, ex_view 10, ex_view 11] []
     (ex_store ex_config_bytes (ex_proposal_bytes Active 1 0 1 0)) = Inr s'"
  by (simp add: process_approve_def prepare_def check_votable_def ex_eval Let_def)

lemma ex_reject_run:
  "\<exists>s'. process_reject ex_pid [ex_view 2, ex_view 10, ex_view 11] []
     (ex_store ex_config_bytes (ex_proposal_bytes Active 0 1 0 1)) = Inr s'"
  by (simp add: process_reject_def prepare_def check_votable_def ex_eval Let_def)

lemma ex_cancel_run:
  "\<exists>s'. process_cancel ex_pid [ex_view 2, ex_view 10, ex_view 11] []
     (ex_store ex_config_bytes (ex_proposal_bytes Approved 2 0 3 0)) = Inr s'"
  by (simp add: process_cancel_def prepare_def check_votable_def ex_eval Let_def)

lemma ex_parse: "parse ex_message = Inr (message_of ex_message_header [key 30] [ex_instruction] [])"
  using parse_encode [OF ex_message_ok] by (simp add: ex_message_def)

lemma ex_ixs: "for_instructions body (cursor_new (encode_instruction ex_instruction)) s = body ex_instruction s"
proof -
  have "list_all instruction_fits [ex_instruction]" by (simp add: instruction_fits_def ex_instruction_def)
  from ixs.loop_new [OF this, of body s] show ?thesis by (cases "body ex_instruction s") simp_all
qed

lemma ex_no_lookups: "for_lookups body (cursor_new []) s = Inr s"
  using lks.loop_new [of "[]" body s] by simp

lemma views_at_first: "views_at (v # vs) (replicate n 0) = Inr (replicate n v)"
  by (induction n) simp_all

lemma ex_executed_load:
  "tx_load 0 (tx_bytes ((ex_proposal st a r)\<lparr>tx_status := b\<rparr>) (ex_votes x y) ex_message)
     = Inr ((ex_proposal st a r)\<lparr>tx_status := b\<rparr>, ex_votes x y, ex_message)"
  by (simp add: tx_load_Inr votes_fit_def ex_length len_for_def)

lemma ex_instruction_fields [simp]:
  "ci_program_id_index ex_instruction = 0" "ci_account_indexes ex_instruction = []" "ci_data ex_instruction = [7]"
  by (simp_all add: ex_instruction_def)

lemma ex_execute_run:
  "\<exists>s'. process_execute (sim_runtime 160) ex_pid [ex_view 2, ex_view 10, ex_view 11, ex_view 30] []
     (ex_store ex_config_bytes (ex_proposal_bytes Approved 2 0 3 0)) = Inr s'"
  by (simp add: process_execute_def begin_execution_def has_permission_def check_time_lock_def checked_sub_signed_def
     ex_eval Let_def ex_parse ex_executed_load check_accounts_def message_of_def ex_message_header_def execute_signers_def
     ex_ixs ex_no_lookups execute_instruction_def lookup_keys_def writable_lookup_keys_def MAX_CPI_ACCOUNTS_def
     map_replicate_const views_at_first)

lemma ex_runtime_ok: "runtime_ok pid (sim_runtime now)"
  by (simp add: runtime_ok_def sim_runtime_specs sim_runtime_create_spec)

lemma ex_loads:
  "ms_load (ptr_of (ex_store ex_config_bytes p) (ex_view 10)) (data_of (ex_store ex_config_bytes p) (ex_view 10))
     = Inr (ex_config, ex_owners, ex_masks)"
  "tx_load (ptr_of (ex_store c (ex_proposal_bytes st a r x y)) (ex_view 11))
     (data_of (ex_store c (ex_proposal_bytes st a r x y)) (ex_view 11))
     = Inr (ex_proposal st a r, ex_votes x y, ex_message)"
  by (simp_all add: ex_config_load ex_proposal_load)

theorem approve_correct_witness:
  "\<exists>s' h' v'. process_approve (sim_runtime 100) ex_pid [ex_view 2, ex_view 10, ex_view 11] []
       (ex_store ex_config_bytes (ex_proposal_bytes Active 1 0 1 0)) = Inr s' \<and>
     tx_load (ptr_of s' (ex_view 11)) (data_of s' (ex_view 11)) = Inr (h', v', ex_message) \<and>
     cast_by ex_owners (v_approved v') = insert (key 2) (cast_by ex_owners [1]) \<and>
     unat (tx_approved_count h') = card (cast_by ex_owners (v_approved v'))"
proof -
  obtain s' where run: "process_approve (sim_runtime 100) ex_pid [ex_view 2, ex_view 10, ex_view 11] []
       (ex_store ex_config_bytes (ex_proposal_bytes Active 1 0 1 0)) = Inr s'"
    using ex_approve_run by blast
  from approve_correct [OF run ex_loads(1) ex_wf ex_loads(2) ex_proposal_wf(2)]
  show ?thesis using run by (fastforce simp: tx_load_Inr tx_wf_def)
qed

lemma reject_correct_instance:
  "\<exists>s' h' v'. process_reject ex_pid [ex_view 2, ex_view 10, ex_view 11] []
       (ex_store ex_config_bytes (ex_proposal_bytes Active 0 1 0 1)) = Inr s' \<and>
     s' = set_data (ex_view 11) (tx_bytes h' v' ex_message)
            (ex_store ex_config_bytes (ex_proposal_bytes Active 0 1 0 1)) \<and>
     cast_by ex_owners (v_rejected v') = insert (key 2) (cast_by ex_owners [1])"
proof -
  obtain s' where run: "process_reject ex_pid [ex_view 2, ex_view 10, ex_view 11] []
       (ex_store ex_config_bytes (ex_proposal_bytes Active 0 1 0 1)) = Inr s'"
    using ex_reject_run by blast
  from reject_correct [OF run ex_loads(1) ex_wf ex_loads(2) ex_proposal_wf(3)]
  show ?thesis using run by auto
qed

theorem cancel_correct_witness:
  "\<exists>s' h' v'. process_cancel ex_pid [ex_view 2, ex_view 10, ex_view 11] []
       (ex_store ex_config_bytes (ex_proposal_bytes Approved 2 0 3 0)) = Inr s' \<and>
     s' = set_data (ex_view 11) (tx_bytes h' v' ex_message)
            (ex_store ex_config_bytes (ex_proposal_bytes Approved 2 0 3 0)) \<and>
     key 2 \<in> cast_by ex_owners (v_cancelled v') \<and> tx_wf h' v' ex_message"
proof -
  obtain s' where run: "process_cancel ex_pid [ex_view 2, ex_view 10, ex_view 11] []
       (ex_store ex_config_bytes (ex_proposal_bytes Approved 2 0 3 0)) = Inr s'"
    using ex_cancel_run by blast
  from cancel_correct [OF run ex_loads(1) ex_wf ex_loads(2) ex_proposal_wf(4)]
  show ?thesis using run by (auto simp: ex_status)
qed

theorem votes_refine_witness:
  "\<exists>s' h' v'. process_approve (sim_runtime 100) ex_pid [ex_view 2, ex_view 10, ex_view 11] []
       (ex_store ex_config_bytes (ex_proposal_bytes Active 1 0 1 0)) = Inr s' \<and>
     ballot_step (voter_set ex_owners ex_masks) 2 (ballot_of ex_owners (ex_proposal Active 1 0) (ex_votes 1 0))
       (ballot_of ex_owners h' v')"
proof -
  obtain s' where run: "process_approve (sim_runtime 100) ex_pid [ex_view 2, ex_view 10, ex_view 11] []
       (ex_store ex_config_bytes (ex_proposal_bytes Active 1 0 1 0)) = Inr s'"
    using ex_approve_run by blast
  from votes_refine [OF ex_runtime_ok _ ex_loads(1) ex_wf ex_loads(2) ex_proposal_wf(2) disjI1 [OF run]]
  show ?thesis using run by auto
qed

lemma ex_execute_obtain:
  obtains s' where "process_execute (sim_runtime 160) ex_pid [ex_view 2, ex_view 10, ex_view 11, ex_view 30] []
     (ex_store ex_config_bytes (ex_proposal_bytes Approved 2 0 3 0)) = Inr s'"
  using ex_execute_run by blast

theorem execute_only_approved_witness:
  "\<exists>s' h v m. process_execute (sim_runtime 160) ex_pid [ex_view 2, ex_view 10, ex_view 11, ex_view 30] []
       (ex_store ex_config_bytes (ex_proposal_bytes Approved 2 0 3 0)) = Inr s' \<and>
     tx_load 0 (ex_proposal_bytes Approved 2 0 3 0) = Inr (h, v, m) \<and> tx_status h = status_to_u8 Approved"
proof -
  obtain s' where run: "process_execute (sim_runtime 160) ex_pid [ex_view 2, ex_view 10, ex_view 11, ex_view 30] []
     (ex_store ex_config_bytes (ex_proposal_bytes Approved 2 0 3 0)) = Inr s'"
    by (rule ex_execute_obtain)
  from execute_only_approved [OF run] run show ?thesis by auto
qed

section \<open>Accounts that are created\<close>

text \<open>The store with no account at \<open>key n\<close>.\<close>

definition ex_unused :: "u8 \<Rightarrow> store \<Rightarrow> store" where
  "ex_unused n s = s(key n := \<lparr>lamports = 0, acc_data = [], acc_owner = system_program, data_ptr = 0\<rparr>)"

lemma ex_unused_simps [simp]:
  "ex_unused n s (key n) = \<lparr>lamports = 0, acc_data = [], acc_owner = system_program, data_ptr = 0\<rparr>"
  "m \<noteq> n \<Longrightarrow> ex_unused n s (key m) = s (key m)"
  by (simp_all add: ex_unused_def)

lemma ex_system [simp]: "system_program = key 0" "default_address = key 0"
  by (simp_all add: system_program_def key_default)

lemma ex_zero_split:
  "112 \<le> n \<Longrightarrow> tx_split_uninitialized 0 (replicate n 0) = Inr (tx_decode (replicate 112 0), replicate (n - 112) 0)"
  "112 \<le> n \<Longrightarrow> buf_split_uninitialized 0 (replicate n 0) = Inr (buf_decode (replicate 112 0), replicate (n - 112) 0)"
  "144 \<le> n \<Longrightarrow> ms_split_uninitialized 0 (replicate n 0) = Inr (ms_decode (replicate 144 0), replicate (n - 144) 0)"
  by (simp_all add: tx_split_uninitialized_def buf_split_uninitialized_def ms_split_uninitialized_def
      TX_LEN_def BUF_LEN_def MS_LEN_def)

definition ex_create_data :: bytes where
  "ex_create_data = [0, 253, 254, 0, 0, 0, 0, 0] @ ex_message"

lemma ex_message_length [simp]: "length ex_message = 43"
  by (rule ex_length)

lemma ex_create_run:
  "\<exists>s'. process_create_transaction (sim_runtime 100) ex_pid [ex_view 1, ex_view 10, ex_view 12, ex_view 0]
     ex_create_data (ex_unused 12 (ex_store ex_config_bytes [])) = Inr s'"
  by (simp add: process_create_transaction_def ex_create_data_def CREATE_LEN_def create_transaction_header_of_def
    init_proposal_def ex_parse reserve_index_def ex_eval Let_def checked_add_def tx_space_def TX_LEN_def len_for_def
    sim_create_def sim_rent_def ex_zero_split split_at_mut_def copy_from_slice_def set_lamports_def)

definition ex_init_data :: bytes where
  "ex_init_data = to_le_bytes 4 (2 :: u32) @ to_le_bytes 4 (3 :: u32) @ [255, 0, 0, 0] @ as_array (key 5) @
     encode_array as_array ex_owners"

lemma ex_sorted: "check_sorted ex_owners = Inr ()"
  using ex_wf by (simp add: check_sorted_Inr ms_wf_def)

lemma ex_init_parts:
  "length (encode_array as_array ex_owners) = 96"
  "decode_array 32 new_from_array 3 (encode_array as_array ex_owners) = ex_owners"
  using addr.decode_encode_array [of ex_owners 3 "[]"] by (simp_all add: ex_owners_def)

lemma ex_init_fields:
  "init_multisig_data_of ex_init_data = \<lparr>in_threshold = 2, in_owners_count = 3, in_bump = 255, in_pad = [0, 0, 0],
     in_config_authority = key 5\<rparr>"
  "drop 44 ex_init_data = encode_array as_array ex_owners" "length ex_init_data = 140"
  by (simp_all add: ex_init_data_def init_multisig_data_of_def from_to_le_bytes ex_init_parts nth_append del: as_array_key)
     (simp_all add: slice_def key_def)

lemma ex_init_run:
  "\<exists>s'. process_init_multisig (sim_runtime 100) ex_pid [ex_view 1, ex_view 20, ex_view 12, ex_view 0]
     ex_init_data (ex_unused 12 (ex_store [] [])) = Inr s'"
  by (simp add: process_init_multisig_def ex_init_fields ex_init_parts INIT_LEN_def MAX_OWNER_def Let_def ex_sorted
   ms_space_def MS_LEN_def sim_runtime_def sim_create_def sim_rent_def ex_zero_split split_at_mut_def copy_from_slice_def
   ms_invariant_def MAX_TIME_LOCK_def)

definition ex_buffer :: "nat \<Rightarrow> buffer" where
  "ex_buffer written =
     \<lparr>buf_multisig = key 10, buf_creator = key 1, buf_final_hash = new_from_array ex_message,
      buf_final_size = 43, buf_written = of_nat written, buf_buffer_index = 0, buf_vault_index = 0,
      buf_bump = 252, buf_pad = 0\<rparr>"

lemma ex_buffer_fields [simp]:
  "buf_multisig (ex_buffer w) = key 10" "buf_creator (ex_buffer w) = key 1" "buf_final_size (ex_buffer w) = 43"
  "buf_final_hash (ex_buffer w) = new_from_array ex_message" "buf_written (ex_buffer w) = of_nat w"
  "buf_vault_index (ex_buffer w) = 0"
  by (simp_all add: ex_buffer_def)

definition ex_region :: "nat \<Rightarrow> bytes" where
  "ex_region w = take w ex_message @ replicate (43 - w) 0"

lemma ex_region_simps [simp]: "w \<le> 43 \<Longrightarrow> length (ex_region w) = 43" "ex_region 43 = ex_message"
  by (simp_all add: ex_region_def)

lemma ex_buffer_load: "w \<le> 43 \<Longrightarrow> buf_load 0 (buf_bytes (ex_buffer w) (ex_region w)) = Inr (ex_buffer w, ex_region w)"
  by (simp add: buf_load_Inr)

lemma ex_buffer_full: "buf_load 0 (buf_bytes (ex_buffer 43) ex_message) = Inr (ex_buffer 43, ex_message)"
  using ex_buffer_load [of 43] by simp

text \<open>The configuration at \<open>key 10\<close> and a buffer at \<open>key 13\<close>.\<close>

definition ex_upload :: "nat \<Rightarrow> store" where
  "ex_upload w = (ex_store ex_config_bytes [])(key 13 := ex_account (buf_bytes (ex_buffer w) (ex_region w)) ex_pid)"

lemma ex_upload_simps [simp]:
  "ex_upload w (key 13) = ex_account (buf_bytes (ex_buffer w) (ex_region w)) ex_pid"
  "n \<noteq> 13 \<Longrightarrow> ex_upload w (key n) = ex_store ex_config_bytes [] (key n)"
  by (simp_all add: ex_upload_def)

lemma ex_buffer_wf: "buf_wf (ex_buffer 10) (ex_region 10)" "uploaded (ex_buffer 10) (ex_region 10) = take 10 ex_message"
  by (simp_all add: buf_wf_def buf_invariant_def MAX_MESSAGE_SIZE_def uploaded_def ex_region_def)

lemma ex_extend_run:
  "\<exists>s'. process_buffer_extend (sim_runtime 100) ex_pid [ex_view 1, ex_view 13] [1, 2, 3] (ex_upload 10) = Inr s'"
  by (simp add: process_buffer_extend_def buf_load_mut_eq ex_buffer_load write_range_def Let_def buf_invariant_def MAX_MESSAGE_SIZE_def)

lemma ex_buffer_close_run:
  "\<exists>s'. process_buffer_close (sim_runtime 100) ex_pid [ex_view 1, ex_view 13] [] (ex_upload 10) = Inr s'"
  by (simp add: process_buffer_close_def ex_buffer_load close_buffer_def Let_def sim_runtime_def checked_add_def)

lemma ex_from_buffer_run:
  "\<exists>s'. process_create_from_buffer (sim_runtime 100) ex_pid
     [ex_view 1, ex_view 10, ex_view 12, ex_view 13, ex_view 0] [254, 253, 0, 0, 0, 0, 0] (ex_unused 12 (ex_upload 43)) = Inr s'"
  by (simp add: process_create_from_buffer_def FROM_BUFFER_LEN_def create_from_buffer_data_of_def ex_buffer_full is_complete_def
    close_buffer_def
    init_proposal_def ex_parse reserve_index_def ex_eval Let_def checked_add_def tx_space_def TX_LEN_def len_for_def
    sim_create_def sim_rent_def ex_zero_split split_at_mut_def copy_from_slice_def set_lamports_def)

definition ex_buffer_data :: bytes where
  "ex_buffer_data = as_array (key 8) @ to_le_bytes 4 (43 :: u32) @ [0, 0, 252, 0] @ take 10 ex_message"

lemma ex_buffer_data_fields:
  "buffer_create_data_of ex_buffer_data = \<lparr>bc_final_hash = key 8, bc_final_size = 43, bc_buffer_index = 0,
     bc_vault_index = 0, bc_bump = 252, bc_pad = 0\<rparr>"
  "drop 40 ex_buffer_data = take 10 ex_message" "length ex_buffer_data = 50"
  by (simp_all add: ex_buffer_data_def buffer_create_data_of_def from_to_le_bytes nth_append del: as_array_key)

lemma ex_may_upload: "check_may_upload (ex_view 1) (ex_view 10) (ex_unused 12 (ex_store ex_config_bytes [])) = Inr ()"
  by (simp add: check_may_upload_def ex_config_load has_permission_def)

lemma ex_buffer_create_run:
  "\<exists>s'. process_buffer_create (sim_runtime 100) ex_pid [ex_view 1, ex_view 10, ex_view 12, ex_view 0]
     ex_buffer_data (ex_unused 12 (ex_store ex_config_bytes [])) = Inr s'"
  by (simp add: process_buffer_create_def ex_buffer_data_fields BUFFER_CREATE_LEN_def MAX_MESSAGE_SIZE_def Let_def
   ex_may_upload buf_space_def BUF_LEN_def sim_runtime_def sim_create_def sim_rent_def ex_zero_split write_range_def
   buf_invariant_def)

section \<open>Creating, uploading and closing\<close>

lemma ex_new_load:
  assumes "tx_owners_count h = 3" "tx_message_len h = 43"
  shows "tx_load 0 (tx_encode h @ replicate 3 0 @ ex_message) = Inr (h, ex_votes 0 0, ex_message)"
proof -
  have "replicate 3 (0 :: u8) = [0, 0, 0]" by (simp add: numeral_3_eq_3)
  with assms show ?thesis by (simp add: tx_load_Inr tx_bytes_def votes_fit_def len_for_def)
qed

lemma ex_new_config_load:
  "ms_load 0 (ms_bytes (ex_config\<lparr>ms_transaction_index := i\<rparr>) ex_owners ex_masks)
     = Inr (ex_config\<lparr>ms_transaction_index := i\<rparr>, ex_owners, ex_masks)"
  by (simp add: ms_load_Inr ex_owners_def ex_masks_def)

lemma ex_create_approve_run:
  obtains s0 s1 where
    "process_create_transaction (sim_runtime 100) ex_pid [ex_view 1, ex_view 10, ex_view 12, ex_view 0]
       ex_create_data (ex_unused 12 (ex_store ex_config_bytes [])) = Inr s0"
    "process_approve (sim_runtime 100) ex_pid [ex_view 2, ex_view 10, ex_view 12] [] s0 = Inr s1"
proof -
  have "\<exists>s0 s1. process_create_transaction (sim_runtime 100) ex_pid [ex_view 1, ex_view 10, ex_view 12, ex_view 0]
       ex_create_data (ex_unused 12 (ex_store ex_config_bytes [])) = Inr s0 \<and>
     process_approve (sim_runtime 100) ex_pid [ex_view 2, ex_view 10, ex_view 12] [] s0 = Inr s1"
    by (simp add: process_create_transaction_def ex_create_data_def CREATE_LEN_def create_transaction_header_of_def
      init_proposal_def ex_parse reserve_index_def ex_eval Let_def checked_add_def tx_space_def TX_LEN_def len_for_def
      sim_create_def sim_rent_def ex_zero_split split_at_mut_def copy_from_slice_def set_lamports_def
      process_approve_def prepare_def ex_new_load ex_new_config_load check_votable_def cutoff_def saturating_sub_def)
  with that show thesis by blast
qed

lemma ex_unused_loads:
  "ms_load (ptr_of (ex_unused 12 (ex_store ex_config_bytes p)) (ex_view 10))
     (data_of (ex_unused 12 (ex_store ex_config_bytes p)) (ex_view 10)) = Inr (ex_config, ex_owners, ex_masks)"
  by (simp add: ex_config_load)

theorem status_means_votes_witness:
  "\<exists>s0 s1 t h v. process_create_transaction (sim_runtime 100) ex_pid [ex_view 1, ex_view 10, ex_view 12, ex_view 0]
       ex_create_data (ex_unused 12 (ex_store ex_config_bytes [])) = Inr s0 \<and>
     process_approve (sim_runtime 100) ex_pid [ex_view 2, ex_view 10, ex_view 12] [] s0 = Inr s1 \<and>
     life ex_pid (key 10) (key 12) {key 2} s0 s1 \<and>
     tx_load (data_ptr (s1 (key 12))) (acc_data (s1 (key 12))) = Inr (h, v, ex_message) \<and>
     proposal_kept t h \<and> unat (tx_index h) = 2 \<and>
     ballot_ok (voter_set ex_owners ex_masks) 2 (ballot_of ex_owners h v) \<and>
     cast_by ex_owners (v_approved v) \<subseteq> {key 2}"
proof -
  obtain s0 s1 where c: "process_create_transaction (sim_runtime 100) ex_pid
       [ex_view 1, ex_view 10, ex_view 12, ex_view 0]
       ex_create_data (ex_unused 12 (ex_store ex_config_bytes [])) = Inr s0"
    and a: "process_approve (sim_runtime 100) ex_pid [ex_view 2, ex_view 10, ex_view 12] [] s0 = Inr s1"
    by (rule ex_create_approve_run)
  have "life_step ex_pid (v_address (ex_view 10)) (v_address (ex_view 12)) {v_address (ex_view 2)} s0 s1"
    using a by (rule life_step.approving) simp_all
  with life.born have "life ex_pid (v_address (ex_view 10)) (v_address (ex_view 12)) ({} \<union> {v_address (ex_view 2)}) s0 s1"
    by (rule life.goes_on)
  then have l: "life ex_pid (v_address (ex_view 10)) (v_address (ex_view 12)) {key 2} s0 s1" by simp
  from status_means_votes [OF sim_runtime_create_spec c ex_unused_loads ex_wf l]
  show ?thesis using c a l by (auto simp: ex_create_data_def CREATE_LEN_def)
qed

theorem create_transaction_correct_witness:
  "\<exists>s' t. process_create_transaction (sim_runtime 100) ex_pid [ex_view 1, ex_view 10, ex_view 12, ex_view 0]
       ex_create_data (ex_unused 12 (ex_store ex_config_bytes [])) = Inr s' \<and>
     tx_load (data_ptr (s' (key 12))) (acc_data (s' (key 12))) = Inr (t, clear_votes 3, ex_message) \<and>
     unat (tx_index t) = 2"
proof -
  obtain s' where run: "process_create_transaction (sim_runtime 100) ex_pid
       [ex_view 1, ex_view 10, ex_view 12, ex_view 0]
       ex_create_data (ex_unused 12 (ex_store ex_config_bytes [])) = Inr s'"
    using ex_create_run by blast
  from create_transaction_correct [OF sim_runtime_create_spec run]
  show ?thesis using run by (auto simp: ex_config_load ex_create_data_def CREATE_LEN_def)
qed

theorem create_from_buffer_correct_witness:
  "\<exists>s' t. process_create_from_buffer (sim_runtime 100) ex_pid
       [ex_view 1, ex_view 10, ex_view 12, ex_view 13, ex_view 0] [254, 253, 0, 0, 0, 0, 0]
       (ex_unused 12 (ex_upload 43)) = Inr s' \<and>
     acc_data (s' (key 12)) = tx_bytes t (clear_votes 3) ex_message \<and> acc_data (s' (key 13)) = []"
proof -
  obtain s' where run: "process_create_from_buffer (sim_runtime 100) ex_pid
       [ex_view 1, ex_view 10, ex_view 12, ex_view 13, ex_view 0] [254, 253, 0, 0, 0, 0, 0]
       (ex_unused 12 (ex_upload 43)) = Inr s'"
    using ex_from_buffer_run by blast
  from create_from_buffer_correct [OF sim_runtime_create_spec sim_runtime_specs(3) run]
  show ?thesis using run by (auto simp: ex_config_load ex_buffer_full)
qed

theorem init_multisig_correct_witness:
  "\<exists>s' c. process_init_multisig (sim_runtime 100) ex_pid [ex_view 1, ex_view 20, ex_view 12, ex_view 0]
       ex_init_data (ex_unused 12 (ex_store [] [])) = Inr s' \<and>
     acc_data (s' (key 12)) = ms_bytes c ex_owners (replicate 3 0) \<and> ms_wf c ex_owners (replicate 3 0)"
proof -
  obtain s' where run: "process_init_multisig (sim_runtime 100) ex_pid
       [ex_view 1, ex_view 20, ex_view 12, ex_view 0]
       ex_init_data (ex_unused 12 (ex_store [] [])) = Inr s'"
    using ex_init_run by blast
  from init_multisig_correct [OF sim_runtime_create_spec run]
  show ?thesis using run unfolding Let_def INIT_LEN_def
    by (auto simp: ex_init_fields ex_init_parts)
qed

lemma buffer_create_instance:
  "\<exists>s' b region. process_buffer_create (sim_runtime 100) ex_pid [ex_view 1, ex_view 10, ex_view 12, ex_view 0]
       ex_buffer_data (ex_unused 12 (ex_store ex_config_bytes [])) = Inr s' \<and>
     acc_data (s' (key 12)) = buf_bytes b region \<and> uploaded b region = take 10 ex_message \<and>
     buf_final_hash b = key 8"
proof -
  obtain s' where run: "process_buffer_create (sim_runtime 100) ex_pid
       [ex_view 1, ex_view 10, ex_view 12, ex_view 0]
       ex_buffer_data (ex_unused 12 (ex_store ex_config_bytes [])) = Inr s'"
    using ex_buffer_create_run by blast
  from buffer_create_effect [OF sim_runtime_create_spec run]
  show ?thesis using run unfolding Let_def BUFFER_CREATE_LEN_def by (auto simp: ex_buffer_data_fields)
qed

lemma buffer_extend_instance:
  "\<exists>s' b' region'. process_buffer_extend (sim_runtime 100) ex_pid [ex_view 1, ex_view 13] [1, 2, 3] (ex_upload 10)
       = Inr s' \<and>
     buf_load (data_ptr (s' (key 13))) (acc_data (s' (key 13))) = Inr (b', region') \<and>
     uploaded b' region' = take 10 ex_message @ [1, 2, 3]"
proof -
  obtain s' where run: "process_buffer_extend (sim_runtime 100) ex_pid [ex_view 1, ex_view 13] [1, 2, 3]
       (ex_upload 10) = Inr s'"
    using ex_extend_run by blast
  have "buf_load (ptr_of (ex_upload 10) (ex_view 13)) (data_of (ex_upload 10) (ex_view 13))
      = Inr (ex_buffer 10, ex_region 10)" by (simp add: ex_buffer_load)
  from buffer_extend_effect [OF run this ex_buffer_wf(1)]
  show ?thesis using run unfolding ex_buffer_wf(2) by auto
qed

lemma buffer_close_refunds_creator_instance:
  "\<exists>s'. process_buffer_close (sim_runtime 100) ex_pid [ex_view 1, ex_view 13] [] (ex_upload 10) = Inr s' \<and>
     unat (lamports (s' (key 1))) = 200000 \<and> acc_data (s' (key 13)) = []"
proof -
  obtain s' where run: "process_buffer_close (sim_runtime 100) ex_pid [ex_view 1, ex_view 13] [] (ex_upload 10) = Inr s'"
    using ex_buffer_close_run by blast
  from buffer_close_refunds_creator [OF sim_runtime_specs(3) run]
  show ?thesis using run by auto
qed

lemma ex_close_run:
  "\<exists>s'. process_close_transaction (sim_runtime 100) ex_pid [ex_view 11, ex_view 10, ex_view 1] []
     (ex_store ex_config_bytes (ex_proposal_bytes Executed 2 0 3 0)) = Inr s'"
  by (simp add: process_close_transaction_def count_closure_def ex_eval ms_invariant_def MAX_TIME_LOCK_def Let_def checked_add_def)

theorem close_transaction_correct_witness:
  "\<exists>s'. process_close_transaction (sim_runtime 100) ex_pid [ex_view 11, ex_view 10, ex_view 1] []
       (ex_store ex_config_bytes (ex_proposal_bytes Executed 2 0 3 0)) = Inr s' \<and>
     acc_data (s' (key 10)) = ms_bytes (ex_config\<lparr>ms_closed_transaction_count := 1\<rparr>) ex_owners ex_masks \<and>
     unat (lamports (s' (key 1))) = 200000 \<and> acc_data (s' (key 11)) = []"
proof -
  obtain s' where run: "process_close_transaction (sim_runtime 100) ex_pid [ex_view 11, ex_view 10, ex_view 1] []
       (ex_store ex_config_bytes (ex_proposal_bytes Executed 2 0 3 0)) = Inr s'"
    using ex_close_run by blast
  from close_transaction_correct [OF sim_runtime_specs(3) run _ _ ex_loads(1) ex_wf]
  show ?thesis using run by auto
qed

section \<open>Routines\<close>

lemma bitmap_set_correct_instance:
  "(2 :: nat) < 3 \<and> bitmap_get (fst (bitmap_set [1] 2)) 2 \<and> bitmap_count (fst (bitmap_set [1] 2)) = 2"
proof -
  have "length [1 :: u8] = len_for 3" by (simp add: len_for_def)
  from bitmap_set_correct [OF _ this, of 2] show ?thesis
    by (simp add: ex_bits bitmap_count_Cons bitmap_count_def)
qed

theorem is_owner_correct_witness:
  "ascending ex_owners \<and> (\<exists>i. is_owner ex_owners (key 3) = Some i \<and> ex_owners ! i = key 3) \<and>
   is_owner ex_owners (key 4) = None"
proof -
  have a: "ascending ex_owners" using ex_wf by (simp add: ms_wf_def)
  have "key 4 \<notin> set ex_owners" by (simp add: ex_owners_def)
  with is_owner_correct [OF a, of "key 4"] is_owner_correct [OF a, of "key 3" 2] a
  show ?thesis by (simp add: ex_owners_def)
qed

lemma cutoff_exact_instance:
  "ms_wf ex_config ex_owners ex_masks \<and> voters ex_masks - 2 < unat (ms_threshold ex_config) \<and>
   \<not> voters ex_masks - 1 < unat (ms_threshold ex_config)"
  using cutoff_exact [OF ex_wf, of 2] cutoff_exact [OF ex_wf, of 1] ex_wf by simp

lemma ex_message_privileges:
  "message_ok ex_message_header [key 30] [ex_instruction] [] \<and>
   card {i. i < length [key 30] + lookup_keys [] \<and>
     message_is_writable (message_of ex_message_header [key 30] [ex_instruction] []) i} = 0"
  using message_privileges [OF ex_message_ok] ex_message_ok
  by (simp add: ex_message_header_def writable_lookup_keys_def)

theorem process_instruction_no_panic_witness:
  "runtime_no_panic (sim_runtime 0) \<and>
   process_instruction (sim_runtime 0) ID [ex_view 1] [2, 7] (ex_store [] []) \<noteq> Inl Panicked"
  using process_instruction_no_panic [OF sim_runtime_specs(5) sim_runtime_create_spec sim_runtime_specs(2,1)]
    sim_runtime_specs(5) by blast

section \<open>Configuration\<close>

lemma ex_search [simp]: "binary_search ex_owners (key 4) = Inl 3"
  by (simp add: ex_owners_def binary_search_def counted_search_def search_loop.simps)

lemma ex_grown_split:
  "ms_split_uninitialized 0 (ex_config_bytes @ z) = Inr (ex_config, encode_array as_array ex_owners @ ex_masks @ z)"
  by (simp add: msl.uninit_Inr ms_bytes_def)

lemma ex_config_length [simp]: "length ex_config_bytes = 243"
  by (simp add: ms_bytes_def addr.length_encode_array ex_owners_def ex_masks_def)

lemma ex_sets [simp]: "length ex_owners = 3" "length ex_masks = 3" "insert_at 3 a ex_owners = ex_owners @ [a]"
  "insert_at 3 n ex_masks = ex_masks @ [n]"
  by (simp_all add: ex_owners_def ex_masks_def insert_at_def)

lemma ex_inserted:
  "insert_owner_bytes 3 3 (key 4) (encode_array as_array ex_owners @ ex_masks @ replicate 33 0) =
    Inr (encode_array as_array (ex_owners @ [key 4]) @ ex_masks @ [0])"
  using insert_owner_bytes_eq [of ex_owners 3 ex_masks 3 "replicate 33 0" "key 4"] by simp

lemma ex_grown_load:
  "ms_owners_count c = 4 \<Longrightarrow> ms_load 0 (ms_encode c @ encode_array as_array ex_owners @ as_array (key 4) @ ex_masks @ [0])
    = Inr (c, ex_owners @ [key 4], ex_masks @ [0])"
  by (simp add: ms_load_Inr ms_bytes_def)

lemma ex_grown_split2:
  "ms_split_uninitialized 0 (ms_encode c @ t) = Inr (c, t)"
  by (simp add: msl.uninit_Inr)

lemma ex_nth: "ex_owners ! 2 = key 3" "ex_owners ! 0 = key 1" by (simp_all add: ex_owners_def)
lemma ex_add_owner_run:
  "\<exists>s'. add_owner (sim_runtime 100) (ex_view 10) (ex_view 1) (as_array (key 4)) (ex_store ex_config_bytes p) = Inr s'"
  by (simp add: add_owner_def payload_address_def ex_config_load MAX_OWNER_def ms_space_def MS_LEN_def
    sim_runtime_def settle_rent_def sim_rent_def checked_add_def ex_grown_split ex_grown_split2 ex_inserted ex_grown_load
    check_neighbours_def index_of_def Let_def ms_invariant_def nth_append invalidate_prior_transactions_def MAX_TIME_LOCK_def ex_nth
    del: as_array_key)

lemma ex_plain_config_load:
  "ms_load (ptr_of (ex_store ex_config_bytes p) (ex_view 10)) (data_of (ex_store ex_config_bytes p) (ex_view 10))
     = Inr (ex_config, ex_owners, ex_masks)"
  by (simp add: ex_config_load)

theorem add_owner_correct_witness:
  "\<exists>s' c' os' ps'. add_owner (sim_runtime 100) (ex_view 10) (ex_view 1) (as_array (key 4)) (ex_store ex_config_bytes [])
       = Inr s' \<and>
     ms_load (data_ptr (s' (key 10))) (acc_data (s' (key 10))) = Inr (c', os', ps') \<and> length os' = 4 \<and>
     perm_map os' ps' = (perm_map ex_owners ex_masks)(key 4 \<mapsto> 0)"
proof -
  obtain s' where run: "add_owner (sim_runtime 100) (ex_view 10) (ex_view 1) (as_array (key 4)) (ex_store ex_config_bytes [])
       = Inr s'"
    using ex_add_owner_run by blast
  from add_owner_correct [OF sim_runtime_specs(2,1) ex_plain_config_load ex_wf run]
  show ?thesis using run by (auto simp del: as_array_key)
qed

lemma ex_remove_owner_run:
  "\<exists>s'. remove_owner (sim_runtime 100) (ex_view 10) (ex_view 1) (as_array (key 2)) (ex_store ex_config_bytes p) = Inr s'"
proof -
  obtain junk where j: "remove_owner_bytes 3 1 (encode_array as_array ex_owners @ ex_masks)
       = Inr (encode_array as_array (remove_at 1 ex_owners) @ remove_at 1 ex_masks @ junk)" "length junk = 33"
    using remove_owner_bytes_eq [of ex_owners 3 ex_masks 1] by auto
  have split: "ms_split_uninitialized 0 ex_config_bytes = Inr (ex_config, encode_array as_array ex_owners @ ex_masks)"
    by (simp add: msl.uninit_Inr ms_bytes_def)
  show ?thesis
    using j by (simp add: remove_owner_def payload_address_def ex_config_load split ms_space_def MS_LEN_def
        sim_runtime_def settle_rent_def sim_rent_def checked_add_def Let_def ms_invariant_def MAX_OWNER_def
        MAX_TIME_LOCK_def invalidate_prior_transactions_def del: as_array_key)
qed

theorem remove_owner_correct_witness:
  "\<exists>s' c' os' ps'. remove_owner (sim_runtime 100) (ex_view 10) (ex_view 1) (as_array (key 2)) (ex_store ex_config_bytes [])
       = Inr s' \<and>
     ms_load (data_ptr (s' (key 10))) (acc_data (s' (key 10))) = Inr (c', os', ps') \<and>
     perm_map os' ps' = (perm_map ex_owners ex_masks)(key 2 := None)"
proof -
  obtain s' where run: "remove_owner (sim_runtime 100) (ex_view 10) (ex_view 1) (as_array (key 2)) (ex_store ex_config_bytes [])
       = Inr s'"
    using ex_remove_owner_run by blast
  from remove_owner_correct [OF sim_runtime_specs(2,1) ex_plain_config_load ex_wf run]
  show ?thesis using run by (auto simp del: as_array_key)
qed

lemma ex_permission_run:
  "\<exists>s'. apply_config_action (sim_runtime 100) (ex_view 10) (ex_view 1) (5 # as_array (key 2) @ [5]) False
     (ex_store ex_config_bytes p) = Inr s'"
  by (simp add: apply_config_action_def config_action_from_u8_def ms_load_mut_eq ex_config_load edit_config_def
     set_permission_def payload_address_def nth_append PERM_ALL_def INITIATE_def VOTE_def EXECUTE_def mask_can_vote_def
     Let_def invalidate_prior_transactions_def ms_invariant_def MAX_OWNER_def MAX_TIME_LOCK_def del: as_array_key)

theorem set_permission_correct_witness:
  "\<exists>s' c' ps'. apply_config_action (sim_runtime 100) (ex_view 10) (ex_view 1) (5 # as_array (key 2) @ [5]) False
       (ex_store ex_config_bytes []) = Inr s' \<and>
     acc_data (s' (key 10)) = ms_bytes c' ex_owners ps' \<and>
     perm_map ex_owners ps' = (perm_map ex_owners ex_masks)(key 2 \<mapsto> 5)"
proof -
  obtain s' where run: "apply_config_action (sim_runtime 100) (ex_view 10) (ex_view 1) (5 # as_array (key 2) @ [5]) False
       (ex_store ex_config_bytes []) = Inr s'"
    using ex_permission_run by blast
  from set_permission_correct [OF ex_plain_config_load ex_wf run]
  show ?thesis using run by (auto simp: nth_append simp del: as_array_key) blast
qed

lemma ex_threshold_run:
  "\<exists>s'. apply_config_action (sim_runtime 100) (ex_view 10) (ex_view 5) (2 # to_le_bytes 4 (3 :: u32)) False
     (ex_store ex_config_bytes p) = Inr s'"
  by (simp add: apply_config_action_def config_action_from_u8_def ms_load_mut_eq ex_config_load edit_config_def
     change_threshold_def from_to_le_bytes
     Let_def invalidate_prior_transactions_def ms_invariant_def MAX_OWNER_def MAX_TIME_LOCK_def)

theorem edit_field_correct_witness:
  "\<exists>s'. apply_config_action (sim_runtime 100) (ex_view 10) (ex_view 5) (2 # to_le_bytes 4 (3 :: u32)) False
       (ex_store ex_config_bytes []) = Inr s' \<and>
     acc_data (s' (key 10)) = ms_bytes (ex_config\<lparr>ms_threshold := 3, ms_stale_transaction_index := 1\<rparr>)
       ex_owners ex_masks"
proof -
  obtain s' where run: "apply_config_action (sim_runtime 100) (ex_view 10) (ex_view 5) (2 # to_le_bytes 4 (3 :: u32)) False
       (ex_store ex_config_bytes []) = Inr s'"
    using ex_threshold_run by blast
  from edit_field_correct [OF ex_plain_config_load ex_wf run]
  show ?thesis using run by (auto simp: from_to_le_bytes)
qed

theorem config_action_invalidates_witness:
  "\<exists>s' c' os' ps'. apply_config_action (sim_runtime 100) (ex_view 10) (ex_view 5) (2 # to_le_bytes 4 (3 :: u32)) False
       (ex_store ex_config_bytes []) = Inr s' \<and>
     ms_load (data_ptr (s' (key 10))) (acc_data (s' (key 10))) = Inr (c', os', ps') \<and>
     ms_stale_transaction_index c' = 1"
proof -
  obtain s' where run: "apply_config_action (sim_runtime 100) (ex_view 10) (ex_view 5) (2 # to_le_bytes 4 (3 :: u32)) False
       (ex_store ex_config_bytes []) = Inr s'"
    using ex_threshold_run by blast
  from config_action_invalidates [OF sim_runtime_specs(2,1) ex_plain_config_load ex_wf run]
  show ?thesis using run by auto
qed

lemma ex_close_multisig_run:
  "\<exists>s'. apply_config_action (sim_runtime 100) (ex_view 10) (ex_view 1) [6] True (ex_store ex_config_bytes p) = Inr s'"
  by (simp add: apply_config_action_def config_action_from_u8_def close_multisig_def ex_config_load Let_def
     only_executing_transaction_open_def checked_add_def sim_runtime_def)

theorem close_multisig_correct_witness:
  "\<exists>s'. apply_config_action (sim_runtime 100) (ex_view 10) (ex_view 1) [6] True (ex_store ex_config_bytes []) = Inr s' \<and>
     unat (lamports (s' (key 1))) = 200000 \<and> acc_data (s' (key 10)) = []"
proof -
  obtain s' where run: "apply_config_action (sim_runtime 100) (ex_view 10) (ex_view 1) [6] True
       (ex_store ex_config_bytes []) = Inr s'"
    using ex_close_multisig_run by blast
  from close_multisig_correct [OF sim_runtime_specs(3) ex_plain_config_load run]
  show ?thesis using run by auto
qed

lemma set_config_authority_only_instance:
  "\<exists>s'. process_set_config (sim_runtime 100) ex_pid [ex_view 5, ex_view 10] (2 # to_le_bytes 4 (3 :: u32))
       (ex_store ex_config_bytes []) = Inr s' \<and> v_address (ex_view 5) = ms_config_authority ex_config \<and>
     apply_config_action (sim_runtime 100) (ex_view 10) (ex_view 5) (2 # to_le_bytes 4 (3 :: u32)) False
       (ex_store ex_config_bytes []) = Inr s'"
proof -
  obtain s' where "apply_config_action (sim_runtime 100) (ex_view 10) (ex_view 5) (2 # to_le_bytes 4 (3 :: u32)) False
       (ex_store ex_config_bytes []) = Inr s'"
    using ex_threshold_run by blast
  then have run: "process_set_config (sim_runtime 100) ex_pid [ex_view 5, ex_view 10] (2 # to_le_bytes 4 (3 :: u32))
       (ex_store ex_config_bytes []) = Inr s'"
    by (simp add: process_set_config_def ex_config_load is_controlled_def)
  from set_config_authority_only [of "ex_store ex_config_bytes []" "ex_view 10" ex_config ex_owners ex_masks, OF ex_plain_config_load] run show ?thesis by blast
qed

end
