(* ===== verification/Client.thy ===== *)
theory Client
  imports Entrypoint
begin

text \<open>
  src/client.rs: the off-chain instruction builders. Each builder is a definition with the source's
  name; the ones that slice a fixed array by a caller's length return a \<open>result\<close>, for they can
  panic. Addresses are derived by \<open>Pubkey::find_program_address\<close>, which is not under src/: it is the
  parameter \<open>derive\<close>, and \<open>derive_spec\<close> states what it promises. The lemmas say that what a builder
  writes is what the program reads: the payloads, the message, and the accounts of \<open>execute\<close>.
\<close>

section \<open>Constants\<close>

definition SYSTEM_PROGRAM :: address where "SYSTEM_PROGRAM = new_from_array (replicate 32 0)"

definition client_program_id :: address where "client_program_id = new_from_array (as_array ID)"

text \<open>Module \<open>tag\<close>.\<close>

definition tag_INIT_MULTISIG :: u8 where "tag_INIT_MULTISIG = 0"

definition tag_CREATE_TRANSACTION :: u8 where "tag_CREATE_TRANSACTION = 1"

definition tag_APPROVE :: u8 where "tag_APPROVE = 2"

definition tag_REJECT :: u8 where "tag_REJECT = 3"

definition tag_EXECUTE :: u8 where "tag_EXECUTE = 4"

definition tag_CANCEL :: u8 where "tag_CANCEL = 5"

definition tag_CLOSE_TRANSACTION :: u8 where "tag_CLOSE_TRANSACTION = 6"

definition tag_BUFFER_CREATE :: u8 where "tag_BUFFER_CREATE = 7"

definition tag_BUFFER_EXTEND :: u8 where "tag_BUFFER_EXTEND = 8"

definition tag_BUFFER_CLOSE :: u8 where "tag_BUFFER_CLOSE = 9"

definition tag_CREATE_FROM_BUFFER :: u8 where "tag_CREATE_FROM_BUFFER = 10"

definition tag_SET_CONFIG :: u8 where "tag_SET_CONFIG = 11"

text \<open>Module \<open>action\<close>.\<close>

definition action_ADD_OWNER :: u8 where "action_ADD_OWNER = 0"

definition action_REMOVE_OWNER :: u8 where "action_REMOVE_OWNER = 1"

definition action_CHANGE_THRESHOLD :: u8 where "action_CHANGE_THRESHOLD = 2"

definition action_CHANGE_TIME_LOCK :: u8 where "action_CHANGE_TIME_LOCK = 3"

definition action_SET_RENT_COLLECTOR :: u8 where "action_SET_RENT_COLLECTOR = 4"

definition action_SET_PERMISSION :: u8 where "action_SET_PERMISSION = 5"

definition action_CLOSE_MULTISIG :: u8 where "action_CLOSE_MULTISIG = 6"

definition action_SET_CONFIG_AUTHORITY :: u8 where "action_SET_CONFIG_AUTHORITY = 7"

text \<open>Module \<open>permission\<close>.\<close>

definition permission_INITIATE :: u8 where "permission_INITIATE = 1"

definition permission_VOTE :: u8 where "permission_VOTE = 2"

definition permission_EXECUTE :: u8 where "permission_EXECUTE = 4"

definition u32_payload :: "u32 \<Rightarrow> bytes" where "u32_payload v = to_le_bytes 4 v"

text \<open>The constants are the program's.\<close>

lemma client_constants:
  "SYSTEM_PROGRAM = system_program" "client_program_id = ID"
  "permission_INITIATE = INITIATE" "permission_VOTE = VOTE" "permission_EXECUTE = EXECUTE"
  unfolding SYSTEM_PROGRAM_def system_program_def default_address_def client_program_id_def
  by (simp_all add: permission_INITIATE_def permission_VOTE_def permission_EXECUTE_def INITIATE_def VOTE_def EXECUTE_def)

lemmas tag_defs =
  tag_INIT_MULTISIG_def tag_CREATE_TRANSACTION_def tag_APPROVE_def tag_REJECT_def tag_EXECUTE_def
  tag_CANCEL_def tag_CLOSE_TRANSACTION_def tag_BUFFER_CREATE_def tag_BUFFER_EXTEND_def
  tag_BUFFER_CLOSE_def tag_CREATE_FROM_BUFFER_def tag_SET_CONFIG_def

lemmas action_defs =
  action_ADD_OWNER_def action_REMOVE_OWNER_def action_CHANGE_THRESHOLD_def
  action_CHANGE_TIME_LOCK_def action_SET_RENT_COLLECTOR_def action_SET_PERMISSION_def
  action_CLOSE_MULTISIG_def action_SET_CONFIG_AUTHORITY_def

section \<open>Addresses\<close>

text \<open>\<open>Pubkey::find_program_address\<close>: the address some bump makes the seeds derive, and that bump. There
  may be fifteen seeds beside the bump, of at most 32 bytes each.\<close>

type_synonym finder = "bytes list \<Rightarrow> address \<Rightarrow> address \<times> u8"

definition derive_spec :: "runtime \<Rightarrow> finder \<Rightarrow> bool" where
  "derive_spec rt derive \<longleftrightarrow>
     (\<forall>seeds pid. length seeds < 16 \<and> (\<forall>seed \<in> set seeds. length seed \<le> 32) \<longrightarrow>
        rt_pda rt (seeds @ [[snd (derive seeds pid)]]) pid = Some (fst (derive seeds pid)))"

definition multisig_address :: "finder \<Rightarrow> address \<Rightarrow> address \<times> u8" where
  "multisig_address derive create_key = derive [MULTISIG_SEED, as_array create_key] client_program_id"

definition transaction_address :: "finder \<Rightarrow> address \<Rightarrow> u64 \<Rightarrow> address \<times> u8" where
  "transaction_address derive multisig index =
     derive [TRANSACTION_SEED, as_array multisig, to_le_bytes 8 index] client_program_id"

definition vault_address :: "finder \<Rightarrow> address \<Rightarrow> u8 \<Rightarrow> address \<times> u8" where
  "vault_address derive multisig vault_index =
     derive [VAULT_SEED, as_array multisig, [vault_index]] client_program_id"

definition buffer_address :: "finder \<Rightarrow> address \<Rightarrow> address \<Rightarrow> u8 \<Rightarrow> address \<times> u8" where
  "buffer_address derive multisig creator buffer_index =
     derive [BUFFER_SEED, as_array multisig, as_array creator, [buffer_index]] client_program_id"

definition ephemeral_address :: "finder \<Rightarrow> address \<Rightarrow> u8 \<Rightarrow> address \<times> u8" where
  "ephemeral_address derive transaction index =
     derive [EPHEMERAL_SEED, as_array transaction, [index]] client_program_id"

section \<open>Messages\<close>

record message_instruction =
  mi_program_id_index :: u8
  mi_account_indexes :: bytes
  mi_data :: bytes

record client_lookup =
  cl_account_key :: address
  cl_writable_indexes :: bytes
  cl_readonly_indexes :: bytes

record client_message =
  cm_num_signers :: u8
  cm_num_writable_signers :: u8
  cm_num_writable_non_signers :: u8
  cm_account_keys :: "address list"
  cm_instructions :: "message_instruction list"
  cm_lookups :: "client_lookup list"

text \<open>\<open>Message::encode\<close>: three loops that append to \<open>blob\<close>; \<open>as u8\<close> and \<open>as u16\<close> truncate.\<close>

definition message_encode :: "client_message \<Rightarrow> bytes" where
  "message_encode m =
     (let blob = [cm_num_signers m, cm_num_writable_signers m, cm_num_writable_non_signers m,
            of_nat (length (cm_account_keys m)), of_nat (length (cm_instructions m)),
            of_nat (length (cm_lookups m))];
          blob = foldl (\<lambda>blob key. blob @ as_array key) blob (cm_account_keys m);
          blob = foldl (\<lambda>blob ix.
            let blob = blob @ [mi_program_id_index ix];
                blob = blob @ [of_nat (length (mi_account_indexes ix))];
                blob = blob @ mi_account_indexes ix;
                blob = blob @ to_le_bytes 2 (of_nat (length (mi_data ix)) :: u16)
            in blob @ mi_data ix) blob (cm_instructions m);
          blob = foldl (\<lambda>blob l.
            let blob = blob @ as_array (cl_account_key l);
                blob = blob @ [of_nat (length (cl_writable_indexes l))];
                blob = blob @ cl_writable_indexes l;
                blob = blob @ [of_nat (length (cl_readonly_indexes l))]
            in blob @ cl_readonly_indexes l) blob (cm_lookups m)
      in blob)"

text \<open>\<open>Message::is_writable\<close>, for static keys.\<close>

definition client_is_writable :: "client_message \<Rightarrow> nat \<Rightarrow> bool" where
  "client_is_writable m index =
     (let signers = unat (cm_num_signers m) in
      if index < unat (cm_num_writable_signers m) then True
      else if index < signers then False
      else index - signers < unat (cm_num_writable_non_signers m))"

text \<open>\<open>AccountMeta\<close> and its constructors, and \<open>Instruction\<close>.\<close>

record account_meta =
  am_pubkey :: address
  am_is_signer :: bool
  am_is_writable :: bool

abbreviation meta_new :: "address \<Rightarrow> bool \<Rightarrow> account_meta" where
  "meta_new k sg \<equiv> \<lparr>am_pubkey = k, am_is_signer = sg, am_is_writable = True\<rparr>"

abbreviation meta_readonly :: "address \<Rightarrow> bool \<Rightarrow> account_meta" where
  "meta_readonly k sg \<equiv> \<lparr>am_pubkey = k, am_is_signer = sg, am_is_writable = False\<rparr>"

record client_instruction =
  instr_program_id :: address
  instr_data :: bytes
  instr_accounts :: "account_meta list"

definition execute_accounts :: "client_message \<Rightarrow> address list \<Rightarrow> account_meta list" where
  "execute_accounts m resolved =
     (let metas = map (\<lambda>(i, k). if client_is_writable m i then meta_new k False else meta_readonly k False)
            (enumerate 0 (cm_account_keys m));
          writable_from_lookups = sum_list (map (\<lambda>l. length (cl_writable_indexes l)) (cm_lookups m));
          metas = metas @ map (\<lambda>(i, k). if i < writable_from_lookups then meta_new k False
            else meta_readonly k False) (enumerate 0 resolved)
      in metas @ map (\<lambda>l. meta_readonly (cl_account_key l) False) (cm_lookups m))"

definition transfer_message :: "address \<Rightarrow> address \<Rightarrow> u64 \<Rightarrow> client_message" where
  "transfer_message vault destination lam =
     (let d = to_le_bytes 4 (2 :: u32); d = d @ to_le_bytes 8 lam in
      \<lparr>cm_num_signers = 1, cm_num_writable_signers = 1, cm_num_writable_non_signers = 1,
       cm_account_keys = [vault, destination, SYSTEM_PROGRAM],
       cm_instructions = [\<lparr>mi_program_id_index = 2, mi_account_indexes = [0, 1], mi_data = d\<rparr>],
       cm_lookups = []\<rparr>)"

definition config_action_message :: "u8 \<Rightarrow> bytes \<Rightarrow> client_message" where
  "config_action_message action payload =
     \<lparr>cm_num_signers = 0, cm_num_writable_signers = 0, cm_num_writable_non_signers = 0,
      cm_account_keys = [client_program_id, SYSTEM_PROGRAM],
      cm_instructions = [\<lparr>mi_program_id_index = 0, mi_account_indexes = [], mi_data = [action] @ payload\<rparr>],
      cm_lookups = []\<rparr>"

section \<open>Builders\<close>

definition init_multisig_controlled ::
  "finder \<Rightarrow> address \<Rightarrow> address \<Rightarrow> address list \<Rightarrow> u32 \<Rightarrow> address \<Rightarrow> client_instruction" where
  "init_multisig_controlled derive creator create_key owners threshold config_authority =
     (let (multisig, bump) = multisig_address derive create_key;
          d = [tag_INIT_MULTISIG];
          d = d @ to_le_bytes 4 threshold;
          d = d @ to_le_bytes 4 (of_nat (length owners) :: u32);
          d = d @ [bump];
          d = d @ replicate 3 0;
          d = d @ as_array config_authority;
          d = foldl (\<lambda>d owner. d @ as_array owner) d (take MAX_OWNER owners) in
      \<lparr>instr_program_id = client_program_id, instr_data = d,
       instr_accounts = [meta_new creator True, meta_readonly create_key True,
         meta_new multisig False, meta_readonly SYSTEM_PROGRAM False]\<rparr>)"

definition init_multisig ::
  "finder \<Rightarrow> address \<Rightarrow> address \<Rightarrow> address list \<Rightarrow> u32 \<Rightarrow> client_instruction" where
  "init_multisig derive creator create_key owners threshold =
     init_multisig_controlled derive creator create_key owners threshold default_address"

definition create_transaction ::
  "finder \<Rightarrow> address \<Rightarrow> address \<Rightarrow> u64 \<Rightarrow> client_message \<Rightarrow> u8 \<Rightarrow> bytes \<Rightarrow> client_instruction result" where
  "create_transaction derive creator multisig index message vault_index ephemeral =
     (let (transaction, bump) = transaction_address derive multisig index;
          (_, vault_bump) = vault_address derive multisig vault_index;
          d = [tag_CREATE_TRANSACTION, vault_index, vault_bump, bump, of_nat (length ephemeral)] in
      and_then (write_range 0 (length ephemeral) ephemeral (replicate MAX_EPHEMERAL_SIGNERS 0)) (\<lambda>bumps.
      let d = d @ bumps;
          d = d @ message_encode message in
      Inr \<lparr>instr_program_id = client_program_id, instr_data = d,
        instr_accounts = [meta_new creator True, meta_new multisig False, meta_new transaction False,
          meta_readonly SYSTEM_PROGRAM False]\<rparr>))"

definition vote :: "u8 \<Rightarrow> address \<Rightarrow> address \<Rightarrow> address \<Rightarrow> client_instruction" where
  "vote tag signer multisig transaction =
     \<lparr>instr_program_id = client_program_id, instr_data = [tag],
      instr_accounts = [meta_readonly signer True, meta_new multisig False, meta_new transaction False]\<rparr>"

definition approve :: "address \<Rightarrow> address \<Rightarrow> address \<Rightarrow> client_instruction" where
  "approve owner multisig transaction = vote tag_APPROVE owner multisig transaction"

definition reject :: "address \<Rightarrow> address \<Rightarrow> address \<Rightarrow> client_instruction" where
  "reject owner multisig transaction = vote tag_REJECT owner multisig transaction"

definition cancel :: "address \<Rightarrow> address \<Rightarrow> address \<Rightarrow> client_instruction" where
  "cancel signer multisig transaction = vote tag_CANCEL signer multisig transaction"

definition execute ::
  "address \<Rightarrow> address \<Rightarrow> address \<Rightarrow> account_meta list \<Rightarrow> client_instruction" where
  "execute executor multisig transaction message_accounts =
     (let accounts = [meta_new executor True, meta_new multisig False, meta_new transaction False];
          accounts = accounts @ message_accounts in
      \<lparr>instr_program_id = client_program_id, instr_data = [tag_EXECUTE], instr_accounts = accounts\<rparr>)"

definition close_transaction :: "address \<Rightarrow> address \<Rightarrow> address \<Rightarrow> client_instruction" where
  "close_transaction transaction multisig destination =
     \<lparr>instr_program_id = client_program_id, instr_data = [tag_CLOSE_TRANSACTION],
      instr_accounts = [meta_new transaction False, meta_new multisig False, meta_new destination False]\<rparr>"

definition buffer_create ::
  "finder \<Rightarrow> address \<Rightarrow> address \<Rightarrow> u8 \<Rightarrow> u8 \<Rightarrow> address \<Rightarrow> u32 \<Rightarrow> bytes \<Rightarrow> client_instruction" where
  "buffer_create derive creator multisig buffer_index vault_index final_hash final_size chunk =
     (let (buffer, bump) = buffer_address derive multisig creator buffer_index;
          d = [tag_BUFFER_CREATE];
          d = d @ as_array final_hash;
          d = d @ to_le_bytes 4 final_size;
          d = d @ [buffer_index];
          d = d @ [vault_index];
          d = d @ [bump];
          d = d @ [0];
          d = d @ chunk in
      \<lparr>instr_program_id = client_program_id, instr_data = d,
       instr_accounts = [meta_new creator True, meta_readonly multisig False, meta_new buffer False,
         meta_readonly SYSTEM_PROGRAM False]\<rparr>)"

definition buffer_extend :: "address \<Rightarrow> address \<Rightarrow> bytes \<Rightarrow> client_instruction" where
  "buffer_extend creator buffer chunk =
     \<lparr>instr_program_id = client_program_id, instr_data = [tag_BUFFER_EXTEND] @ chunk,
      instr_accounts = [meta_readonly creator True, meta_new buffer False]\<rparr>"

definition buffer_close :: "address \<Rightarrow> address \<Rightarrow> client_instruction" where
  "buffer_close creator buffer =
     \<lparr>instr_program_id = client_program_id, instr_data = [tag_BUFFER_CLOSE],
      instr_accounts = [meta_new creator True, meta_new buffer False]\<rparr>"

definition create_from_buffer ::
  "finder \<Rightarrow> address \<Rightarrow> address \<Rightarrow> u64 \<Rightarrow> address \<Rightarrow> u8 \<Rightarrow> bytes \<Rightarrow> client_instruction result" where
  "create_from_buffer derive creator multisig index buffer vault_index ephemeral =
     (let (transaction, bump) = transaction_address derive multisig index;
          (_, vault_bump) = vault_address derive multisig vault_index;
          d = [tag_CREATE_FROM_BUFFER, bump, vault_bump, of_nat (length ephemeral)] in
      and_then (write_range 0 (length ephemeral) ephemeral (replicate MAX_EPHEMERAL_SIGNERS 0)) (\<lambda>bumps.
      let d = d @ bumps in
      Inr \<lparr>instr_program_id = client_program_id, instr_data = d,
        instr_accounts = [meta_new creator True, meta_new multisig False, meta_new transaction False,
          meta_new buffer False, meta_readonly SYSTEM_PROGRAM False]\<rparr>))"

definition set_config :: "address \<Rightarrow> address \<Rightarrow> u8 \<Rightarrow> bytes \<Rightarrow> client_instruction" where
  "set_config authority multisig action payload =
     \<lparr>instr_program_id = client_program_id, instr_data = [tag_SET_CONFIG, action] @ payload,
      instr_accounts = [meta_new authority True, meta_new multisig False,
        meta_readonly SYSTEM_PROGRAM False]\<rparr>"

section \<open>The message\<close>

definition header_of :: "client_message \<Rightarrow> message_header" where
  "header_of m =
     \<lparr>num_signers = cm_num_signers m, num_writable_signers = cm_num_writable_signers m,
      num_writable_non_signers = cm_num_writable_non_signers m,
      num_account_keys = of_nat (length (cm_account_keys m)),
      num_instructions = of_nat (length (cm_instructions m)),
      num_lookups = of_nat (length (cm_lookups m))\<rparr>"

definition instructions_of :: "client_message \<Rightarrow> compiled_instruction list" where
  "instructions_of m = map (\<lambda>ix. \<lparr>ci_program_id_index = mi_program_id_index ix,
     ci_account_indexes = mi_account_indexes ix, ci_data = mi_data ix\<rparr>) (cm_instructions m)"

definition lookups_of :: "client_message \<Rightarrow> message_lookup list" where
  "lookups_of m = map (\<lambda>l. \<lparr>ml_account_key = cl_account_key l,
     ml_writable_indexes = cl_writable_indexes l, ml_readonly_indexes = cl_readonly_indexes l\<rparr>) (cm_lookups m)"

text \<open>Every length fits the integer that carries it: \<open>encode\<close> truncates nothing.\<close>

definition message_fits :: "client_message \<Rightarrow> bool" where
  "message_fits m \<longleftrightarrow>
     length (cm_account_keys m) < 256 \<and> length (cm_instructions m) < 256 \<and> length (cm_lookups m) < 256 \<and>
     list_all instruction_fits (instructions_of m) \<and> list_all lookup_fits (lookups_of m)"

text \<open>The privilege groups fit the keys, and every index names a key.\<close>

definition message_valid :: "client_message \<Rightarrow> bool" where
  "message_valid m \<longleftrightarrow>
     (let keys = length (cm_account_keys m); all_keys = keys + lookup_keys (lookups_of m) in
      unat (cm_num_signers m) \<le> keys \<and> cm_num_writable_signers m \<le> cm_num_signers m \<and>
      unat (cm_num_writable_non_signers m) \<le> keys - unat (cm_num_signers m) \<and>
      (\<forall>ix \<in> set (cm_instructions m). unat (mi_program_id_index ix) < all_keys \<and>
         (\<forall>i \<in> set (mi_account_indexes ix). unat i < all_keys)))"

definition parsed_message :: "client_message \<Rightarrow> transaction_message" where
  "parsed_message m = message_of (header_of m) (cm_account_keys m) (instructions_of m) (lookups_of m)"

lemma foldl_append: "foldl (\<lambda>b x. b @ f x) b xs = b @ encode_array f xs"
  by (induction xs arbitrary: b) simp_all

lemma encode_array_map: "encode_array f (map g xs) = encode_array (\<lambda>x. f (g x)) xs"
  by (simp add: encode_array_def comp_def)

lemma message_encode_eq:
  "message_encode m = encode_message (header_of m) (cm_account_keys m) (instructions_of m) (lookups_of m)"
  by (simp add: message_encode_def encode_message_def header_of_def instructions_of_def lookups_of_def
      encode_array_map encode_instruction_def encode_lookup_def encode_header_def Let_def foldl_append
      append_assoc [symmetric] del: append_assoc)
     (simp add: foldl_append)

lemma message_ok_client:
  "message_fits m \<Longrightarrow>
   message_ok (header_of m) (cm_account_keys m) (instructions_of m) (lookups_of m) \<longleftrightarrow> message_valid m"
  by (simp add: message_fits_def message_ok_def message_valid_def header_of_def Let_def)
     (simp add: instructions_of_def lookups_of_def)

text \<open>Two messages whose lengths fit have the same bytes only when they have the same parts.\<close>

lemma encode_message_unique:
  assumes eq: "encode_message h keys ixs lks = encode_message h' keys' ixs' lks'"
    and counts: "length keys = unat (num_account_keys h)" "length ixs = unat (num_instructions h)"
      "length lks = unat (num_lookups h)"
    and counts': "length keys' = unat (num_account_keys h')" "length ixs' = unat (num_instructions h')"
      "length lks' = unat (num_lookups h')"
    and fits: "list_all instruction_fits ixs" "list_all lookup_fits lks"
      "list_all instruction_fits ixs'" "list_all lookup_fits lks'"
  shows "h = h' \<and> keys = keys' \<and> ixs = ixs' \<and> lks = lks'"
proof -
  have h: "h = h'"
    using eq by (cases h; cases h') (simp add: encode_message_def encode_header_def)
  have "length (encode_array as_array keys) = length (encode_array as_array keys')"
    using counts(1) counts'(1) h by (simp add: addr.length_encode_array)
  with eq h have k: "encode_array as_array keys = encode_array as_array keys'"
    and r: "encode_array encode_instruction ixs @ encode_array encode_lookup lks
      = encode_array encode_instruction ixs' @ encode_array encode_lookup lks'"
    by (simp_all add: encode_message_def)
  have "keys = keys'"
    using addr.decode_encode_array [of keys "length keys" "[]"] addr.decode_encode_array [of keys' "length keys'" "[]"]
      k counts(1) counts'(1) h by simp
  moreover have "ixs = ixs'" and l: "encode_array encode_lookup lks = encode_array encode_lookup lks'"
    using ixs.encode_many_unique [OF fits(1,3) _ r] counts(2) counts'(2) h by simp_all
  moreover have "lks = lks'"
    using lks.encode_many_unique [OF fits(2,4), of "[]" "[]"] l counts(3) counts'(3) h by simp
  ultimately show ?thesis using h by simp
qed

lemma parse_message_encode:
  assumes "message_fits m"
  shows "parse (message_encode m) = Inr t \<longleftrightarrow> message_valid m \<and> t = parsed_message m"
proof
  assume "parse (message_encode m) = Inr t"
  then obtain h keys ixs lks where e: "message_encode m = encode_message h keys ixs lks"
    and ok: "message_ok h keys ixs lks" and t: "t = message_of h keys ixs lks"
    by (rule parse_decode)
  have "header_of m = h \<and> cm_account_keys m = keys \<and> instructions_of m = ixs \<and> lookups_of m = lks"
  proof (rule encode_message_unique)
    show "encode_message (header_of m) (cm_account_keys m) (instructions_of m) (lookups_of m)
        = encode_message h keys ixs lks"
      using e by (simp add: message_encode_eq)
    show "length (cm_account_keys m) = unat (num_account_keys (header_of m))"
      "length (instructions_of m) = unat (num_instructions (header_of m))"
      "length (lookups_of m) = unat (num_lookups (header_of m))"
      "list_all instruction_fits (instructions_of m)" "list_all lookup_fits (lookups_of m)"
      using assms by (simp_all add: message_fits_def header_of_def) (simp_all add: instructions_of_def lookups_of_def)
    show "length keys = unat (num_account_keys h)" "length ixs = unat (num_instructions h)"
      "length lks = unat (num_lookups h)" "list_all instruction_fits ixs" "list_all lookup_fits lks"
      using ok by (simp_all add: message_ok_def)
  qed
  with ok t show "message_valid m \<and> t = parsed_message m"
    using message_ok_client [OF assms] by (auto simp: parsed_message_def)
next
  assume "message_valid m \<and> t = parsed_message m"
  then show "parse (message_encode m) = Inr t"
    using message_ok_client [OF assms] parse_encode unfolding parsed_message_def message_encode_eq by blast
qed

lemma client_writable_agrees:
  assumes "message_fits m" "i < length (cm_account_keys m)"
  shows "client_is_writable m i = message_is_writable (parsed_message m) i"
  using assms by (simp add: client_is_writable_def message_is_writable_def parsed_message_def message_of_def
      header_of_def message_fits_def Let_def)

text \<open>C23: for a message whose lengths fit their counts, the program parses the bytes the client writes exactly
  when the message's privilege groups fit its keys and its indexes name keys; it then reads back the
  message that was written, and gives every static key the privilege the client's own computation gave
  it.\<close>

theorem client_message_accepted:
  assumes "message_fits m"
  shows "(parse (message_encode m) = Inr t \<longleftrightarrow> message_valid m \<and> t = parsed_message m) \<and>
     (parse (message_encode m) = Inr t \<longrightarrow> i < length (cm_account_keys m) \<longrightarrow>
        client_is_writable m i = message_is_writable t i)"
  using parse_message_encode [OF assms] client_writable_agrees [OF assms] by simp

section \<open>The accounts of an execution\<close>

lemma execute_accounts_keys:
  "map am_pubkey (execute_accounts m resolved)
     = cm_account_keys m @ resolved @ map cl_account_key (cm_lookups m)"
  by (rule nth_equalityI) (auto simp: execute_accounts_def Let_def nth_append nth_enumerate_eq)

lemma execute_accounts_nth:
  "i < length (cm_account_keys m) \<Longrightarrow> execute_accounts m resolved ! i =
     \<lparr>am_pubkey = cm_account_keys m ! i, am_is_signer = False, am_is_writable = client_is_writable m i\<rparr>"
  "j < length resolved \<Longrightarrow> execute_accounts m resolved ! (length (cm_account_keys m) + j) =
     \<lparr>am_pubkey = resolved ! j, am_is_signer = False, am_is_writable = j < writable_lookup_keys (lookups_of m)\<rparr>"
  by (simp_all add: execute_accounts_def Let_def nth_append nth_enumerate_eq writable_lookup_keys_def
      lookups_of_def comp_def)

definition views_of :: "account_meta list \<Rightarrow> view list" where
  "views_of metas = map (\<lambda>a. \<lparr>v_address = am_pubkey a, v_signer = am_is_signer a,
     v_writable = am_is_writable a\<rparr>) metas"

lemma views_of_simps [simp]:
  "views_of [] = []"
  "views_of (a # as) = \<lparr>v_address = am_pubkey a, v_signer = am_is_signer a, v_writable = am_is_writable a\<rparr>
     # views_of as"
  "views_of (as @ bs) = views_of as @ views_of bs"
  "length (views_of as) = length as"
  "map v_address (views_of as) = map am_pubkey as"
  by (simp_all add: views_of_def)

lemma client_accounts_pass:
  assumes fits: "message_fits m" and valid: "message_valid m"
    and resolved: "length resolved = lookup_keys (lookups_of m)"
  shows "check_accounts s (views_of (execute_accounts m resolved)) (parsed_message m) = Inr () \<longleftrightarrow>
       (\<forall>l \<in> set (lookups_of m). table_serves s l) \<and>
       cm_account_keys m @ resolved = approved_keys s (cm_account_keys m) (lookups_of m)"
    and "i < tm_num_all_keys (parsed_message m) \<Longrightarrow>
        v_writable (views_of (execute_accounts m resolved) ! i) = message_is_writable (parsed_message m) i"
proof -
  let ?n = "length (cm_account_keys m)" and ?lks = "lookups_of m"
  let ?vs = "views_of (execute_accounts m resolved)"
  have ok: "message_ok (header_of m) (cm_account_keys m) (instructions_of m) ?lks"
    using message_ok_client [OF fits] valid by simp
  have addr: "map v_address ?vs = cm_account_keys m @ resolved @ map cl_account_key (cm_lookups m)"
    by (simp add: execute_accounts_keys)
  have len: "length ?vs = ?n + lookup_keys ?lks + length ?lks"
    using arg_cong [OF addr, of length] resolved by (simp add: lookups_of_def)
  have "map v_address (take (?n + lookup_keys ?lks) ?vs) = cm_account_keys m @ resolved"
    using resolved unfolding take_map [symmetric] addr by simp
  moreover have "map v_address (slice (?n + lookup_keys ?lks) (length ?lks) ?vs) = map ml_account_key ?lks"
    using resolved unfolding slice_def take_map [symmetric] drop_map [symmetric] addr
    by (simp add: lookups_of_def comp_def)
  ultimately show "check_accounts s ?vs (parsed_message m) = Inr () \<longleftrightarrow>
       (\<forall>l \<in> set ?lks. table_serves s l) \<and>
       cm_account_keys m @ resolved = approved_keys s (cm_account_keys m) ?lks"
    unfolding parsed_message_def check_accounts_iff [OF ok] using len by auto
  show "v_writable (?vs ! i) = message_is_writable (parsed_message m) i"
    if "i < tm_num_all_keys (parsed_message m)"
  proof (cases "i < ?n")
    case True
    then have "v_writable (?vs ! i) = client_is_writable m i"
      using len by (simp add: views_of_def execute_accounts_nth)
    then show ?thesis using client_writable_agrees [OF fits True] by simp
  next
    case False
    then obtain j where j: "i = ?n + j" by (metis le_Suc_ex not_less)
    with that have "j < length resolved" by (simp add: parsed_message_def message_of_def resolved)
    then have "v_writable (?vs ! i) = (j < writable_lookup_keys ?lks)"
      using len resolved by (simp add: views_of_def execute_accounts_nth j)
    then show ?thesis
      using fits by (simp add: message_is_writable_def parsed_message_def message_of_def header_of_def
          message_fits_def Let_def j)
  qed
qed

text \<open>C24: take a valid message and as many resolved addresses as its lookups name. The accounts the client lists for its execution
  pass the program's checks exactly when the message's
  lookup tables are live tables of the lookup table program with an entry at every index used, and the
  resolved addresses given to the client are those entries, the writable ones of all tables first; and
  each account is passed writable exactly when the message asks for it.\<close>

theorem client_execute_accounts_accepted:
  assumes fits: "message_fits m" and valid: "message_valid m"
    and resolved: "length resolved = lookup_keys (lookups_of m)"
  shows "(check_accounts s (views_of (execute_accounts m resolved)) (parsed_message m) = Inr () \<longleftrightarrow>
       (\<forall>l \<in> set (lookups_of m). table_serves s l) \<and>
       cm_account_keys m @ resolved = approved_keys s (cm_account_keys m) (lookups_of m)) \<and>
     (i < tm_num_all_keys (parsed_message m) \<longrightarrow>
        v_writable (views_of (execute_accounts m resolved) ! i) = message_is_writable (parsed_message m) i)"
  using client_accounts_pass [OF assms] by blast

section \<open>What the handlers receive\<close>

text \<open>An instruction as the runtime passes it to the program: the accounts in the order listed, with the
  privileges listed.\<close>

definition submit :: "runtime \<Rightarrow> client_instruction \<Rightarrow> store \<Rightarrow> store result" where
  "submit rt ix s =
     process_instruction rt (instr_program_id ix) (views_of (instr_accounts ix)) (instr_data ix) s"

abbreviation signing :: "address \<Rightarrow> bool \<Rightarrow> view" where
  "signing a writable \<equiv> \<lparr>v_address = a, v_signer = True, v_writable = writable\<rparr>"

abbreviation passed :: "address \<Rightarrow> bool \<Rightarrow> view" where
  "passed a writable \<equiv> \<lparr>v_address = a, v_signer = False, v_writable = writable\<rparr>"

lemmas builder_defs =
  init_multisig_controlled_def create_transaction_def vote_def approve_def reject_def cancel_def
  execute_def close_transaction_def buffer_create_def buffer_extend_def buffer_close_def
  create_from_buffer_def set_config_def

text \<open>The builders that carry no header reach their handlers: the instruction an owner's client builds
  to vote, execute, close, extend or abandon a buffer or change the configuration is, when the program
  is called with it, that handler run on those accounts, with the signer signing, and on that payload.\<close>

lemma client_reaches_handlers:
  "submit rt (approve owner ms tx) s
     = process_approve rt ID [signing owner False, passed ms True, passed tx True] [] s \<and>
   submit rt (reject owner ms tx) s
     = process_reject ID [signing owner False, passed ms True, passed tx True] [] s \<and>
   submit rt (cancel owner ms tx) s
     = process_cancel ID [signing owner False, passed ms True, passed tx True] [] s \<and>
   submit rt (execute owner ms tx metas) s
     = process_execute rt ID ([signing owner True, passed ms True, passed tx True] @ views_of metas) [] s \<and>
   submit rt (close_transaction tx ms destination) s
     = process_close_transaction rt ID [passed tx True, passed ms True, passed destination True] [] s \<and>
   submit rt (buffer_extend owner buf chunk) s
     = process_buffer_extend rt ID [signing owner False, passed buf True] chunk s \<and>
   submit rt (buffer_close owner buf) s
     = process_buffer_close rt ID [signing owner True, passed buf True] [] s \<and>
   submit rt (set_config owner ms action payload) s
     = process_set_config rt ID [signing owner True, passed ms True, passed system_program False]
         (action # payload) s"
  by (simp add: submit_def process_instruction_def builder_defs tag_defs client_constants)

definition init_payload :: "u32 \<Rightarrow> u32 \<Rightarrow> u8 \<Rightarrow> address \<Rightarrow> bytes \<Rightarrow> bytes" where
  "init_payload threshold n bump authority owner_bytes =
     to_le_bytes 4 threshold @ to_le_bytes 4 n @ [bump] @ replicate 3 0 @ as_array authority @ owner_bytes"

lemma slice_mid: "length xs = i \<Longrightarrow> length ys = n \<Longrightarrow> slice i n (xs @ ys @ zs) = ys"
  by simp

lemma init_payload_read:
  "init_multisig_data_of (init_payload threshold n bump authority os) =
     \<lparr>in_threshold = threshold, in_owners_count = n, in_bump = bump, in_pad = [0, 0, 0],
      in_config_authority = authority\<rparr>"
  "drop INIT_LEN (init_payload threshold n bump authority os) = os"
  "length (init_payload threshold n bump authority os) = INIT_LEN + length os"
proof -
  let ?p = "init_payload threshold n bump authority os"
  have "slice 0 4 ?p = to_le_bytes 4 threshold" "?p ! 8 = bump"
    by (simp_all add: init_payload_def nth_append)
  moreover have "slice 4 4 ?p = to_le_bytes 4 n" unfolding init_payload_def by (rule slice_mid) simp_all
  moreover have "?p = (to_le_bytes 4 threshold @ to_le_bytes 4 n @ [bump]) @ [0, 0, 0] @ as_array authority @ os"
    by (simp add: init_payload_def numeral_3_eq_3)
  then have "slice 9 3 ?p = [0, 0, 0]" by (simp only:) (rule slice_mid, simp_all)
  moreover have "?p = (to_le_bytes 4 threshold @ to_le_bytes 4 n @ [bump] @ [0, 0, 0]) @ as_array authority @ os"
    by (simp add: init_payload_def numeral_3_eq_3)
  then have "slice 12 32 ?p = as_array authority" by (simp only:) (rule slice_mid, simp_all)
  ultimately show "init_multisig_data_of ?p =
     \<lparr>in_threshold = threshold, in_owners_count = n, in_bump = bump, in_pad = [0, 0, 0],
      in_config_authority = authority\<rparr>"
    by (simp add: init_multisig_data_of_def from_to_le_bytes)
  show "drop INIT_LEN ?p = os" "length ?p = INIT_LEN + length os"
    by (simp_all add: init_payload_def INIT_LEN_def)
qed

definition create_payload :: "u8 \<Rightarrow> u8 \<Rightarrow> u8 \<Rightarrow> bytes \<Rightarrow> bytes \<Rightarrow> bytes" where
  "create_payload vault_index vault_bump bump ephemeral message =
     [vault_index, vault_bump, bump, of_nat (length ephemeral)] @
     ephemeral @ replicate (MAX_EPHEMERAL_SIGNERS - length ephemeral) 0 @ message"

lemma create_payload_read:
  assumes "length ephemeral \<le> MAX_EPHEMERAL_SIGNERS"
  shows "create_transaction_header_of (create_payload vi vb bump ephemeral msg) =
     \<lparr>ct_vault_index = vi, ct_vault_bump = vb, ct_bump = bump,
      ct_ephemeral_count = of_nat (length ephemeral),
      ct_ephemeral_bumps = bumps_of (ephemeral @ replicate (MAX_EPHEMERAL_SIGNERS - length ephemeral) 0)\<rparr>"
    and "drop CREATE_LEN (create_payload vi vb bump ephemeral msg) = msg"
    and "length (create_payload vi vb bump ephemeral msg) = CREATE_LEN + length msg"
proof -
  let ?e = "ephemeral @ replicate (MAX_EPHEMERAL_SIGNERS - length ephemeral) 0"
  have l: "length ?e = 4" using assms by (simp add: MAX_EPHEMERAL_SIGNERS_def)
  have p: "create_payload vi vb bump ephemeral msg
      = [vi, vb, bump, of_nat (length ephemeral)] @ ?e @ msg" by (simp add: create_payload_def)
  have "slice 4 4 (create_payload vi vb bump ephemeral msg) = ?e"
    unfolding p by (rule slice_mid) (use l in simp_all)
  then show "create_transaction_header_of (create_payload vi vb bump ephemeral msg) =
     \<lparr>ct_vault_index = vi, ct_vault_bump = vb, ct_bump = bump,
      ct_ephemeral_count = of_nat (length ephemeral),
      ct_ephemeral_bumps = bumps_of (ephemeral @ replicate (MAX_EPHEMERAL_SIGNERS - length ephemeral) 0)\<rparr>"
    by (simp add: create_transaction_header_of_def) (simp add: p)
  show "drop CREATE_LEN (create_payload vi vb bump ephemeral msg) = msg"
    "length (create_payload vi vb bump ephemeral msg) = CREATE_LEN + length msg"
    using l unfolding p by (simp_all add: CREATE_LEN_def)
qed

definition buffer_payload :: "address \<Rightarrow> u32 \<Rightarrow> u8 \<Rightarrow> u8 \<Rightarrow> u8 \<Rightarrow> bytes \<Rightarrow> bytes" where
  "buffer_payload final_hash final_size buffer_index vault_index bump chunk =
     as_array final_hash @ to_le_bytes 4 final_size @ [buffer_index, vault_index, bump, 0] @ chunk"

lemma buffer_payload_read:
  "buffer_create_data_of (buffer_payload fh fs bi vi bump chunk) =
     \<lparr>bc_final_hash = fh, bc_final_size = fs, bc_buffer_index = bi, bc_vault_index = vi, bc_bump = bump,
      bc_pad = 0\<rparr>"
  "drop BUFFER_CREATE_LEN (buffer_payload fh fs bi vi bump chunk) = chunk"
  "length (buffer_payload fh fs bi vi bump chunk) = BUFFER_CREATE_LEN + length chunk"
proof -
  let ?p = "buffer_payload fh fs bi vi bump chunk"
  have "slice 0 32 ?p = as_array fh" by (simp add: buffer_payload_def)
  moreover have "slice 32 4 ?p = to_le_bytes 4 fs" unfolding buffer_payload_def by (rule slice_mid) simp_all
  ultimately show "buffer_create_data_of ?p =
     \<lparr>bc_final_hash = fh, bc_final_size = fs, bc_buffer_index = bi, bc_vault_index = vi, bc_bump = bump,
      bc_pad = 0\<rparr>"
    by (simp add: buffer_create_data_of_def from_to_le_bytes) (simp add: buffer_payload_def nth_append)
  show "drop BUFFER_CREATE_LEN ?p = chunk" "length ?p = BUFFER_CREATE_LEN + length chunk"
    by (simp_all add: buffer_payload_def BUFFER_CREATE_LEN_def)
qed

definition from_buffer_payload :: "u8 \<Rightarrow> u8 \<Rightarrow> bytes \<Rightarrow> bytes" where
  "from_buffer_payload bump vault_bump ephemeral =
     [bump, vault_bump, of_nat (length ephemeral)] @
     ephemeral @ replicate (MAX_EPHEMERAL_SIGNERS - length ephemeral) 0"

lemma from_buffer_payload_read:
  assumes "length ephemeral \<le> MAX_EPHEMERAL_SIGNERS"
  shows "create_from_buffer_data_of (from_buffer_payload bump vb ephemeral) =
     \<lparr>cb_bump = bump, cb_vault_bump = vb, cb_ephemeral_count = of_nat (length ephemeral),
      cb_ephemeral_bumps = bumps_of (ephemeral @ replicate (MAX_EPHEMERAL_SIGNERS - length ephemeral) 0)\<rparr>"
    and "length (from_buffer_payload bump vb ephemeral) = FROM_BUFFER_LEN"
proof -
  let ?e = "ephemeral @ replicate (MAX_EPHEMERAL_SIGNERS - length ephemeral) 0"
  have l: "length ?e = 4" using assms by (simp add: MAX_EPHEMERAL_SIGNERS_def)
  have p: "from_buffer_payload bump vb ephemeral = [bump, vb, of_nat (length ephemeral)] @ ?e @ []"
    by (simp add: from_buffer_payload_def)
  have "slice 3 4 (from_buffer_payload bump vb ephemeral) = ?e"
    unfolding p by (rule slice_mid) (use l in simp_all)
  then show "create_from_buffer_data_of (from_buffer_payload bump vb ephemeral) =
     \<lparr>cb_bump = bump, cb_vault_bump = vb, cb_ephemeral_count = of_nat (length ephemeral),
      cb_ephemeral_bumps = bumps_of (ephemeral @ replicate (MAX_EPHEMERAL_SIGNERS - length ephemeral) 0)\<rparr>"
    by (simp add: create_from_buffer_data_of_def) (simp add: p)
  show "length (from_buffer_payload bump vb ephemeral) = FROM_BUFFER_LEN"
    using l unfolding p by (simp add: FROM_BUFFER_LEN_def)
qed

lemma padded_bumps:
  "write_range 0 (length ephemeral) ephemeral (replicate MAX_EPHEMERAL_SIGNERS 0) =
     (if length ephemeral \<le> MAX_EPHEMERAL_SIGNERS
      then Inr (ephemeral @ replicate (MAX_EPHEMERAL_SIGNERS - length ephemeral) 0) else Inl Panicked)"
  by (simp add: write_range_def)

lemma init_multisig_submit:
  "submit rt (init_multisig_controlled derive creator create_key owners threshold authority) s
     = process_init_multisig rt ID
         [signing creator True, signing create_key False,
          passed (fst (multisig_address derive create_key)) True, passed system_program False]
         (init_payload threshold (of_nat (length owners)) (snd (multisig_address derive create_key)) authority
            (encode_array as_array (take MAX_OWNER owners))) s"
  by (simp add: submit_def init_multisig_controlled_def tag_defs client_constants foldl_append
      process_instruction_def init_payload_def split: prod.split)

lemma create_transaction_submit:
  assumes "length ephemeral \<le> MAX_EPHEMERAL_SIGNERS"
  obtains ix where
    "create_transaction derive creator multisig index message vault_index ephemeral = Inr ix"
    "submit rt ix s = process_create_transaction rt ID
       [signing creator True, passed multisig True,
        passed (fst (transaction_address derive multisig index)) True, passed system_program False]
       (create_payload vault_index (snd (vault_address derive multisig vault_index))
          (snd (transaction_address derive multisig index)) ephemeral (message_encode message)) s"
  using assms
  by (cases "transaction_address derive multisig index"; cases "vault_address derive multisig vault_index")
     (simp add: submit_def create_transaction_def tag_defs client_constants process_instruction_def
        create_payload_def padded_bumps)

lemma create_from_buffer_submit:
  assumes "length ephemeral \<le> MAX_EPHEMERAL_SIGNERS"
  obtains ix where
    "create_from_buffer derive creator multisig index buf vault_index ephemeral = Inr ix"
    "submit rt ix s = process_create_from_buffer rt ID
       [signing creator True, passed multisig True,
        passed (fst (transaction_address derive multisig index)) True, passed buf True,
        passed system_program False]
       (from_buffer_payload (snd (transaction_address derive multisig index))
          (snd (vault_address derive multisig vault_index)) ephemeral) s"
  using assms
  by (cases "transaction_address derive multisig index"; cases "vault_address derive multisig vault_index")
     (simp add: submit_def create_from_buffer_def tag_defs client_constants process_instruction_def
        from_buffer_payload_def padded_bumps)

lemma buffer_create_submit:
  "submit rt (buffer_create derive creator multisig buffer_index vault_index final_hash final_size chunk) s
     = process_buffer_create rt ID
         [signing creator True, passed multisig False,
          passed (fst (buffer_address derive multisig creator buffer_index)) True, passed system_program False]
         (buffer_payload final_hash final_size buffer_index vault_index
            (snd (buffer_address derive multisig creator buffer_index)) chunk) s"
  by (simp add: submit_def buffer_create_def tag_defs client_constants process_instruction_def
      buffer_payload_def split: prod.split)

text \<open>The builders that write a header: what the handler decodes from the payload is what the caller of
  the builder gave it, with the bumps the address search found, followed by exactly the owners, the
  message or the chunk. More than four ephemeral bumps panic in the client.\<close>

lemma client_headers_round_trip:
  "(\<exists>p. submit rt (init_multisig_controlled derive creator create_key owners threshold authority) s
      = process_init_multisig rt ID [signing creator True, signing create_key False,
          passed (fst (multisig_address derive create_key)) True, passed system_program False] p s \<and>
      init_multisig_data_of p = \<lparr>in_threshold = threshold, in_owners_count = of_nat (length owners),
        in_bump = snd (multisig_address derive create_key), in_pad = [0, 0, 0],
        in_config_authority = authority\<rparr> \<and>
      INIT_LEN \<le> length p \<and> drop INIT_LEN p = encode_array as_array (take MAX_OWNER owners)) \<and>
   (\<exists>p. submit rt (buffer_create derive creator ms bi vi final_hash final_size chunk) s
      = process_buffer_create rt ID [signing creator True, passed ms False,
          passed (fst (buffer_address derive ms creator bi)) True, passed system_program False] p s \<and>
      buffer_create_data_of p = \<lparr>bc_final_hash = final_hash, bc_final_size = final_size,
        bc_buffer_index = bi, bc_vault_index = vi, bc_bump = snd (buffer_address derive ms creator bi),
        bc_pad = 0\<rparr> \<and>
      BUFFER_CREATE_LEN \<le> length p \<and> drop BUFFER_CREATE_LEN p = chunk) \<and>
   (if length ephemeral \<le> MAX_EPHEMERAL_SIGNERS
    then (\<exists>ix p. create_transaction derive creator ms index message vi ephemeral = Inr ix \<and>
        submit rt ix s = process_create_transaction rt ID [signing creator True, passed ms True,
          passed (fst (transaction_address derive ms index)) True, passed system_program False] p s \<and>
        create_transaction_header_of p = \<lparr>ct_vault_index = vi, ct_vault_bump = snd (vault_address derive ms vi),
          ct_bump = snd (transaction_address derive ms index), ct_ephemeral_count = of_nat (length ephemeral),
          ct_ephemeral_bumps = bumps_of (ephemeral @ replicate (MAX_EPHEMERAL_SIGNERS - length ephemeral) 0)\<rparr> \<and>
        CREATE_LEN \<le> length p \<and> drop CREATE_LEN p = message_encode message) \<and>
      (\<exists>ix p. create_from_buffer derive creator ms index buf vi ephemeral = Inr ix \<and>
        submit rt ix s = process_create_from_buffer rt ID [signing creator True, passed ms True,
          passed (fst (transaction_address derive ms index)) True, passed buf True,
          passed system_program False] p s \<and>
        create_from_buffer_data_of p = \<lparr>cb_bump = snd (transaction_address derive ms index),
          cb_vault_bump = snd (vault_address derive ms vi), cb_ephemeral_count = of_nat (length ephemeral),
          cb_ephemeral_bumps = bumps_of (ephemeral @ replicate (MAX_EPHEMERAL_SIGNERS - length ephemeral) 0)\<rparr> \<and>
        length p = FROM_BUFFER_LEN)
    else create_transaction derive creator ms index message vi ephemeral = Inl Panicked \<and>
      create_from_buffer derive creator ms index buf vi ephemeral = Inl Panicked)"
proof (intro conjI, goal_cases)
  case 1
  show ?case by (rule exI, intro conjI, rule init_multisig_submit) (simp_all add: init_payload_read)
next
  case 2
  show ?case by (rule exI, intro conjI, rule buffer_create_submit) (simp_all add: buffer_payload_read)
next
  case 3
  show ?case
  proof (cases "length ephemeral \<le> MAX_EPHEMERAL_SIGNERS")
    case True
    show ?thesis
      unfolding if_P [OF True]
    proof (intro conjI, goal_cases)
      case 1
      show ?case
        by (rule create_transaction_submit [OF True], intro exI conjI, assumption, assumption)
           (simp_all add: create_payload_read [OF True])
    next
      case 2
      show ?case
        by (rule create_from_buffer_submit [OF True], intro exI conjI, assumption, assumption)
           (simp_all add: from_buffer_payload_read [OF True])
    qed
  next
    case False
    then show ?thesis
      by (simp add: create_transaction_def create_from_buffer_def padded_bumps split: prod.split)
  qed
qed

end
