(* ===== verification/Opening.thy ===== *)
theory Opening
  imports Client
begin

text \<open>
  The calls of an owner's client that open an account succeed: when rent, account creation and address derivation
  work as documented, an owner who can pay creates a proposal or an upload buffer, and what the store is
  afterwards is known exactly.
\<close>

section \<open>Accounts\<close>

text \<open>The store after an account was created and filled.\<close>

definition opened :: "address \<Rightarrow> address \<Rightarrow> address \<Rightarrow> u64 \<Rightarrow> bytes \<Rightarrow> store \<Rightarrow> store" where
  "opened pid payer new lam d s =
     s(payer := (s payer)\<lparr>lamports := lamports (s payer) - lam\<rparr>,
       new := (s new)\<lparr>lamports := lam, acc_data := d, acc_owner := pid\<rparr>)"

lemma opened_at [simp]:
  "lamports (opened pid payer new lam d s new) = lam" "acc_data (opened pid payer new lam d s new) = d"
  "acc_owner (opened pid payer new lam d s new) = pid" "data_ptr (opened pid payer new lam d s a) = data_ptr (s a)"
  "payer \<noteq> new \<Longrightarrow> lamports (opened pid payer new lam d s payer) = lamports (s payer) - lam"
  "a \<noteq> new \<Longrightarrow> acc_data (opened pid payer new lam d s a) = acc_data (s a)"
  "a \<noteq> new \<Longrightarrow> acc_owner (opened pid payer new lam d s a) = acc_owner (s a)"
  "a \<noteq> new \<Longrightarrow> a \<noteq> payer \<Longrightarrow> opened pid payer new lam d s a = s a"
  by (simp_all add: opened_def)

lemma set_opened: "set_data v d (opened pid payer (v_address v) lam d' s) = opened pid payer (v_address v) lam d s"
  by (intro ext) (auto simp: set_data_def opened_def intro: account.equality)

text \<open>Creating an account succeeds for a wallet that can pay, and does exactly this.\<close>

lemma account_opens:
  assumes spec: "create_account_spec pid rt" and live: "create_account_live pid rt"
    and payer: "v_signer payer" "v_writable payer" "acc_owner (account_of s payer) = system_program"
      "data_of s payer = []" "lam \<le> lamports (account_of s payer)"
    and unused: "acc_owner (account_of s new) = system_program" "data_of s new = []"
      "lamports (account_of s new) = 0" "v_writable new"
    and differ: "v_address payer \<noteq> v_address new"
    and space: "0 < n" "n \<le> 10240" and addr: "rt_pda rt seeds pid = Some (v_address new)"
  shows "rt_create_account rt payer new (of_nat n) lam pid seeds s
    = Inr (opened pid (v_address payer) (v_address new) lam (replicate n 0) s)"
proof -
  have n: "unat (of_nat n :: u64) = n" using space(2) by (intro unat_space) simp
  then have nz: "(of_nat n :: u64) \<noteq> 0" using space(1) by (metis unat_0 less_numeral_extra(3))
  have "\<exists>s'. rt_create_account rt payer new (of_nat n) lam pid seeds s = Inr s'"
    using live payer unused differ addr n space(2) unfolding create_account_live_def by simp
  then obtain s' where s': "rt_create_account rt payer new (of_nat n) lam pid seeds s = Inr s'" by blast
  with spec nz have "s' = s(v_address payer := (account_of s payer)\<lparr>lamports := lamports (account_of s payer) - lam\<rparr>,
      v_address new := (account_of s new)\<lparr>lamports := lam, acc_data := replicate (unat (of_nat n :: u64)) 0,
        acc_owner := pid\<rparr>)"
    unfolding create_account_spec_def by blast
  then show ?thesis by (simp only: s' n opened_def)
qed

text \<open>The address the client finds is the one the program derives.\<close>

lemma derived: "derive_spec rt derive \<Longrightarrow> length seeds < 16 \<Longrightarrow> \<forall>seed \<in> set seeds. length seed \<le> 32 \<Longrightarrow>
    rt_pda rt (seeds @ [[snd (derive seeds ID)]]) ID = Some (fst (derive seeds ID))"
  by (simp add: derive_spec_def)

section \<open>A proposal can be made\<close>

lemma checked_add_1: "w \<noteq> - 1 \<Longrightarrow> checked_add w 1 = Some (w + 1)" for w :: u64
proof -
  assume "w \<noteq> - 1"
  then have "unat (w + 1) = Suc (unat w)" by (rule unat_add_1)
  then have "unat w + 1 < 2 ^ 64" using unat_less [of "w + 1"] by simp
  then show ?thesis by (simp add: checked_add_def)
qed

lemma fresh_proposal_wf:
  assumes load: "ms_load p d = Inr (c, os, ps)" and wf: "ms_wf c os ps"
    and len: "length message \<le> MAX_MESSAGE_SIZE" and ec: "unat ec \<le> MAX_EPHEMERAL_SIGNERS"
  shows "tx_wf (fresh_transaction ms creator index (ms_owners_count c) message vi vb bump ec eb)
     (clear_votes (ms_owners_count c)) message"
proof (rule fresh_transaction_wf [OF _ len])
  have "0 < unat (ms_owners_count c)" "unat (ms_owners_count c) \<le> MAX_OWNER"
    using wf by (auto simp: ms_wf_def ms_invariant_iff)
  then show "tx_invariant (fresh_transaction ms creator index (ms_owners_count c) message vi vb bump ec eb) = Inr ()"
    using len ec by (auto simp: tx_invariant_iff fresh_transaction_def MAX_MESSAGE_SIZE_def unat_of_nat
        simp del: status_to_u8.simps)
qed

lemma init_proposal_accepts:
  assumes spec: "create_account_spec pid rt" and live: "create_account_live pid rt"
    and load: "ms_load (ptr_of s multisig) (data_of s multisig) = Inr (c, os, ps)" and wf: "ms_wf c os ps"
    and owner: "is_owner os (v_address creator) = Some i" "ps ! i = 0 \<or> ps ! i AND INITIATE \<noteq> 0"
    and index: "ms_transaction_index c \<noteq> - 1"
    and msg: "parse message = Inr t" and ec: "unat ec \<le> MAX_EPHEMERAL_SIGNERS"
    and len: "length message \<le> MAX_MESSAGE_SIZE"
    and payer: "v_signer creator" "v_writable creator" "acc_owner (account_of s creator) = system_program"
      "data_of s creator = []"
    and unused: "acc_owner (account_of s transaction) = system_program" "data_of s transaction = []"
      "lamports (account_of s transaction) = 0" "8 dvd ptr_of s transaction" "v_writable transaction"
    and differ: "v_address creator \<noteq> v_address transaction"
    and rent: "rt_rent rt = Inr rent"
      "rent (tx_space (length os) (length message)) \<le> lamports (account_of s creator)"
    and addr: "rt_pda rt [TRANSACTION_SEED, as_array (v_address multisig),
        to_le_bytes 8 (ms_transaction_index c + 1), [bump]] pid = Some (v_address transaction)"
  shows "init_proposal rt pid creator multisig transaction message vi vb bump ec eb s
    = Inr (opened pid (v_address creator) (v_address transaction) (rent (tx_space (length os) (length message)))
        (tx_bytes (fresh_transaction (v_address multisig) (v_address creator) (ms_transaction_index c + 1)
            (ms_owners_count c) message vi vb bump ec eb) (clear_votes (ms_owners_count c)) message)
        (set_data multisig (ms_bytes (c\<lparr>ms_transaction_index := ms_transaction_index c + 1\<rparr>) os ps) s))"
proof -
  let ?n = "length os" and ?len = "length message"
  let ?space = "tx_space ?n ?len" and ?index = "ms_transaction_index c + 1"
  let ?s0 = "set_data multisig (ms_bytes (c\<lparr>ms_transaction_index := ?index\<rparr>) os ps) s"
  let ?seeds = "[TRANSACTION_SEED, as_array (v_address multisig), to_le_bytes 8 ?index, [bump]]"
  let ?t = "fresh_transaction (v_address multisig) (v_address creator) ?index (ms_owners_count c) message vi vb bump ec eb"
  let ?d = "replicate ?space (0 :: u8)"
  have n: "unat (ms_owners_count c) = ?n" using load by (simp add: ms_load_Inr)
  have n_ok: "0 < ?n" "?n \<le> MAX_OWNER" using wf n by (auto simp: ms_wf_def ms_invariant_iff)
  have size: "0 < ?space" "?space \<le> 10240"
    using len n_ok by (simp_all add: tx_space_def MAX_MESSAGE_SIZE_def TX_LEN_def MAX_OWNER_def len_for_def)
  have full: "data_of s multisig \<noteq> []" using load by (rule ms_load_nonempty)
  have apart: "v_address creator \<noteq> v_address multisig" "v_address transaction \<noteq> v_address multisig"
    using full payer(4) unused(2) by metis+
  have reserve: "reserve_index creator multisig s = Inr (?s0, ?index, ms_owners_count c)"
    using load owner checked_add_1 [OF index] by (simp add: reserve_index_Inr)
  have create: "rt_create_account rt creator transaction (of_nat ?space) (rent ?space) pid ?seeds ?s0
      = Inr (opened pid (v_address creator) (v_address transaction) (rent ?space) ?d ?s0)"
    using payer unused rent(2) apart by (intro account_opens [OF spec live _ _ _ _ _ _ _ _ _ differ size addr]) simp_all
  have tail: "drop TX_LEN ?d = replicate (3 * len_for ?n + ?len) 0" by (simp add: tx_space_def)
  have split: "tx_split_uninitialized (ptr_of s transaction) ?d = Inr (tx_decode (take TX_LEN ?d), drop TX_LEN ?d)"
    using unused(4) by (simp add: tx_split_uninitialized_def tx_space_def)
  have inv: "tx_invariant ?t = Inr ()"
    using fresh_proposal_wf [OF load wf len ec] by (simp add: tx_wf_def)
  have votes: "tx_encode ?t @ replicate (3 * len_for ?n) 0 @ message = tx_bytes ?t (clear_votes (ms_owners_count c)) message"
    by (simp add: tx_bytes_def clear_votes_def n replicate_add [symmetric] flip: append_assoc)
  have "init_proposal rt pid creator multisig transaction message vi vb bump ec eb s
      = Inr (set_data transaction (tx_encode ?t @ replicate (3 * len_for ?n) 0 @ message)
          (opened pid (v_address creator) (v_address transaction) (rent ?space) ?d ?s0))"
    using ec len msg rent(1) create split tail inv
    unfolding init_proposal_def Let_def fresh_transaction_update
    by (simp add: reserve n split_at_mut_def copy_from_slice_def apart)
  then show ?thesis unfolding votes set_opened .
qed

lemma client_creates:
  assumes spec: "create_account_spec ID rt" "create_account_live ID rt" "derive_spec rt derive"
    and rent: "rt_rent rt = Inr rent"
      "rent (tx_space (length os) (length (message_encode message))) \<le> lamports (s creator)"
    and ms: "ms_load (data_ptr (s ms)) (acc_data (s ms)) = Inr (c, os, ps)" "ms_wf c os ps"
      "acc_owner (s ms) = ID"
    and owner: "is_owner os creator = Some i" "ps ! i = 0 \<or> ps ! i AND INITIATE \<noteq> 0"
    and index: "ms_transaction_index c \<noteq> - 1" "index = ms_transaction_index c + 1"
    and msg: "message_fits message" "message_valid message"
      "length (message_encode message) \<le> MAX_MESSAGE_SIZE" "length ephemeral \<le> MAX_EPHEMERAL_SIGNERS"
    and wallet: "acc_owner (s creator) = system_program" "acc_data (s creator) = []"
    and tx: "tx = fst (transaction_address derive ms index)" "tx \<noteq> creator"
    and unused: "acc_owner (s tx) = system_program" "acc_data (s tx) = []" "lamports (s tx) = 0"
      "8 dvd data_ptr (s tx)"
  obtains ix s' where
    "create_transaction derive creator ms index message vi ephemeral = Inr ix" "submit rt ix s = Inr s'"
    "process_create_transaction rt ID
       [signing creator True, passed ms True, passed tx True, passed system_program False]
       (create_payload vi (snd (vault_address derive ms vi)) (snd (transaction_address derive ms index))
          ephemeral (message_encode message)) s = Inr s'"
proof -
  let ?bump = "snd (transaction_address derive ms index)"
  let ?p = "create_payload vi (snd (vault_address derive ms vi)) ?bump ephemeral (message_encode message)"
  let ?vs = "[signing creator True, passed ms True, passed tx True, passed system_program False]"
  have parse: "parse (message_encode message) = Inr (parsed_message message)"
    using parse_message_encode [OF msg(1)] msg(2) by simp
  have addr: "rt_pda rt [TRANSACTION_SEED, as_array ms, to_le_bytes 8 (ms_transaction_index c + 1), [?bump]] ID
      = Some tx"
    using derived [OF spec(3), of "[TRANSACTION_SEED, as_array ms, to_le_bytes 8 index]"]
    by (simp add: tx(1) index(2) transaction_address_def client_constants TRANSACTION_SEED_def)
  have "unat (of_nat (length ephemeral) :: u8) \<le> MAX_EPHEMERAL_SIGNERS"
    using msg(4) by (simp add: MAX_EPHEMERAL_SIGNERS_def)
  then have "\<exists>s'. init_proposal rt ID (signing creator True) (passed ms True) (passed tx True)
      (message_encode message) vi (snd (vault_address derive ms vi)) ?bump (of_nat (length ephemeral)) eb s
      = Inr s'" for eb
    using ms(1) owner index(1) parse msg(3) wallet unused rent tx(2) addr
    by - (rule exI, rule init_proposal_accepts [OF spec(1,2) _ ms(2)]; simp)
  then have "\<exists>s'. process_create_transaction rt ID ?vs ?p s = Inr s'"
    using ms(3) unused
    by (simp add: process_create_transaction_def create_payload_read [OF msg(4)] Let_def)
  then obtain s' where run: "process_create_transaction rt ID ?vs ?p s = Inr s'" by blast
  obtain ix where ix: "create_transaction derive creator ms index message vi ephemeral = Inr ix"
    "submit rt ix s = process_create_transaction rt ID ?vs ?p s"
    using create_transaction_submit [OF msg(4)] unfolding tx(1) by metis
  show thesis using ix run by (intro that) simp_all
qed

section \<open>A buffer can be opened and filled\<close>

lemma buffer_create_accepts:
  assumes spec: "create_account_spec pid rt" "create_account_live pid rt"
    and rent: "rt_rent rt = Inr rent" "rent (buf_space (unat final_size)) \<le> lamports (account_of s creator)"
    and ms: "ms_load (ptr_of s multisig) (data_of s multisig) = Inr (c, os, ps)"
      "acc_owner (account_of s multisig) = pid"
    and owner: "is_owner os (v_address creator) = Some i" "ps ! i = 0 \<or> ps ! i AND INITIATE \<noteq> 0"
    and size: "length chunk \<le> unat final_size" "unat final_size \<le> MAX_MESSAGE_SIZE"
    and payer: "v_signer creator" "v_writable creator" "acc_owner (account_of s creator) = system_program"
      "data_of s creator = []"
    and unused: "acc_owner (account_of s buffer) = system_program" "data_of s buffer = []"
      "lamports (account_of s buffer) = 0" "4 dvd ptr_of s buffer" "v_writable buffer"
    and differ: "v_address creator \<noteq> v_address buffer"
    and addr: "rt_pda rt [BUFFER_SEED, as_array (v_address multisig), as_array (v_address creator), [bi], [bump]] pid
      = Some (v_address buffer)"
    and sp: "v_address sp = system_program"
  obtains b region where
    "process_buffer_create rt pid (creator # multisig # buffer # sp # remaining)
       (buffer_payload hash final_size bi vi bump chunk) s
     = Inr (opened pid (v_address creator) (v_address buffer) (rent (buf_space (unat final_size)))
         (buf_bytes b region) s)"
    "buf_wf b region" "uploaded b region = chunk" "buf_multisig b = v_address multisig"
    "buf_creator b = v_address creator" "buf_final_hash b = hash" "buf_final_size b = final_size" "buf_vault_index b = vi"
proof -
  let ?n = "buf_space (unat final_size)" and ?seeds = "[BUFFER_SEED, as_array (v_address multisig),
      as_array (v_address creator), [bi], [bump]]"
  let ?s = "\<lambda>d. opened pid (v_address creator) (v_address buffer) (rent ?n) d s"
  let ?b = "\<lparr>buf_multisig = v_address multisig, buf_creator = v_address creator, buf_final_hash = hash,
      buf_final_size = final_size, buf_written = of_nat (length chunk), buf_buffer_index = bi,
      buf_vault_index = vi, buf_bump = bump, buf_pad = 0\<rparr>"
  let ?d = "replicate ?n (0 :: u8)" and ?r = "chunk @ replicate (unat final_size - length chunk) (0 :: u8)"
  have n: "0 < ?n" "?n \<le> 10240" using size(2) by (simp_all add: buf_space_def BUF_LEN_def MAX_MESSAGE_SIZE_def)
  have create: "rt_create_account rt creator buffer (of_nat ?n) (rent ?n) pid ?seeds s = Inr (?s ?d)"
    by (rule account_opens [OF spec payer rent(2) unused(1-3,5) differ n addr])
  have split: "buf_split_uninitialized (ptr_of s buffer) ?d
      = Inr (buf_decode (take BUF_LEN ?d), replicate (unat final_size) 0)"
    using unused(4) by (simp add: buf_split_uninitialized_def buf_space_def)
  have inv: "buf_invariant ?b = Inr ()"
    using size by (simp add: buf_invariant_iff word_le_nat_alt unat_of_nat_small)
  have fresh: "h\<lparr>buf_multisig := v_address multisig, buf_creator := v_address creator, buf_final_hash := hash,
      buf_final_size := final_size, buf_written := of_nat (length chunk), buf_buffer_index := bi,
      buf_vault_index := vi, buf_bump := bump, buf_pad := 0\<rparr> = ?b" for h :: buffer by simp
  have filled: "buf_wf ?b ?r" "uploaded ?b ?r = chunk"
    using first_chunk [OF inv, of chunk "replicate (unat final_size) 0"] size(1) by (auto simp: set_replicate_conv_if)
  have may: "check_may_upload creator multisig s = Inr ()"
    using ms(1) owner unfolding check_may_upload_Inr by blast
  have "process_buffer_create rt pid (creator # multisig # buffer # sp # remaining)
       (buffer_payload hash final_size bi vi bump chunk) s = Inr (set_data buffer (buf_bytes ?b ?r) (?s ?d))"
    using payer(1) sp ms(2) unused(2,3) size
    by (simp add: process_buffer_create_def buffer_payload_read Let_def may rent(1) create split
        write_range_def fresh inv)
  also have "set_data buffer (buf_bytes ?b ?r) (?s ?d) = ?s (buf_bytes ?b ?r)"
    by (rule set_opened)
  finally show thesis
    using filled by (intro that [of ?b ?r]) simp_all
qed

text \<open>A chunk that fits is appended, and nothing but the buffer's bytes changes.\<close>

lemma buffer_extend_accepts:
  assumes load: "buf_load (ptr_of s buffer) (data_of s buffer) = Inr (b, region)" and wf: "buf_wf b region"
    and own: "acc_owner (account_of s buffer) = pid" and creator: "v_signer creator" "buf_creator b = v_address creator"
    and chunk: "chunk \<noteq> []" "unat (buf_written b) + length chunk \<le> unat (buf_final_size b)"
  shows "\<exists>s'. process_buffer_extend rt pid (creator # buffer # remaining) chunk s = Inr s'"
proof -
  let ?stop = "unat (buf_written b) + length chunk"
  have size: "?stop \<le> MAX_MESSAGE_SIZE" "length region = unat (buf_final_size b)"
    using wf chunk(2) by (auto simp: buf_wf_def buf_invariant_iff)
  then have "buf_invariant (b\<lparr>buf_written := of_nat ?stop\<rparr>) = Inr ()"
    using wf chunk(2) unat_of_nat_small [OF size(1)] by (simp add: buf_wf_def buf_invariant_iff word_le_nat_alt)
  moreover have "?stop < 2 ^ 64" using size(1) by (simp add: MAX_MESSAGE_SIZE_def)
  ultimately show ?thesis
    using own creator chunk size load
    by (simp add: process_buffer_extend_def buf_load_mut_eq write_range_def Let_def)
qed

end
