(* ===== verification/Establish.thy ===== *)
theory Establish
  imports Proposal_Life Opening
begin

text \<open>
  A multisig can be established: the call of init_multisig.rs that succeeds, and what it gives the owners to start from,
  which is what the theorems on proposals (Upload, Progress) ask for.
\<close>

section \<open>A multisig can be established\<close>

definition established :: "address \<Rightarrow> u32 \<Rightarrow> nat \<Rightarrow> u8 \<Rightarrow> address \<Rightarrow> multisig" where
  "established create_key threshold n bump authority = fresh_multisig create_key
     \<lparr>in_threshold = threshold, in_owners_count = of_nat n, in_bump = bump, in_pad = [0, 0, 0],
      in_config_authority = authority\<rparr>"

lemma init_multisig_accepts:
  fixes owners :: "address list" and create_key :: view and threshold :: u32 and bump :: u8 and authority :: address
  defines "n \<equiv> length owners"
  defines "c \<equiv> established (v_address create_key) threshold (length owners) bump authority"
  assumes spec: "create_account_spec pid rt" "create_account_live pid rt"
    and rent: "rt_rent rt = Inr rent" "rent (ms_space n) \<le> lamports (account_of s creator)"
    and owners: "owners \<noteq> []" "n \<le> MAX_OWNER" "ms_space n \<le> 10240" "ascending owners"
    and threshold: "0 < unat threshold" "unat threshold \<le> n"
    and payer: "v_signer creator" "v_writable creator" "acc_owner (account_of s creator) = system_program"
      "data_of s creator = []"
    and unused: "acc_owner (account_of s multisig) = system_program" "data_of s multisig = []"
      "lamports (account_of s multisig) = 0" "8 dvd ptr_of s multisig" "v_writable multisig"
    and differ: "v_address creator \<noteq> v_address multisig" and key: "v_signer create_key"
    and addr: "rt_pda rt [MULTISIG_SEED, as_array (v_address create_key), [bump]] pid = Some (v_address multisig)"
    and sp: "v_address sp = system_program"
  shows "process_init_multisig rt pid (creator # create_key # multisig # sp # remaining)
       (init_payload threshold (of_nat n) bump authority (encode_array as_array owners)) s
     = Inr (opened pid (v_address creator) (v_address multisig) (rent (ms_space n))
         (ms_bytes c owners (replicate n 0)) s)"
    and "ms_wf c owners (replicate n 0)"
proof -
  let ?d = "replicate (ms_space n) (0 :: u8)"
  have n: "unat (of_nat n :: u32) = n" "0 < n" using owners(1,2) by (simp_all add: MAX_OWNER_def unat_of_nat n_def)
  have space: "0 < ms_space n" by (simp add: ms_space_def MS_LEN_def)
  have inv: "ms_invariant c = Inr ()"
    using n threshold owners(2) by (simp add: c_def established_def n_def [symmetric] fresh_multisig_def ms_invariant_iff word_le_nat_alt MAX_TIME_LOCK_def
        word_less_nat_alt)
  show "ms_wf c owners (replicate n 0)"
    using fresh_multisig_wf [of "\<lparr>in_threshold = threshold, in_owners_count = of_nat n, in_bump = bump,
        in_pad = [0, 0, 0], in_config_authority = authority\<rparr>" "v_address create_key" owners]
      n owners(2,4) inv by (simp add: c_def established_def flip: n_def)
  have create: "rt_create_account rt creator multisig (of_nat (ms_space n)) (rent (ms_space n)) pid
      [MULTISIG_SEED, as_array (v_address create_key), [bump]] s
    = Inr (opened pid (v_address creator) (v_address multisig) (rent (ms_space n)) ?d s)"
    by (rule account_opens [OF spec payer rent(2) unused(1-3,5) differ space owners(3) addr])
  have split: "ms_split_uninitialized (ptr_of s multisig) ?d = Inr (ms_decode (take MS_LEN ?d), drop MS_LEN ?d)"
    using unused(4) by (simp add: ms_split_uninitialized_def ms_space_def)
  have rest: "ms_space n - MS_LEN = n * 33" "ms_space n - (MS_LEN + n * 32) = n" by (simp_all add: ms_space_def)
  have fresh: "h\<lparr>ms_create_key := v_address create_key, ms_config_authority := authority,
      ms_rent_collector := default_address, ms_transaction_index := 0, ms_stale_transaction_index := 0,
      ms_closed_transaction_count := 0, ms_time_lock := 0, ms_owners_count := of_nat n,
      ms_voter_count := of_nat n, ms_threshold := threshold, ms_bump := bump, ms_pad := 0\<rparr> = c" for h :: multisig
    by (simp add: c_def established_def fresh_multisig_def flip: n_def)
  have read: "decode_array 32 new_from_array n (encode_array as_array owners) = owners"
    using addr.decode_encode_array [of owners n "[]"] by (simp add: n_def)
  have size: "length (encode_array as_array owners) = n * 32" by (simp add: n_def addr.length_encode_array)
  have "process_init_multisig rt pid (creator # create_key # multisig # sp # remaining)
       (init_payload threshold (of_nat n) bump authority (encode_array as_array owners)) s
     = Inr (set_data multisig (ms_bytes c owners (replicate n 0))
         (opened pid (v_address creator) (v_address multisig) (rent (ms_space n)) ?d s))"
    using payer(1) key sp unused(2,3) n owners(2) check_sorted_Inr [of owners] owners(4) inv
    unfolding process_init_multisig_def list.case Let_def init_payload_read read
    by (simp add: n size create split rest read fresh ms_bytes_def rent(1) split_at_mut_def copy_from_slice_def)
  then show "process_init_multisig rt pid (creator # create_key # multisig # sp # remaining)
       (init_payload threshold (of_nat n) bump authority (encode_array as_array owners)) s
     = Inr (opened pid (v_address creator) (v_address multisig) (rent (ms_space n))
         (ms_bytes c owners (replicate n 0)) s)"
    unfolding set_opened .
qed

text \<open>C15: a multisig can be established, and is one its owners can use. With the key it is named for signing, a wallet that can
  pay the rent creates, through the client's builder and at an address not used so far, a multisig with any strictly ascending set of
  owners that fits an account created in one call and any threshold it can reach. The account is the
  program's, its configuration is well formed and as asked for, with no proposals, no time lock and no rent
  collector; each of the owners, and nobody else, is an owner, and all of them may initiate, vote and execute.
  The wallet has paid exactly the rent, and no other account has changed.\<close>

theorem client_establishes:
  assumes spec: "create_account_spec ID rt" "create_account_live ID rt" "derive_spec rt derive"
    and rent: "rt_rent rt = Inr rent" "rent (ms_space (length owners)) \<le> lamports (s creator)"
    and owners: "owners \<noteq> []" "length owners \<le> MAX_OWNER" "ms_space (length owners) \<le> 10240" "ascending owners"
    and threshold: "0 < unat threshold" "unat threshold \<le> length owners"
    and wallet: "acc_owner (s creator) = system_program" "acc_data (s creator) = []"
    and ms: "ms = fst (multisig_address derive create_key)" "creator \<noteq> ms"
    and unused: "acc_owner (s ms) = system_program" "acc_data (s ms) = []" "lamports (s ms) = 0" "8 dvd data_ptr (s ms)"
  shows "\<exists>s' c ps.
     submit rt (init_multisig_controlled derive creator create_key owners threshold authority) s = Inr s' \<and>
     ms_load (data_ptr (s' ms)) (acc_data (s' ms)) = Inr (c, owners, ps) \<and> ms_wf c owners ps \<and>
     acc_owner (s' ms) = ID \<and> lamports (s' ms) = rent (ms_space (length owners)) \<and>
     ms_create_key c = create_key \<and> ms_threshold c = threshold \<and> ms_config_authority c = authority \<and>
     ms_transaction_index c = 0 \<and> ms_time_lock c = 0 \<and> ms_rent_collector c = default_address \<and>
     (\<forall>a. (\<exists>i. is_owner owners a = Some i \<and> ps ! i = 0) \<longleftrightarrow> a \<in> set owners) \<and>
     voter_set owners ps = set owners \<and>
     unat (lamports (s' creator)) + unat (rent (ms_space (length owners))) = unat (lamports (s creator)) \<and>
     (\<forall>a. a \<noteq> ms \<longrightarrow> a \<noteq> creator \<longrightarrow> s' a = s a)"
proof -
  let ?n = "length owners" and ?bump = "snd (multisig_address derive create_key)"
  let ?c = "established create_key threshold ?n ?bump authority" and ?ps = "replicate ?n 0 :: bytes"
  let ?s = "opened ID creator ms (rent (ms_space ?n)) (ms_bytes ?c owners ?ps) s"
  have addr: "rt_pda rt [MULTISIG_SEED, as_array create_key, [?bump]] ID = Some ms"
    using derived [OF spec(3), of "[MULTISIG_SEED, as_array create_key]"]
    by (simp add: ms(1) multisig_address_def client_constants MULTISIG_SEED_def)
  note accepts = init_multisig_accepts [OF spec(1,2) rent(1), where s = s and owners = owners and creator = "signing creator True"
      and create_key = "signing create_key False" and multisig = "passed ms True"
      and sp = "passed system_program False" and bump = ?bump and threshold = threshold, simplified]
  have run: "submit rt (init_multisig_controlled derive creator create_key owners threshold authority) s = Inr ?s"
    using accepts(1) [OF rent(2) owners threshold wallet unused ms(2) addr] owners(2)
    unfolding init_multisig_submit ms(1) [symmetric] by simp
  have wf: "ms_wf ?c owners ?ps"
    using accepts(2) [OF rent(2) owners threshold wallet unused ms(2) addr] .
  have load: "ms_load (data_ptr (?s ms)) (acc_data (?s ms)) = Inr (?c, owners, ?ps)"
    using wf unused(4) by (simp add: ms_load_Inr ms_wf_def)
  have found: "(\<exists>i. is_owner owners a = Some i \<and> ?ps ! i = 0) \<longleftrightarrow> a \<in> set owners" for a
    using is_owner_iff [OF owners(4), of a] loaded_owner [OF load, of a] by auto
  have "voter_set owners ?ps = set owners"
    by (auto simp: voter_set_iff in_set_conv_nth mask_can_vote_def) (metis nth_replicate)
  moreover have "unat (lamports (?s creator)) + unat (rent (ms_space ?n)) = unat (lamports (s creator))"
    using rent(2) ms(2) by (simp add: unat_sub word_le_nat_alt)
  ultimately show ?thesis
    using run load wf found by (intro exI [of _ ?s] exI [of _ ?c] exI [of _ ?ps])
      (simp add: established_def fresh_multisig_def)
qed

end
