(* ===== verification/Upload.thy ===== *)
theory Upload
  imports Opening
begin

text \<open>
  A message of any length the program takes can be uploaded in chunks and becomes a proposal. Opening says that a
  buffer can be created and a chunk appended; here the owner's client makes all the calls, and what the
  proposal carries in the end is the message, however it was cut.
\<close>

section \<open>The chunks\<close>
text \<open>The chunks arrive in order, and nothing but the buffer's bytes changes.\<close>

lemma set_data_twice: "set_data v d (set_data v d' s) = set_data v d s"
  by (simp add: set_data_def)

lemma set_data_same: "data_of s v = d \<Longrightarrow> set_data v d s = s"
  by (auto simp: set_data_def)

lemma uploads_run:
  assumes load: "buf_load (data_ptr (s buf)) (acc_data (s buf)) = Inr (b, region)" and wf: "buf_wf b region"
    and own: "acc_owner (s buf) = ID" "buf_creator b = creator"
    and chunks: "[] \<notin> set chunks" "unat (buf_written b) + length (concat chunks) \<le> unat (buf_final_size b)"
  shows "\<exists>s' b' region'. fold_result (\<lambda>chunk. submit rt (buffer_extend creator buf chunk)) chunks s = Inr s' \<and>
     s' = set_data (passed buf True) (buf_bytes b' region') s \<and>
     buf_load (data_ptr (s buf)) (buf_bytes b' region') = Inr (b', region') \<and> buf_wf b' region' \<and>
     uploaded b' region' = uploaded b region @ concat chunks \<and>
     b' = b\<lparr>buf_written := buf_written b'\<rparr> \<and>
     unat (buf_written b') = unat (buf_written b) + length (concat chunks)"
  using assms
proof (induction chunks arbitrary: s b region)
  case Nil
  then have "acc_data (s buf) = buf_bytes b region" by (simp add: buf_load_Inr)
  with Nil show ?case by (intro exI [of _ s] exI [of _ b] exI [of _ region]) (simp add: set_data_same)
next
  case (Cons chunk chunks)
  let ?run = "process_buffer_extend rt ID [signing creator False, passed buf True] chunk s"
  have "\<exists>s1. ?run = Inr s1"
    by (rule buffer_extend_accepts [of s "passed buf True" b region]) (use Cons.prems in auto)
  then obtain s1 where run: "?run = Inr s1" by blast
  obtain b1 r1 where s1: "s1 = set_data (passed buf True) (buf_bytes b1 r1) s"
    and wf1: "buf_wf b1 r1" and up: "uploaded b1 r1 = uploaded b region @ chunk"
    and b1: "b1 = b\<lparr>buf_written := buf_written b1\<rparr>" "unat (buf_written b1) = unat (buf_written b) + length chunk"
    and load1: "buf_load (data_ptr (s1 buf)) (acc_data (s1 buf)) = Inr (b1, r1)"
    using buffer_extend_effect [OF run] Cons.prems(1,2) by auto
  have same: "buf_creator b1 = buf_creator b" "buf_final_size b1 = buf_final_size b"
    by (subst b1(1), simp)+
  have "\<exists>s' b' region'. fold_result (\<lambda>chunk. submit rt (buffer_extend creator buf chunk)) chunks s1 = Inr s' \<and>
     s' = set_data (passed buf True) (buf_bytes b' region') s1 \<and>
     buf_load (data_ptr (s1 buf)) (buf_bytes b' region') = Inr (b', region') \<and> buf_wf b' region' \<and>
     uploaded b' region' = uploaded b1 r1 @ concat chunks \<and> b' = b1\<lparr>buf_written := buf_written b'\<rparr> \<and>
     unat (buf_written b') = unat (buf_written b1) + length (concat chunks)"
    using Cons.prems same b1(2) by (intro Cons.IH [where s = s1, OF load1 wf1]) (simp_all add: s1)
  then obtain s' b' region' where IH: "fold_result (\<lambda>chunk. submit rt (buffer_extend creator buf chunk)) chunks s1 = Inr s'"
     "s' = set_data (passed buf True) (buf_bytes b' region') s1"
     "buf_load (data_ptr (s1 buf)) (buf_bytes b' region') = Inr (b', region')" "buf_wf b' region'"
     "uploaded b' region' = uploaded b1 r1 @ concat chunks" "b' = b1\<lparr>buf_written := buf_written b'\<rparr>"
     "unat (buf_written b') = unat (buf_written b1) + length (concat chunks)"
    by blast
  have "b' = b\<lparr>buf_written := buf_written b'\<rparr>" using IH(6) b1(1) by (metis buffer.update_convs(5) buffer.surjective)
  moreover have "s' = set_data (passed buf True) (buf_bytes b' region') s" using IH(2) by (simp add: s1 set_data_twice)
  moreover have "submit rt (buffer_extend creator buf chunk) s = Inr s1" using client_reaches_handlers run by metis
  ultimately show ?case
    using IH b1(2) up by (intro exI [of _ s'] exI [of _ b'] exI [of _ region']) (simp add: s1)
qed


section \<open>The proposal\<close>

lemma create_from_buffer_accepts:
  assumes spec: "create_account_spec ID rt" "create_account_live ID rt" "close_spec rt"
      "\<And>v t. \<exists>t'. rt_close rt v t = Inr t'"
    and rent: "rt_rent rt = Inr rent" "rent (tx_space (length os) (length region)) \<le> lamports (s creator)"
      "unat (lamports (s creator)) - unat (rent (tx_space (length os) (length region)))
         + unat (lamports (s buf)) < 2 ^ 64"
    and ms: "ms_load (data_ptr (s ms)) (acc_data (s ms)) = Inr (c, os, ps)" "ms_wf c os ps"
      "acc_owner (s ms) = ID" "ms_transaction_index c \<noteq> - 1"
    and owner: "is_owner os creator = Some i" "ps ! i = 0 \<or> ps ! i AND INITIATE \<noteq> 0"
    and buf: "buf_load (data_ptr (s buf)) (acc_data (s buf)) = Inr (b, region)" "buf_wf b region"
      "acc_owner (s buf) = ID" "buf_creator b = creator" "buf_multisig b = ms" "is_complete b"
      "rt_sha256 rt region = buf_final_hash b" "buf \<noteq> creator" "buf \<noteq> ms"
    and msg: "parse region = Inr m" "length ephemeral \<le> MAX_EPHEMERAL_SIGNERS"
    and wallet: "acc_owner (s creator) = system_program" "acc_data (s creator) = []"
    and tx: "tx \<noteq> creator" "tx \<noteq> buf" "acc_owner (s tx) = system_program" "acc_data (s tx) = []"
      "lamports (s tx) = 0" "8 dvd data_ptr (s tx)"
    and addr: "rt_pda rt [TRANSACTION_SEED, as_array ms, to_le_bytes 8 (ms_transaction_index c + 1), [bump]] ID
      = Some tx"
  obtains s' h where
    "process_create_from_buffer rt ID [signing creator True, passed ms True, passed tx True, passed buf True,
       passed system_program False] (from_buffer_payload bump vb ephemeral) s = Inr s'"
    "tx_load (data_ptr (s' tx)) (acc_data (s' tx)) = Inr (h, clear_votes (ms_owners_count c), region)"
    "tx_wf h (clear_votes (ms_owners_count c)) region" "tx_status h = status_to_u8 Active" "tx_multisig h = ms"
    "tx_index h = ms_transaction_index c + 1" "tx_vault_index h = buf_vault_index b"
    "acc_data (s' buf) = []" "lamports (s' buf) = 0"
    "unat (lamports (s' creator)) + unat (rent (tx_space (length os) (length region)))
       = unat (lamports (s creator)) + unat (lamports (s buf))"
proof -
  let ?ec = "of_nat (length ephemeral) :: u8" and ?r = "rent (tx_space (length os) (length region))"
  let ?eb = "bumps_of (ephemeral @ replicate (MAX_EPHEMERAL_SIGNERS - length ephemeral) 0)"
  let ?h = "fresh_transaction ms creator (ms_transaction_index c + 1) (ms_owners_count c) region (buf_vault_index b)
      vb bump ?ec ?eb"
  let ?v = "clear_votes (ms_owners_count c)"
  let ?s = "opened ID creator tx ?r (tx_bytes ?h ?v region)
      (set_data (passed ms True) (ms_bytes (c\<lparr>ms_transaction_index := ms_transaction_index c + 1\<rparr>) os ps) s)"
  have ec: "unat ?ec \<le> MAX_EPHEMERAL_SIGNERS" using msg(2) by (simp add: MAX_EPHEMERAL_SIGNERS_def)
  have len: "length region \<le> MAX_MESSAGE_SIZE" using buf(2) by (simp add: buf_wf_def buf_invariant_iff)
  have wf: "tx_wf ?h ?v region" by (rule fresh_proposal_wf [OF ms(1,2) len ec])
  have apart: "ms \<noteq> tx" "ms \<noteq> creator" using ms_load_nonempty [OF ms(1)] tx(4) wallet(2) by auto
  have init: "init_proposal rt ID (signing creator True) (passed ms True) (passed tx True) region
      (buf_vault_index b) vb bump ?ec ?eb s = Inr ?s"
    using init_proposal_accepts [where s = s and multisig = "passed ms True" and creator = "signing creator True"
        and transaction = "passed tx True" and message = region, OF spec(1,2) _ ms(2) _ _ ms(4) msg(1) ec len]
      ms(1) owner rent(1,2) wallet tx addr by simp
  have buf_kept: "?s buf = s buf" using buf(8,9) tx(2) by (simp add: set_data_other)
  have creator_paid: "lamports (?s creator) = lamports (s creator) - ?r" using tx(1) by simp
  have paid: "unat (lamports (s creator) - ?r) = unat (lamports (s creator)) - unat ?r"
    using rent(2) by (simp add: unat_sub)
  obtain s' where close: "close_buffer rt (passed buf True) (signing creator True) ?s = Inr s'"
    by (rule close_buffer_accepts [of ?s "signing creator True" "passed buf True" rt])
       (use rent(3) spec(4) in \<open>simp_all only: view.simps buf_kept creator_paid paid\<close>)
  have run: "process_create_from_buffer rt ID [signing creator True, passed ms True, passed tx True,
      passed buf True, passed system_program False] (from_buffer_payload bump vb ephemeral) s = Inr s'"
    using ms(3) buf tx(4,5) init close
    by (simp add: process_create_from_buffer_def from_buffer_payload_read [OF msg(2)] Let_def)
  have differ: "v_address (passed buf True) \<noteq> v_address (signing creator True)" using buf(8) by simp
  note effect = close_buffer_effect [OF spec(3) close differ, unfolded view.simps]
  have at_tx: "s' tx = ?s tx" using effect(6) [of tx] tx(1,2) by simp
  show thesis
  proof (rule that [OF run, of ?h])
    show "tx_load (data_ptr (s' tx)) (acc_data (s' tx)) = Inr (?h, ?v, region)"
      using wf tx(6) unfolding at_tx by (simp add: tx_load_Inr tx_wf_def)
    show "unat (lamports (s' creator)) + unat ?r = unat (lamports (s creator)) + unat (lamports (s buf))"
      using effect(1) rent(2) by (simp only: buf_kept creator_paid paid word_le_nat_alt)
  qed (use wf effect(2,3) in \<open>simp_all add: fresh_transaction_def\<close>)
qed


section \<open>The client's calls\<close>

lemma client_opens_buffer:
  assumes spec: "create_account_spec ID rt" "create_account_live ID rt" "derive_spec rt derive"
    and rent: "rt_rent rt = Inr rent" "rent (buf_space (unat final_size)) \<le> lamports (s creator)"
    and ms: "ms_load (data_ptr (s ms)) (acc_data (s ms)) = Inr (c, os, ps)" "acc_owner (s ms) = ID"
    and owner: "is_owner os creator = Some i" "ps ! i = 0 \<or> ps ! i AND INITIATE \<noteq> 0"
    and len: "length chunk \<le> unat final_size" "unat final_size \<le> MAX_MESSAGE_SIZE"
    and wallet: "acc_owner (s creator) = system_program" "acc_data (s creator) = []"
    and buf: "buf = fst (buffer_address derive ms creator bi)" "creator \<noteq> buf"
      "acc_owner (s buf) = system_program" "acc_data (s buf) = []" "lamports (s buf) = 0" "4 dvd data_ptr (s buf)"
  obtains b region where
    "submit rt (buffer_create derive creator ms bi vi hash final_size chunk) s
       = Inr (opened ID creator buf (rent (buf_space (unat final_size))) (buf_bytes b region) s)"
    "buf_wf b region" "uploaded b region = chunk" "buf_multisig b = ms" "buf_creator b = creator"
    "buf_final_hash b = hash" "buf_final_size b = final_size" "buf_vault_index b = vi"
proof -
  let ?bump = "snd (buffer_address derive ms creator bi)"
  have at_buf: "rt_pda rt [BUFFER_SEED, as_array ms, as_array creator, [bi], [?bump]] ID = Some buf"
    using derived [OF spec(3), of "[BUFFER_SEED, as_array ms, as_array creator, [bi]]"]
    by (simp add: buf(1) buffer_address_def client_constants BUFFER_SEED_def)
  show thesis
  proof (rule buffer_create_accepts [OF spec(1,2) rent(1), where s = s and creator = "signing creator True"
      and multisig = "passed ms False" and buffer = "passed buf True" and sp = "passed system_program False"
      and remaining = "[]" and final_size = final_size and chunk = chunk and bi = bi and vi = vi
      and bump = ?bump and hash = hash])
    fix b region assume "process_buffer_create rt ID [signing creator True, passed ms False, passed buf True,
        passed system_program False] (buffer_payload hash final_size bi vi ?bump chunk) s
      = Inr (opened ID (v_address (signing creator True)) (v_address (passed buf True))
          (rent (buf_space (unat final_size))) (buf_bytes b region) s)"
      "buf_wf b region" "uploaded b region = chunk" "buf_multisig b = v_address (passed ms False)"
      "buf_creator b = v_address (signing creator True)" "buf_final_hash b = hash"
      "buf_final_size b = final_size" "buf_vault_index b = vi"
    then show thesis using that [of b region] unfolding buffer_create_submit buf(1) [symmetric] by simp
  qed (use ms owner wallet len rent(2) buf at_buf in simp_all)
qed

text \<open>The whole upload: the buffer holds the bytes, complete, and the only other account changed is the creator's,
  who has paid the buffer's rent.\<close>

lemma client_uploads:
  assumes spec: "create_account_spec ID rt" "create_account_live ID rt" "derive_spec rt derive"
    and rent: "rt_rent rt = Inr rent" "rent (buf_space (length m)) \<le> lamports (s creator)"
    and ms: "ms_load (data_ptr (s ms)) (acc_data (s ms)) = Inr (c, os, ps)" "acc_owner (s ms) = ID"
    and owner: "is_owner os creator = Some i" "ps ! i = 0 \<or> ps ! i AND INITIATE \<noteq> 0"
    and m: "length m \<le> MAX_MESSAGE_SIZE" "chunk @ concat chunks = m" "[] \<notin> set chunks"
    and wallet: "acc_owner (s creator) = system_program" "acc_data (s creator) = []"
    and buf: "buf = fst (buffer_address derive ms creator bi)" "creator \<noteq> buf"
      "acc_owner (s buf) = system_program" "acc_data (s buf) = []" "lamports (s buf) = 0" "4 dvd data_ptr (s buf)"
  obtains s1 s2 b where
    "submit rt (buffer_create derive creator ms bi vi hash (of_nat (length m)) chunk) s = Inr s1"
    "fold_result (\<lambda>chunk. submit rt (buffer_extend creator buf chunk)) chunks s1 = Inr s2"
    "buf_load (data_ptr (s2 buf)) (acc_data (s2 buf)) = Inr (b, m)" "buf_wf b m" "is_complete b"
    "buf_multisig b = ms" "buf_creator b = creator" "buf_final_hash b = hash" "buf_vault_index b = vi"
    "acc_owner (s2 buf) = ID" "lamports (s2 buf) = rent (buf_space (length m))"
    "s2 creator = (s creator)\<lparr>lamports := lamports (s creator) - rent (buf_space (length m))\<rparr>"
    "\<And>a. a \<notin> {buf, creator} \<Longrightarrow> s2 a = s a"
proof -
  let ?size = "of_nat (length m) :: u32" and ?rb = "rent (buf_space (length m))"
  have size: "unat ?size = length m" using m(1) by (rule unat_of_nat_small)
  have cut: "length chunk + length (concat chunks) = length m" unfolding m(2) [symmetric] by simp
  obtain b1 r1 where create: "submit rt (buffer_create derive creator ms bi vi hash ?size chunk) s
        = Inr (opened ID creator buf ?rb (buf_bytes b1 r1) s)"
    and b1: "buf_wf b1 r1" "uploaded b1 r1 = chunk" "buf_multisig b1 = ms" "buf_creator b1 = creator"
      "buf_final_hash b1 = hash" "buf_final_size b1 = ?size" "buf_vault_index b1 = vi"
    by (rule client_opens_buffer [OF spec(1-3) rent(1), where s = s and creator = creator and ms = ms and buf = buf
        and bi = bi and vi = vi and chunk = chunk and hash = hash and final_size = ?size, unfolded size])
       (use ms owner cut m(1) wallet buf(2-) rent(2) in \<open>simp_all add: size buf(1) [symmetric]\<close>)
  let ?s1 = "opened ID creator buf ?rb (buf_bytes b1 r1) s"
  have load1: "buf_load (data_ptr (?s1 buf)) (acc_data (?s1 buf)) = Inr (b1, r1)"
    using buf(6) b1(1) by (simp add: buf_load_Inr buf_wf_def)
  have start: "unat (buf_written b1) = length chunk"
    using b1(1,2,6) size by (auto simp: uploaded_def buf_wf_def buf_invariant_iff word_le_nat_alt)
  obtain s2 b r where extend: "fold_result (\<lambda>chunk. submit rt (buffer_extend creator buf chunk)) chunks ?s1 = Inr s2"
    and s2: "s2 = set_data (passed buf True) (buf_bytes b r) ?s1"
    and b: "buf_load (data_ptr (?s1 buf)) (buf_bytes b r) = Inr (b, r)" "buf_wf b r"
      "uploaded b r = chunk @ concat chunks" "b = b1\<lparr>buf_written := buf_written b\<rparr>"
      "unat (buf_written b) = length m"
    using uploads_run [where s = ?s1 and chunks = chunks and rt = rt, OF load1 b1(1)] b1 start cut m(3) size
    by auto
  have fields: "buf_multisig b = ms" "buf_creator b = creator" "buf_final_hash b = hash"
    "buf_final_size b = ?size" "buf_vault_index b = vi"
    using b1 by (subst b(4), simp)+
  have whole: "r = m" "is_complete b"
    using b(2,3,5) fields(4) size m(2) by (auto simp: buf_wf_def uploaded_def is_complete_def word_unat_eq_iff)
  have payer: "s2 creator = (s creator)\<lparr>lamports := lamports (s creator) - ?rb\<rparr>"
    using buf(2) by (simp add: s2 set_data_other opened_def)
  show thesis
    by (rule that [OF create extend, of b])
       (use b(1,2) fields whole payer in \<open>simp_all add: s2 set_data_other\<close>)
qed

text \<open>C16: a message can be uploaded and proposed. An owner who may initiate and can pay the two rents opens a
  buffer for any valid message of at most 4096 bytes, committing to its hash and length, sends it in
  chunks, cut in whatever way, and makes the proposal from the buffer, all through the client's builders; the addresses of the
  buffer and of the proposal are not used so far.
  Every one of these calls succeeds. The proposal is Active, without votes, at the next index, and carries exactly the
  message and the vault asked for; the buffer is gone and all its rent is back, so the owner has paid
  exactly the proposal's rent.\<close>

theorem client_upload_proposes:
  fixes message :: client_message
  defines "len \<equiv> length (message_encode message)"
  assumes spec: "create_account_spec ID rt" "create_account_live ID rt" "derive_spec rt derive" "close_spec rt"
      "\<And>v t. \<exists>t'. rt_close rt v t = Inr t'"
    and rent: "rt_rent rt = Inr rent"
      "unat (rent (buf_space len)) + unat (rent (tx_space (length os) len)) \<le> unat (lamports (s creator))"
    and ms: "ms_load (data_ptr (s ms)) (acc_data (s ms)) = Inr (c, os, ps)" "ms_wf c os ps"
      "acc_owner (s ms) = ID"
    and owner: "is_owner os creator = Some i" "ps ! i = 0 \<or> ps ! i AND INITIATE \<noteq> 0"
    and index: "ms_transaction_index c \<noteq> - 1" "index = ms_transaction_index c + 1"
    and msg: "message_fits message" "message_valid message" "len \<le> MAX_MESSAGE_SIZE"
      "length ephemeral \<le> MAX_EPHEMERAL_SIGNERS"
    and chunks: "chunk @ concat chunks = message_encode message" "[] \<notin> set chunks"
    and wallet: "acc_owner (s creator) = system_program" "acc_data (s creator) = []"
    and places: "buf = fst (buffer_address derive ms creator bi)" "tx = fst (transaction_address derive ms index)"
      "distinct [creator, buf, tx]"
    and unused: "\<And>a. a \<in> {buf, tx} \<Longrightarrow> acc_owner (s a) = system_program \<and> acc_data (s a) = [] \<and>
      lamports (s a) = 0 \<and> 8 dvd data_ptr (s a)"
  shows "\<exists>s1 s2 ix s3 h.
     submit rt (buffer_create derive creator ms bi vi (rt_sha256 rt (message_encode message)) (of_nat len) chunk) s
       = Inr s1 \<and>
     fold_result (\<lambda>chunk. submit rt (buffer_extend creator buf chunk)) chunks s1 = Inr s2 \<and>
     create_from_buffer derive creator ms index buf vi ephemeral = Inr ix \<and> submit rt ix s2 = Inr s3 \<and>
     tx_load (data_ptr (s3 tx)) (acc_data (s3 tx))
       = Inr (h, clear_votes (ms_owners_count c), message_encode message) \<and>
     tx_wf h (clear_votes (ms_owners_count c)) (message_encode message) \<and>
     tx_status h = status_to_u8 Active \<and> tx_multisig h = ms \<and> tx_index h = index \<and> tx_vault_index h = vi \<and>
     acc_data (s3 buf) = [] \<and> lamports (s3 buf) = 0 \<and>
     unat (lamports (s3 creator)) + unat (rent (tx_space (length os) len)) = unat (lamports (s creator))"
proof -
  let ?m = "message_encode message" and ?rb = "rent (buf_space len)"
  let ?bump = "snd (transaction_address derive ms index)" and ?vb = "snd (vault_address derive ms vi)"
  have apart: "buf \<noteq> creator" "tx \<noteq> creator" "tx \<noteq> buf" "ms \<noteq> creator" "ms \<noteq> buf" "ms \<noteq> tx"
    using places(3) ms_load_nonempty [OF ms(1)] wallet(2) unused [of buf] unused [of tx] by auto
  have aligned: "4 dvd data_ptr (s buf)" using unused [of buf] by (auto elim: dvd_trans [rotated])
  have at_tx: "rt_pda rt [TRANSACTION_SEED, as_array ms, to_le_bytes 8 (ms_transaction_index c + 1), [?bump]] ID = Some tx"
    using derived [OF spec(3), of "[TRANSACTION_SEED, as_array ms, to_le_bytes 8 index]"]
    by (simp add: places(2) index(2) transaction_address_def client_constants TRANSACTION_SEED_def)
  obtain s1 s2 b where upload:
      "submit rt (buffer_create derive creator ms bi vi (rt_sha256 rt ?m) (of_nat len) chunk) s = Inr s1"
      "fold_result (\<lambda>chunk. submit rt (buffer_extend creator buf chunk)) chunks s1 = Inr s2"
    and b: "buf_load (data_ptr (s2 buf)) (acc_data (s2 buf)) = Inr (b, ?m)" "buf_wf b ?m" "is_complete b"
      "buf_multisig b = ms" "buf_creator b = creator" "buf_final_hash b = rt_sha256 rt ?m" "buf_vault_index b = vi"
      "acc_owner (s2 buf) = ID" "lamports (s2 buf) = ?rb"
    and s2: "s2 creator = (s creator)\<lparr>lamports := lamports (s creator) - ?rb\<rparr>" "s2 ms = s ms" "s2 tx = s tx"
    unfolding len_def
    by (rule client_uploads [OF spec(1-3) rent(1), where s = s and creator = creator and ms = ms and buf = buf
        and bi = bi and vi = vi and chunk = chunk and chunks = chunks and m = ?m and hash = "rt_sha256 rt ?m"])
       (use ms owner msg(3) chunks wallet apart unused [of buf] aligned rent(2)
         in \<open>simp_all add: word_le_nat_alt places(1) [symmetric] len_def\<close>)
  have unpaid: "unat (lamports (s creator) - ?rb) = unat (lamports (s creator)) - unat ?rb"
    using rent(2) by (intro unat_sub) (simp add: word_le_nat_alt)
  obtain ix where ix: "create_from_buffer derive creator ms index buf vi ephemeral = Inr ix"
    "submit rt ix s2 = process_create_from_buffer rt ID [signing creator True, passed ms True, passed tx True,
        passed buf True, passed system_program False]
        (from_buffer_payload ?bump ?vb ephemeral) s2"
    using create_from_buffer_submit [OF msg(4)] unfolding places(2) by metis
  obtain s3 h where "process_create_from_buffer rt ID [signing creator True, passed ms True, passed tx True,
        passed buf True, passed system_program False] (from_buffer_payload ?bump ?vb ephemeral) s2 = Inr s3"
    and "tx_load (data_ptr (s3 tx)) (acc_data (s3 tx)) = Inr (h, clear_votes (ms_owners_count c), ?m)"
      "tx_wf h (clear_votes (ms_owners_count c)) ?m" "tx_status h = status_to_u8 Active" "tx_multisig h = ms"
      "tx_index h = ms_transaction_index c + 1" "tx_vault_index h = buf_vault_index b"
      "acc_data (s3 buf) = []" "lamports (s3 buf) = 0"
      "unat (lamports (s3 creator)) + unat (rent (tx_space (length os) (length ?m)))
         = unat (lamports (s2 creator)) + unat (lamports (s2 buf))"
  proof (rule create_from_buffer_accepts [OF spec(1,2,4,5) rent(1), where s = s2 and creator = creator and ms = ms
      and buf = buf and tx = tx and b = b and region = ?m and bump = ?bump and ephemeral = ephemeral
      and vb = ?vb and c = c and os = os and ps = ps and i = i])
    show "parse ?m = Inr (parsed_message message)" using parse_message_encode [OF msg(1)] msg(2) by simp
    show "unat (lamports (s2 creator)) - unat (rent (tx_space (length os) (length ?m))) + unat (lamports (s2 buf)) < 2 ^ 64"
      using rent(2) unat_less [of "lamports (s creator)"] by (simp add: s2 b(9) unpaid flip: len_def)
    show "rent (tx_space (length os) (length ?m)) \<le> lamports (s2 creator)"
      using rent(2) by (simp add: word_le_nat_alt s2 unpaid flip: len_def)
  qed (use ms owner b apart msg(4) wallet unused [of tx] at_tx index(1) in \<open>simp_all add: s2\<close>)
  then show ?thesis
    using upload ix rent(2) b(7,9) index(2) s2(1) unpaid unfolding len_def [symmetric] by auto
qed
end
