(* ===== verification/Frames.thy ===== *)
theory Frames
  imports Proposal_Life Entrypoint
begin

text \<open>
  What an instruction leaves alone. \<open>kept a s s'\<close>: the account at \<open>a\<close> has the data and the owner it had, and is
  still aligned as it was, to 4 and to 8 bytes. For each handler: which accounts a successful call keeps. The accounts it creates
  were empty, so an account that holds data is never one of them.
\<close>

section \<open>An account left alone\<close>

definition kept :: "address \<Rightarrow> store \<Rightarrow> store \<Rightarrow> bool" where
  "kept a s s' \<longleftrightarrow>
     acc_data (s' a) = acc_data (s a) \<and> acc_owner (s' a) = acc_owner (s a) \<and>
     (\<forall>n \<in> {4, 8}. n dvd data_ptr (s a) \<longrightarrow> n dvd data_ptr (s' a))"

lemma keptI:
  "acc_data (s' a) = acc_data (s a) \<and> acc_owner (s' a) = acc_owner (s a) \<and> data_ptr (s' a) = data_ptr (s a) \<Longrightarrow>
   kept a s s'"
  by (simp add: kept_def)

lemma kept_refl [simp]: "kept a s s"
  by (simp add: kept_def)

lemma kept_trans [trans]: "kept a s s' \<Longrightarrow> kept a s' s'' \<Longrightarrow> kept a s s''"
  by (simp add: kept_def)

lemma kept_writes [simp]:
  "a \<noteq> v_address v \<Longrightarrow> kept a s (set_data v d s)"
  "kept a s (set_lamports v n s)"
  by (simp_all add: kept_def)

lemma kept_loads:
  assumes "kept a s s'"
  shows "ms_load (data_ptr (s a)) (acc_data (s a)) = Inr x \<Longrightarrow> ms_load (data_ptr (s' a)) (acc_data (s' a)) = Inr x"
    and "tx_load (data_ptr (s a)) (acc_data (s a)) = Inr y \<Longrightarrow> tx_load (data_ptr (s' a)) (acc_data (s' a)) = Inr y"
  using assms by (cases x, cases y, auto simp: kept_def ms_load_Inr tx_load_Inr)+

lemma kept_create:
  assumes "create_account_spec pid rt" "rt_create_account rt from to space lam own seeds s = Inr s'" "space \<noteq> 0"
    and "a \<noteq> v_address to"
  shows "kept a s s'"
  by (rule keptI) (rule create_account_others [OF assms])

lemma kept_close_buffer:
  assumes "close_spec rt" "close_buffer rt buffer destination s = Inr s'" "a \<noteq> v_address buffer"
  shows "kept a s s'"
  by (rule keptI) (rule close_buffer_frame [OF assms])

lemma kept_config:
  assumes "resize_spec rt" "transfer_spec rt" "close_spec rt"
    and "apply_config_action rt multisig payer instr via s = Inr s'" "a \<noteq> v_address multisig"
  shows "kept a s s'"
  by (rule keptI) (rule apply_config_action_frame [OF assms])

section \<open>What each instruction leaves alone\<close>

lemma init_multisig_kept:
  assumes spec: "create_account_spec pid rt"
    and run: "process_init_multisig rt pid (creator # create_key # multisig # sp # remaining) instr s = Inr s'"
    and a: "acc_data (s a) \<noteq> []"
  shows "kept a s s'"
proof -
  let ?n = "unat (in_owners_count (init_multisig_data_of instr))"
  from run obtain rent seeds s1 d where n: "?n \<le> MAX_OWNER" and empty: "data_of s multisig = []"
    and create: "rt_create_account rt creator multisig (of_nat (ms_space ?n)) rent pid seeds s = Inr s1"
    and s': "s' = set_data multisig d s1"
    unfolding process_init_multisig_def list.case handler_steps unit_eq by blast
  have differ: "a \<noteq> v_address multisig" using a empty by auto
  have "(of_nat (ms_space ?n) :: u64) \<noteq> 0"
    using n by (intro space_nonzero) (simp_all add: ms_space_def MS_LEN_def MAX_OWNER_def)
  from kept_create [OF spec create this differ] show ?thesis
    using differ by (auto intro: kept_trans simp: s')
qed

lemma init_proposal_kept:
  assumes spec: "create_account_spec pid rt"
    and run: "init_proposal rt pid creator multisig transaction message vi vb bump ec eb s = Inr s'"
    and a: "a \<noteq> v_address multisig" "a \<noteq> v_address transaction"
  shows "kept a s s'"
proof (rule init_proposal_run [OF run])
  fix h :: multisig and os ps i index m minimum_balance s1
  let ?space = "of_nat (tx_space (unat (ms_owners_count h)) (length message)) :: u64"
  assume create: "rt_create_account rt creator transaction ?space
       (minimum_balance (tx_space (unat (ms_owners_count h)) (length message))) pid
       [TRANSACTION_SEED, as_array (v_address multisig), to_le_bytes 8 index, [bump]]
       (set_data multisig (ms_bytes (h\<lparr>ms_transaction_index := index\<rparr>) os ps) s) = Inr s1"
    and nz: "?space \<noteq> 0"
    and s': "s' = set_data transaction (tx_bytes (fresh_transaction (v_address multisig) (v_address creator) index
       (ms_owners_count h) message vi vb bump ec eb) (clear_votes (ms_owners_count h)) message) s1"
  from kept_create [OF spec create nz a(2)] show ?thesis using a by (simp add: kept_def s')
qed

lemma create_transaction_kept:
  assumes spec: "create_account_spec pid rt"
    and run: "process_create_transaction rt pid (creator # multisig # transaction # sp # remaining) instr s = Inr s'"
    and a: "a \<noteq> v_address multisig" "acc_data (s a) \<noteq> []"
  shows "kept a s s'"
proof -
  note init = create_transaction_init(3,4) [OF run]
  have "a \<noteq> v_address transaction" using a(2) init(1) by auto
  with init_proposal_kept [OF spec init(2) a(1)] show ?thesis by blast
qed

lemma create_from_buffer_kept:
  assumes spec: "create_account_spec pid rt" "close_spec rt"
    and run: "process_create_from_buffer rt pid (creator # multisig # transaction # buf # sp # remaining) instr s = Inr s'"
    and a: "a \<noteq> v_address multisig" "a \<noteq> v_address buf" "acc_data (s a) \<noteq> []"
  shows "kept a s s'"
proof (rule create_from_buffer_steps [OF run])
  fix b region s1
  assume "data_of s transaction = []" and close: "close_buffer rt buf creator s1 = Inr s'"
    and init: "init_proposal rt pid creator multisig transaction region (buf_vault_index b)
       (cb_vault_bump (create_from_buffer_data_of instr)) (cb_bump (create_from_buffer_data_of instr))
       (cb_ephemeral_count (create_from_buffer_data_of instr))
       (cb_ephemeral_bumps (create_from_buffer_data_of instr)) s = Inr s1"
  then have "a \<noteq> v_address transaction" using a(3) by auto
  with init_proposal_kept [OF spec(1) init a(1)] have "kept a s s1" by blast
  also from kept_close_buffer [OF spec(2) close a(2)] have "kept a s1 s'" .
  finally show ?thesis .
qed

lemma votes_write:
  "process_approve rt pid (signer # multisig # transaction # remaining) instr s = Inr s' \<or>
   process_reject pid (signer # multisig # transaction # remaining) instr s = Inr s' \<or>
   process_cancel pid (signer # multisig # transaction # remaining) instr s = Inr s' \<Longrightarrow>
   \<exists>d h v m. s' = set_data transaction d s \<and> v_signer signer \<and>
     tx_load (ptr_of s transaction) (data_of s transaction) = Inr (h, v, m) \<and>
     tx_multisig h = v_address multisig"
  unfolding process_approve_def process_reject_def process_cancel_def tx_load_mut_eq
  by (auto simp: and_then_Inr check_votable_Inr prepare_Inr Let_def if_fail_eq_Inr
      split: transaction_status.splits if_splits prod.splits)
     (metis transaction_status.exhaust)+

lemma close_transaction_kept:
  assumes "close_spec rt"
    and run: "process_close_transaction rt pid (transaction # multisig # destination # remaining) instr s = Inr s'"
    and a: "a \<noteq> v_address transaction" "a \<noteq> v_address multisig"
  shows "kept a s s'"
proof -
  obtain s1 collector where c: "count_closure multisig s = Inr (s1, collector)"
    and close: "close_buffer rt transaction destination s1 = Inr s'"
    by (rule close_transaction_run [OF run])
  have "kept a s s1" using c a(2) by (auto simp: count_closure_Inr)
  also from kept_close_buffer [OF assms(1) close a(1)] have "kept a s1 s'" .
  finally show ?thesis .
qed

lemma buffer_create_kept:
  assumes spec: "create_account_spec pid rt"
    and run: "process_buffer_create rt pid (creator # multisig # buf # sp # remaining) instr s = Inr s'"
    and a: "acc_data (s a) \<noteq> []"
  shows "kept a s s'"
proof -
  let ?n = "unat (bc_final_size (buffer_create_data_of instr))"
  from run obtain rent seeds s1 d where n: "?n \<le> MAX_MESSAGE_SIZE" and empty: "data_of s buf = []"
    and create: "rt_create_account rt creator buf (of_nat (buf_space ?n)) rent pid seeds s = Inr s1"
    and s': "s' = set_data buf d s1"
    unfolding process_buffer_create_def list.case handler_steps unit_eq by blast
  have differ: "a \<noteq> v_address buf" using a empty by auto
  have "(of_nat (buf_space ?n) :: u64) \<noteq> 0"
    using n by (intro space_nonzero) (simp_all add: buf_space_def BUF_LEN_def MAX_MESSAGE_SIZE_def)
  from kept_create [OF spec create this differ] show ?thesis
    using differ by (auto intro: kept_trans simp: s')
qed

lemma buffer_extend_kept:
  assumes run: "process_buffer_extend rt pid (creator # buf # remaining) instr s = Inr s'"
    and a: "a \<noteq> v_address buf"
  shows "kept a s s'"
proof -
  from run obtain d where "s' = set_data buf d s"
    unfolding process_buffer_extend_def list.case handler_steps by blast
  with a show ?thesis by simp
qed

lemma buffer_close_kept:
  assumes spec: "close_spec rt"
    and run: "process_buffer_close rt pid (creator # buf # remaining) instr s = Inr s'"
    and a: "a \<noteq> v_address buf"
  shows "kept a s s'"
proof -
  from run have "close_buffer rt buf creator s = Inr s'"
    unfolding process_buffer_close_def list.case handler_steps by blast
  with kept_close_buffer [OF spec _ a] show ?thesis .
qed

lemma set_config_kept:
  assumes spec: "resize_spec rt" "transfer_spec rt" "close_spec rt"
    and run: "process_set_config rt pid (authority # multisig # remaining) instr s = Inr s'"
    and a: "a \<noteq> v_address multisig"
  shows "kept a s s'"
proof -
  from run have "apply_config_action rt multisig authority instr False s = Inr s'"
    unfolding process_set_config_def list.case handler_steps by blast
  with kept_config [OF spec _ a] show ?thesis .
qed

lemma execute_kept:
  assumes spec: "resize_spec rt" "transfer_spec rt" "close_spec rt" "invoke_spec pid rt"
    and run: "process_execute rt pid (executor # multisig # transaction # remaining) instr s = Inr s'"
    and a: "a \<noteq> v_address multisig" "a \<noteq> v_address transaction" "acc_owner (s a) = pid"
  shows "kept a s s'"
proof -
  obtain s1 d m signers ixs where s1: "s1 = set_data transaction d s"
    and loop: "fold_result (execute_instruction rt pid executor multisig remaining m signers) ixs s1 = Inr s'"
    by (rule execute_run [OF run])
  have "acc_owner (s1 a) = pid" using a(3) by (simp add: s1)
  from execute_loop_frame [OF spec loop a(1) this] a(2,3) show ?thesis by (simp add: kept_def s1)
qed

lemma execute_owner:
  assumes rt: "runtime_ok pid rt"
    and run: "process_execute rt pid (executor # multisig # transaction # remaining) instr s = Inr s'"
    and "v_address transaction \<noteq> v_address multisig" "acc_owner (account_of s transaction) = pid"
  shows "acc_owner (account_of s' transaction) = pid"
proof -
  note spec = rt [unfolded runtime_ok_def]
  obtain d s1 msg ixs signers where s1: "s1 = set_data transaction d s"
    and fold: "fold_result (execute_instruction rt pid executor multisig remaining msg signers) ixs s1 = Inr s'"
    by (rule execute_run [OF run])
  have "acc_owner (s1 (v_address transaction)) = pid" using assms(4) by (simp add: s1)
  with execute_loop_frame [OF _ _ _ _ fold] spec assms(3) show ?thesis by blast
qed

section \<open>What a call may write\<close>

text \<open>The existing accounts a call may write; the account it creates held no data.\<close>

definition written :: "view list \<Rightarrow> bytes \<Rightarrow> address set" where
  "written accounts data = (case data of [] \<Rightarrow> {}
     | tag # payload \<Rightarrow> (\<lambda>i. v_address (accounts ! i)) `
         (if tag = 1 \<or> tag = 8 \<or> tag = 9 \<or> tag = 11 then {1}
          else if tag = 2 \<or> tag = 3 \<or> tag = 5 then {2}
          else if tag = 4 then {1, 2} else if tag = 6 then {0, 1} else if tag = 10 then {1, 3} else {}))"

lemma votes_kept:
  assumes "process_approve rt pid (signer # multisig # transaction # remaining) instr s = Inr s' \<or>
      process_reject pid (signer # multisig # transaction # remaining) instr s = Inr s' \<or>
      process_cancel pid (signer # multisig # transaction # remaining) instr s = Inr s'"
    and "a \<noteq> v_address transaction"
  shows "kept a s s'"
  using votes_write [OF assms(1)] assms(2) by auto

lemma call_kept:
  assumes rt: "runtime_ok ID rt" and run: "process_instruction rt ID accounts data s = Inr s'"
    and a: "acc_owner (s a) = ID" "acc_data (s a) \<noteq> []" "a \<notin> written accounts data"
  shows "kept a s s'"
proof -
  note spec = rt [unfolded runtime_ok_def]
  obtain tag payload where data: "data = tag # payload" using run by (cases data) (auto simp: process_instruction_def)
  note w = a(3) [unfolded written_def data]
  from run [unfolded data] show ?thesis
  proof (cases rule: call_cases)
    case init
    with init_multisig_kept [OF _ init(3) a(2)] spec show ?thesis by blast
  next
    case create
    with create_transaction_kept [OF _ create(3) _ a(2)] spec w show ?thesis by simp
  next
    case approve
    with votes_kept [OF disjI1 [OF approve(3)]] w show ?thesis by simp
  next
    case reject
    with votes_kept [OF disjI2 [OF disjI1 [OF reject(3)]]] w show ?thesis by simp
  next
    case execute
    with execute_kept [OF _ _ _ _ execute(3) _ _ a(1)] spec w show ?thesis by simp
  next
    case cancel
    with votes_kept [OF disjI2 [OF disjI2 [OF cancel(3)]]] w show ?thesis by simp
  next
    case close
    with close_transaction_kept [OF _ close(3)] spec w show ?thesis by simp
  next
    case upload
    with buffer_create_kept [OF _ upload(3) a(2)] spec show ?thesis by blast
  next
    case extend
    with buffer_extend_kept [OF extend(3)] w show ?thesis by simp
  next
    case discard
    with buffer_close_kept [OF _ discard(3)] spec w show ?thesis by simp
  next
    case from_buffer
    with create_from_buffer_kept [OF _ _ from_buffer(3) _ _ a(2)] spec w show ?thesis by simp
  next
    case config
    with set_config_kept [OF _ _ _ config(3)] spec w show ?thesis by simp
  qed
qed

end
