(* ===== verification/Config_Moves.thy ===== *)
theory Config_Moves
  imports Frames Proposal_Life
begin

text \<open>
  How a configuration moves while the program runs: \<open>config_moves M s s'\<close> says that the configuration at
  \<open>M\<close> stays one, that its counters only grow, and that a change of its electorate leaves everything
  proposed before it stale. Creating and closing proposals, configuration actions but closing, and executions
  that carry no such closing all move it so.
\<close>

section \<open>Changes of a configuration\<close>

lemma config_action_owner:
  assumes spec: "resize_spec rt" "transfer_spec rt"
    and load: "ms_load (ptr_of s multisig) (data_of s multisig) = Inr (c, os, ps)"
    and run: "apply_config_action rt multisig payer (tag # payload) via s = Inr s'" and "tag \<noteq> 6"
  shows "acc_owner (account_of s' multisig) = acc_owner (account_of s multisig)"
  using run
proof (cases rule: config_action_cases)
  case (add payload')
  from add_owner_effect [OF spec load add(2)] show ?thesis by metis
next
  case (remove payload')
  from remove_owner_effect [OF spec load remove(2)] show ?thesis by metis
next
  case edit
  then show ?thesis by simp
qed (use \<open>tag \<noteq> 6\<close> in simp)

text \<open>How the configuration at \<open>M\<close> may move: it stays a well-formed configuration of the program, its two
  indexes only grow, and either its electorate stays or everything proposed so far is stale.\<close>

definition config_moves :: "address \<Rightarrow> store \<Rightarrow> store \<Rightarrow> bool" where
  "config_moves M s s' \<longleftrightarrow>
     acc_owner (s' M) = acc_owner (s M) \<and>
     (\<forall>c os ps. ms_load (data_ptr (s M)) (acc_data (s M)) = Inr (c, os, ps) \<longrightarrow> ms_wf c os ps \<longrightarrow>
       (\<exists>c' os' ps'. ms_load (data_ptr (s' M)) (acc_data (s' M)) = Inr (c', os', ps') \<and> ms_wf c' os' ps' \<and>
          ms_transaction_index c \<le> ms_transaction_index c' \<and>
          ms_stale_transaction_index c \<le> ms_stale_transaction_index c' \<and>
          (same_electorate (c, os, ps) (c', os', ps') \<or>
           ms_transaction_index c \<le> ms_stale_transaction_index c')))"

lemma kept_moves:
  assumes "kept M s s'" shows "config_moves M s s'"
proof -
  have "acc_owner (s' M) = acc_owner (s M)" using assms by (simp add: kept_def)
  moreover have "same_electorate (c, os, ps) (c, os, ps)" if "ms_wf c os ps" for c os ps
    using that by (simp add: same_electorate_def)
  ultimately show ?thesis unfolding config_moves_def using kept_loads(1) [OF assms] by blast
qed

lemma config_moves_load:
  assumes "ms_load (data_ptr (s M)) (acc_data (s M)) = Inr (c, os, ps)"
    and "ms_load (data_ptr (s' M)) (acc_data (s' M)) = Inr (c', os', ps')" "ms_wf c' os' ps'"
    and "acc_owner (s' M) = acc_owner (s M)"
    and "ms_transaction_index c \<le> ms_transaction_index c'"
    and "ms_stale_transaction_index c \<le> ms_stale_transaction_index c'"
    and "same_electorate (c, os, ps) (c', os', ps') \<or> ms_transaction_index c \<le> ms_stale_transaction_index c'"
  shows "config_moves M s s'"
  using assms by (auto simp: config_moves_def)

lemma config_moves_trans:
  assumes "config_moves M s s'" "config_moves M s' s''"
  shows "config_moves M s s''"
  unfolding config_moves_def
proof (intro conjI allI impI)
  show "acc_owner (s'' M) = acc_owner (s M)" using assms by (simp add: config_moves_def)
next
  fix c os ps
  assume "ms_load (data_ptr (s M)) (acc_data (s M)) = Inr (c, os, ps)" "ms_wf c os ps"
  with assms(1) obtain c1 os1 ps1 where
      1: "ms_load (data_ptr (s' M)) (acc_data (s' M)) = Inr (c1, os1, ps1)" "ms_wf c1 os1 ps1"
      "ms_transaction_index c \<le> ms_transaction_index c1"
      "ms_stale_transaction_index c \<le> ms_stale_transaction_index c1"
      "same_electorate (c, os, ps) (c1, os1, ps1) \<or> ms_transaction_index c \<le> ms_stale_transaction_index c1"
    unfolding config_moves_def by blast
  with assms(2) obtain c2 os2 ps2 where
      2: "ms_load (data_ptr (s'' M)) (acc_data (s'' M)) = Inr (c2, os2, ps2)" "ms_wf c2 os2 ps2"
      "ms_transaction_index c1 \<le> ms_transaction_index c2"
      "ms_stale_transaction_index c1 \<le> ms_stale_transaction_index c2"
      "same_electorate (c1, os1, ps1) (c2, os2, ps2) \<or> ms_transaction_index c1 \<le> ms_stale_transaction_index c2"
    unfolding config_moves_def by blast
  have "same_electorate (c, os, ps) (c2, os2, ps2) \<or> ms_transaction_index c \<le> ms_stale_transaction_index c2"
    using 1(3,5) 2(4,5) by (auto simp: same_electorate_def)
  with 1 2 show "\<exists>c' os' ps'. ms_load (data_ptr (s'' M)) (acc_data (s'' M)) = Inr (c', os', ps') \<and>
      ms_wf c' os' ps' \<and> ms_transaction_index c \<le> ms_transaction_index c' \<and>
      ms_stale_transaction_index c \<le> ms_stale_transaction_index c' \<and>
      (same_electorate (c, os, ps) (c', os', ps') \<or> ms_transaction_index c \<le> ms_stale_transaction_index c')"
    using order_trans by blast
qed

lemma config_action_moves:
  assumes spec: "resize_spec rt" "transfer_spec rt"
    and load: "ms_load (ptr_of s multisig) (data_of s multisig) = Inr (c, os, ps)" "ms_wf c os ps"
    and run: "apply_config_action rt multisig payer instr via s = Inr s'" and other: "take 1 instr \<noteq> [6]"
  shows "config_moves (v_address multisig) s s'"
proof -
  obtain tag payload where i: "instr = tag # payload" "tag \<noteq> 6"
    using run other by (cases instr) (auto simp: apply_config_action_def)
  obtain c' os' ps' where c': "ms_load (ptr_of s' multisig) (data_of s' multisig) = Inr (c', os', ps')"
    "ms_wf c' os' ps'" "ms_stale_transaction_index c' = ms_transaction_index c"
    "ms_transaction_index c' = ms_transaction_index c"
    using config_action_effect [OF spec load run [unfolded i(1)] i(2)] by blast
  moreover have "ms_stale_transaction_index c \<le> ms_transaction_index c"
    using load(2) by (simp add: ms_wf_def ms_invariant_iff)
  ultimately show ?thesis
    using config_action_owner [OF spec load(1) run [unfolded i(1)] i(2)]
    by (intro config_moves_load [where s = s and s' = s' and M = "v_address multisig", OF load(1) c'(1,2)]) simp_all
qed

lemma init_proposal_moves:
  assumes create: "create_account_spec pid rt"
      "init_proposal rt pid creator multisig transaction m vi vb bump ec eb s = Inr s'"
      "data_of s transaction = []"
    and ms: "ms_load (ptr_of s multisig) (data_of s multisig) = Inr (c, os, ps)" "ms_wf c os ps"
  shows "config_moves (v_address multisig) s s'"
proof -
  obtain t :: transaction where t: "unat (tx_index t) = Suc (unat (ms_transaction_index c))"
    "ms_load (ptr_of s' multisig) (data_of s' multisig) = Inr (c\<lparr>ms_transaction_index := tx_index t\<rparr>, os, ps)"
    "ms_wf (c\<lparr>ms_transaction_index := tx_index t\<rparr>) os ps"
    "acc_owner (account_of s' multisig) = acc_owner (account_of s multisig)"
    by (rule created_life_inv [OF create ms])
  then show ?thesis
    by (intro config_moves_load [where s = s and s' = s' and M = "v_address multisig", OF ms(1) t(2,3)]) (simp_all add: same_electorate_def word_le_nat_alt)
qed

lemma close_transaction_moves:
  assumes spec: "close_spec rt"
    and run: "process_close_transaction rt pid (transaction # multisig # destination # remaining) instr s = Inr s'"
    and differ: "v_address multisig \<noteq> v_address transaction"
    and ms: "ms_load (ptr_of s multisig) (data_of s multisig) = Inr (c, os, ps)" "ms_wf c os ps"
  shows "config_moves (v_address multisig) s s'"
proof -
  obtain s1 collector where closure: "count_closure multisig s = Inr (s1, collector)"
    and close: "close_buffer rt transaction destination s1 = Inr s'"
    by (rule close_transaction_run [OF run])
  let ?c = "\<lambda>n. c\<lparr>ms_closed_transaction_count := n\<rparr>"
  obtain n where n: "ms_invariant (?c n) = Inr ()" and s1: "s1 = set_data multisig (ms_bytes (?c n) os ps) s"
    using closure ms(1) by (auto simp: count_closure_Inr)
  have k: "kept (v_address multisig) s1 s'" by (rule kept_close_buffer [OF spec close differ])
  have wf: "ms_wf (?c n) os ps" using ms(2) n by (simp add: ms_wf_def)
  have "ms_load (ptr_of s' multisig) (data_of s' multisig) = Inr (?c n, os, ps)"
    using ms(1) by (intro kept_loads(1) [OF k]) (simp add: s1 ms_load_Inr)
  then show ?thesis
    using k wf by (intro config_moves_load [where s = s and s' = s' and M = "v_address multisig", OF ms(1) _ wf]) (simp_all add: same_electorate_def kept_def s1)
qed


text \<open>The proposal at \<open>transaction\<close> carries the action that closes its configuration.\<close>

definition carries_close :: "address \<Rightarrow> store \<Rightarrow> view \<Rightarrow> view list \<Rightarrow> bool" where
  "carries_close pid s transaction views \<longleftrightarrow>
     (\<exists>h v hd keys ixs lks.
        tx_load (ptr_of s transaction) (data_of s transaction) = Inr (h, v, encode_message hd keys ixs lks) \<and>
        message_ok hd keys ixs lks \<and>
        (\<exists>ix \<in> set ixs. v_address (views ! unat (ci_program_id_index ix)) = pid \<and> take 1 (ci_data ix) = [6]))"

definition configured :: "address \<Rightarrow> address \<Rightarrow> store \<Rightarrow> bool" where
  "configured pid M s \<longleftrightarrow> acc_owner (s M) = pid \<and>
     (\<exists>c os ps. ms_load (data_ptr (s M)) (acc_data (s M)) = Inr (c, os, ps) \<and> ms_wf c os ps)"

lemma configured_moves: "configured pid M s \<Longrightarrow> config_moves M s s' \<Longrightarrow> configured pid M s'"
  unfolding configured_def config_moves_def by metis

section \<open>Relations that every action keeps\<close>

text \<open>What holds between the configuration before and after every call that leaves it alone and every
  configuration action but the closing one holds across an execution that carries no such closing.\<close>

locale config_relation =
  fixes R :: "address \<Rightarrow> store \<Rightarrow> store \<Rightarrow> bool"
  assumes of_kept: "kept M s s' \<Longrightarrow> R M s s'"
    and compose: "R M s s' \<Longrightarrow> R M s' s'' \<Longrightarrow> R M s s''"
    and stays: "configured pid M s \<Longrightarrow> R M s s' \<Longrightarrow> configured pid M s'"
    and changed: "resize_spec rt \<Longrightarrow> transfer_spec rt \<Longrightarrow> configured pid (v_address multisig) s \<Longrightarrow>
      apply_config_action rt multisig payer instr via s = Inr s' \<Longrightarrow> take 1 instr \<noteq> [6] \<Longrightarrow>
      R (v_address multisig) s s'"
begin

lemma instruction:
  assumes spec: "resize_spec rt" "transfer_spec rt" "invoke_spec pid rt"
    and run: "execute_instruction rt pid executor multisig views m signers ix s = Inr s'"
    and config: "configured pid (v_address multisig) s"
    and other: "v_address (views ! unat (ci_program_id_index ix)) = pid \<Longrightarrow> take 1 (ci_data ix) \<noteq> [6]"
  shows "R (v_address multisig) s s'"
proof -
  from run consider (action) "v_address (views ! unat (ci_program_id_index ix)) = pid"
      "apply_config_action rt multisig executor (ci_data ix) True s = Inr s'"
    | (cpi) i vs where "rt_invoke rt i vs signers s = Inr s'"
    by (auto simp: execute_instruction_def Let_def and_then_Inr if_fail_eq_Inr index_of_Inr split: if_splits)
  then show ?thesis
  proof cases
    case action
    from changed [OF spec(1,2) config action(2) other [OF action(1)]] show ?thesis .
  next
    case cpi
    with spec(3) config have "kept (v_address multisig) s s'"
      unfolding invoke_spec_def configured_def by (intro keptI) metis
    then show ?thesis by (rule of_kept)
  qed
qed

lemma instructions:
  assumes spec: "resize_spec rt" "transfer_spec rt" "invoke_spec pid rt"
    and run: "fold_result (execute_instruction rt pid executor multisig views m signers) ixs s = Inr s'"
    and config: "configured pid (v_address multisig) s"
    and other: "\<And>ix. ix \<in> set ixs \<Longrightarrow> v_address (views ! unat (ci_program_id_index ix)) = pid \<Longrightarrow>
      take 1 (ci_data ix) \<noteq> [6]"
  shows "R (v_address multisig) s s' \<and> configured pid (v_address multisig) s'"
proof (rule fold_result_invariant [OF run, of "\<lambda>t. R (v_address multisig) s t \<and> configured pid (v_address multisig) t"])
  show "R (v_address multisig) s s \<and> configured pid (v_address multisig) s" using config of_kept by simp
  fix ix t u
  assume ix: "ix \<in> set ixs" and t: "R (v_address multisig) s t \<and> configured pid (v_address multisig) t"
    and step: "execute_instruction rt pid executor multisig views m signers ix t = Inr u"
  have "R (v_address multisig) t u" using t by (intro instruction [OF spec step] other [OF ix]) simp_all
  with t show "R (v_address multisig) s u \<and> configured pid (v_address multisig) u" using compose stays by blast
qed

lemma execution:
  assumes spec: "resize_spec rt" "transfer_spec rt" "invoke_spec pid rt"
    and run: "process_execute rt pid (executor # multisig # transaction # remaining) instr s = Inr s'"
    and config: "configured pid (v_address multisig) s"
    and differ: "v_address multisig \<noteq> v_address transaction"
    and other: "\<not> carries_close pid s transaction remaining"
  shows "R (v_address multisig) s s'"
proof -
  obtain h v m s1 hd keys ixs lks signers where
      load: "tx_load (ptr_of s transaction) (data_of s transaction) = Inr (h, v, m)"
    and s1: "s1 = set_data transaction (tx_bytes (h\<lparr>tx_status := status_to_u8 Executed\<rparr>) v m) s"
    and m: "m = encode_message hd keys ixs lks" "message_ok hd keys ixs lks"
    and fold: "fold_result (execute_instruction rt pid executor multisig remaining
       (message_of hd keys ixs lks) signers) ixs s1 = Inr s'"
    by (rule execute_run [OF run])
  have start: "R (v_address multisig) s s1" using differ by (intro of_kept) (simp add: s1)
  have no: "take 1 (ci_data ix) \<noteq> [6]"
    if "ix \<in> set ixs" "v_address (remaining ! unat (ci_program_id_index ix)) = pid" for ix
    using other load m that unfolding carries_close_def by blast
  from instructions [OF spec fold stays [OF config start] no] compose [OF start] show ?thesis by blast
qed

end

interpretation moves: config_relation config_moves
proof unfold_locales
  fix rt pid multisig s payer instr via s'
  assume "resize_spec rt" "transfer_spec rt" "configured pid (v_address multisig) s"
    "apply_config_action rt multisig payer instr via s = Inr s'" "take 1 instr \<noteq> [6]"
  then show "config_moves (v_address multisig) s s'"
    using config_action_moves unfolding configured_def by blast
qed (use kept_moves config_moves_trans configured_moves in blast)+

text \<open>The proposals made and the proposals closed, as the configuration at \<open>M\<close> counts them, stay.\<close>

definition counts_stay :: "address \<Rightarrow> store \<Rightarrow> store \<Rightarrow> bool" where
  "counts_stay M s s' \<longleftrightarrow>
     acc_owner (s' M) = acc_owner (s M) \<and>
     (\<forall>c os ps. ms_load (data_ptr (s M)) (acc_data (s M)) = Inr (c, os, ps) \<longrightarrow> ms_wf c os ps \<longrightarrow>
       (\<exists>c' os' ps'. ms_load (data_ptr (s' M)) (acc_data (s' M)) = Inr (c', os', ps') \<and> ms_wf c' os' ps' \<and>
          ms_transaction_index c' = ms_transaction_index c \<and>
          ms_closed_transaction_count c' = ms_closed_transaction_count c))"

interpretation counts: config_relation counts_stay
proof unfold_locales
  show "counts_stay M s s'" if "kept M s s'" for M s s'
    using kept_loads(1) [OF that] that unfolding counts_stay_def kept_def by blast
  show "counts_stay M s s''" if "counts_stay M s s'" "counts_stay M s' s''" for M s s' s''
    using that unfolding counts_stay_def by metis
  show "configured pid M s'" if "configured pid M s" "counts_stay M s s'" for pid M s s'
    using that unfolding configured_def counts_stay_def by metis
next
  fix rt pid multisig s payer instr via s'
  assume spec: "resize_spec rt" "transfer_spec rt" and config: "configured pid (v_address multisig) s"
    and run: "apply_config_action rt multisig payer instr via s = Inr s'" and other: "take 1 instr \<noteq> [6]"
  obtain tag payload where i: "instr = tag # payload" "tag \<noteq> 6"
    using run other by (cases instr) (auto simp: apply_config_action_def)
  from config obtain c os ps where load: "ms_load (ptr_of s multisig) (data_of s multisig) = Inr (c, os, ps)"
    "ms_wf c os ps" unfolding configured_def by blast
  show "counts_stay (v_address multisig) s s'"
    using config_action_owner [OF spec load(1) run [unfolded i(1)] i(2)]
      config_action_effect [OF spec load run [unfolded i(1)] i(2)] load
    unfolding counts_stay_def by auto
qed

text \<open>An execution that carries the closing of its configuration succeeds only where every other proposal is closed.\<close>

lemma closing_execution_counts:
  assumes spec: "runtime_ok pid rt"
    and run: "process_execute rt pid (executor # multisig # transaction # remaining) instr s = Inr s'"
    and ms: "ms_load (ptr_of s multisig) (data_of s multisig) = Inr (c, os, ps)" "ms_wf c os ps"
    and differ: "v_address multisig \<noteq> v_address transaction"
    and closes: "carries_close pid s transaction remaining"
  shows "unat (ms_closed_transaction_count c) + 1 = unat (ms_transaction_index c)"
proof -
  note spec = spec [unfolded runtime_ok_def]
  let ?M = "v_address multisig"
  let ?closing = "\<lambda>ix. v_address (remaining ! unat (ci_program_id_index ix)) = pid \<and> take 1 (ci_data ix) = [6]"
  obtain h v m s1 hd keys ixs lks signers where own: "acc_owner (account_of s multisig) = pid"
    and load: "tx_load (ptr_of s transaction) (data_of s transaction) = Inr (h, v, m)"
    and s1: "s1 = set_data transaction (tx_bytes (h\<lparr>tx_status := status_to_u8 Executed\<rparr>) v m) s"
    and m: "m = encode_message hd keys ixs lks" "message_ok hd keys ixs lks"
    and acc: "check_accounts s1 remaining (message_of hd keys ixs lks) = Inr ()"
    and fold: "fold_result (execute_instruction rt pid executor multisig remaining
       (message_of hd keys ixs lks) signers) ixs s1 = Inr s'"
    by (rule execute_run [OF run])
  have "\<exists>ix \<in> set ixs. ?closing ix"
    using closes load encode_message_inj [OF m(2)] unfolding carries_close_def m(1) by auto
  then obtain before ix after where ixs: "ixs = before @ ix # after" and ix: "?closing ix"
    and first: "\<And>i. i \<in> set before \<Longrightarrow> \<not> ?closing i"
    using split_list_first_prop [of ixs ?closing] by blast
  have split: "fold_result b ixs = fold_result b (before @ ix # after)" for b :: "compiled_instruction \<Rightarrow> store \<Rightarrow> store result"
    by (simp only: ixs)
  obtain s2 s3 where before: "fold_result (execute_instruction rt pid executor multisig remaining
       (message_of hd keys ixs lks) signers) before s1 = Inr s2"
    and step: "execute_instruction rt pid executor multisig remaining (message_of hd keys ixs lks) signers ix s2 = Inr s3"
    using fold unfolding split fold_result_append by (auto simp: and_then_Inr)
  have ms1: "ms_load (ptr_of s1 multisig) (data_of s1 multisig) = Inr (c, os, ps)"
    "configured pid ?M s1" using own ms differ unfolding configured_def by (simp_all add: s1)
  have "counts_stay ?M s1 s2"
    using counts.instructions [OF _ _ _ before ms1(2)] first spec by blast
  with ms1 ms(2) obtain c' os' ps' where
      c': "ms_load (ptr_of s2 multisig) (data_of s2 multisig) = Inr (c', os', ps')"
      "ms_transaction_index c' = ms_transaction_index c" "ms_closed_transaction_count c' = ms_closed_transaction_count c"
    unfolding counts_stay_def by blast
  obtain payload where data: "ci_data ix = 6 # payload" using ix by (cases "ci_data ix") auto
  have "apply_config_action rt multisig executor (6 # payload) True s2 = Inr s3"
    using step ix data by (auto simp: execute_instruction_def Let_def and_then_Inr if_fail_eq_Inr index_of_Inr split: if_splits)
  then have "close_multisig rt multisig executor payload True s2 = Inr s3"
    by (simp add: apply_config_action_def config_action_from_u8_def)
  then have "only_executing_transaction_open c'"
    unfolding close_multisig_def c'(1) by (auto simp: and_then_Inr if_fail_eq_Inr Let_def split: if_splits)
  then show ?thesis
    using checked_add_Some [of "ms_closed_transaction_count c'" 1] c'(2,3)
    by (simp add: only_executing_transaction_open_def)
qed

end
