(* ===== verification/Progress.thy ===== *)
theory Progress
  imports Proposal_Life Opening
begin

text \<open>
  The guards are exact, and enough. The other theories say what a call that succeeds has checked; here
  it is shown that nothing else is needed: on well-formed accounts a vote is accepted precisely when its
  guards hold, a creation succeeds for an owner who can pay, and a proposal made and approved
  through the builders of src/client.rs by a threshold of voters becomes Approved.
\<close>

section \<open>Room for one more vote\<close>

lemma votes_room:
  assumes wf: "tx_wf h v m" and i: "i < unat (tx_owners_count h)" "\<not> has_voted v i"
  shows "unat (tx_approved_count h) + unat (tx_rejected_count h) < unat (tx_owners_count h)"
proof -
  let ?n = "unat (tx_owners_count h)"
  let ?A = "{j. bitmap_get (v_approved v) j}" and ?R = "{j. bitmap_get (v_rejected v) j}"
  have "card (?A \<union> ?R) \<le> card ({..<?n} - {i})"
    using wf i by (intro card_mono) (auto simp: tx_wf_def has_voted_def)
  also have "\<dots> < ?n" using i(1) by simp
  finally have "card (?A \<union> ?R) < ?n" .
  moreover have "card (?A \<union> ?R) = card ?A + card ?R"
    using wf by (intro card_Un_disjoint finite_bitmap) (auto simp: tx_wf_def)
  ultimately show ?thesis using wf by (simp add: tx_wf_def bitmap_count_card)
qed

lemma cancel_room:
  assumes wf: "tx_wf h v m" and i: "i < unat (tx_owners_count h)" "\<not> bitmap_get (v_cancelled v) i"
  shows "unat (tx_cancelled_count h) < unat (tx_owners_count h)"
proof -
  let ?n = "unat (tx_owners_count h)" and ?C = "{j. bitmap_get (v_cancelled v) j}"
  have "card ?C \<le> card ({..<?n} - {i})"
    using wf i by (intro card_mono) (auto simp: tx_wf_def)
  also have "\<dots> < ?n" using i(1) by simp
  finally show ?thesis using wf by (simp add: tx_wf_def bitmap_count_card)
qed

text \<open>The bit of an owner's position that is clear can be set.\<close>

lemma fresh_bit:
  assumes "votes_fit h v" "i < unat (tx_owners_count h)"
  shows "\<not> bitmap_get (v_approved v) i \<Longrightarrow> \<exists>bits. bitmap_set (v_approved v) i = (bits, True)"
    and "\<not> bitmap_get (v_rejected v) i \<Longrightarrow> \<exists>bits. bitmap_set (v_rejected v) i = (bits, True)"
    and "\<not> bitmap_get (v_cancelled v) i \<Longrightarrow> \<exists>bits. bitmap_set (v_cancelled v) i = (bits, True)"
  using assms bitmap_set_fresh_iff [OF assms(2)] by (simp_all add: votes_fit_def)


section \<open>The guards of a vote are exact\<close>

text \<open>What any vote needs, whatever it is: the right accounts, a signature, a proposal of this multisig
  that is not stale.\<close>

definition vote_allowed ::
  "address \<Rightarrow> store \<Rightarrow> view \<Rightarrow> view \<Rightarrow> view \<Rightarrow> bytes \<Rightarrow> multisig \<Rightarrow> transaction \<Rightarrow> bool" where
  "vote_allowed pid s signer multisig transaction instr c h \<longleftrightarrow>
     instr = [] \<and> v_signer signer \<and> acc_owner (account_of s multisig) = pid \<and>
     acc_owner (account_of s transaction) = pid \<and> tx_multisig h = v_address multisig \<and>
     ms_stale_transaction_index c < tx_index h \<and> tx_owners_count h = ms_owners_count c"

lemma prepare_eq:
  assumes "vote_allowed pid s signer multisig transaction instr c h"
    and "ms_load (ptr_of s multisig) (data_of s multisig) = Inr (c, os, ps)"
    and "is_owner os (v_address signer) = Some i" "req \<Longrightarrow> mask_can_vote (ps ! i)"
  shows "prepare pid signer multisig transaction instr req s = Inr
     \<lparr>vt_index = i, vt_threshold = ms_threshold c, vt_cutoff = cutoff c,
      vt_owners_count = ms_owners_count c, vt_stale_index = ms_stale_transaction_index c,
      vt_can_vote = mask_can_vote (ps ! i)\<rparr>"
  using assms by (auto simp: prepare_Inr vote_allowed_def)

lemma check_votable_eq:
  assumes "vote_allowed pid s signer multisig transaction instr c h" "tx_status h = status_to_u8 st"
    and "vt_stale_index vt = ms_stale_transaction_index c" "vt_owners_count vt = ms_owners_count c"
  shows "check_votable h multisig vt st = Inr ()"
  using assms by (simp add: check_votable_Inr vote_allowed_def)

text \<open>A voter's position, and what its bit says.\<close>

lemma voter_slot:
  assumes "vote_allowed pid s signer multisig transaction instr c h"
    and "ms_load p d = Inr (c, os, ps)" "ms_wf c os ps" "a \<in> voter_set os ps"
  obtains i where "is_owner os a = Some i" "mask_can_vote (ps ! i)" "i < unat (tx_owners_count h)"
    "\<And>bits. a \<in> cast_by os bits \<longleftrightarrow> bitmap_get bits i"
proof -
  obtain j where j: "j < length os" "os ! j = a" "mask_can_vote (ps ! j)"
    using assms(4) by (auto simp: voter_set_iff)
  have d: "distinct os" "ascending os" using assms(3) by (simp_all add: ms_wf_def ascending_distinct)
  obtain i where i: "is_owner os a = Some i"
    using is_owner_iff [OF d(2), of a] j by auto
  note l = loaded_owner [OF assms(2) i]
  have "i = j" using l j d(1) by (metis nth_eq_iff_index_eq)
  moreover have "a \<in> cast_by os bits \<longleftrightarrow> bitmap_get bits i" for bits
    using l d(1) by (auto simp: cast_by_def nth_eq_iff_index_eq)
  moreover have "i < unat (tx_owners_count h)" using l assms(1) by (simp add: vote_allowed_def)
  ultimately show thesis using i j(3) by (intro that) simp_all
qed

lemma approve_accepts:
  assumes ok: "vote_allowed pid s owner multisig transaction instr c h" "tx_status h = status_to_u8 Active"
    and ms: "ms_load (ptr_of s multisig) (data_of s multisig) = Inr (c, os, ps)" "ms_wf c os ps"
    and tx: "tx_load (ptr_of s transaction) (data_of s transaction) = Inr (h, v, m)" "tx_wf h v m"
    and a: "v_address owner \<in> voter_set os ps"
      "v_address owner \<notin> cast_by os (v_approved v) \<union> cast_by os (v_rejected v) \<union> cast_by os (v_cancelled v)"
    and clock: "ms_threshold c \<le> tx_approved_count h + 1 \<Longrightarrow> \<exists>now. rt_clock rt = Inr now"
  shows "\<exists>s'. process_approve rt pid (owner # multisig # transaction # remaining) instr s = Inr s'"
proof -
  obtain i where i: "is_owner os (v_address owner) = Some i" "mask_can_vote (ps ! i)"
    and n: "i < unat (tx_owners_count h)"
    and bit: "\<And>bits. v_address owner \<in> cast_by os bits \<longleftrightarrow> bitmap_get bits i"
    by (rule voter_slot [OF ok(1) ms a(1)]) (rule that)
  have fresh: "\<not> has_voted v i" using a(2) by (simp add: has_voted_def bit)
  then obtain bits where bits: "bitmap_set (v_approved v) i = (bits, True)"
    using fresh_bit(1) [OF _ n, of v] tx(2) by (auto simp: has_voted_def tx_wf_def)
  have count: "unat (tx_approved_count h + 1) = Suc (unat (tx_approved_count h))"
    using tx_wf_counts(1) [OF tx(2)] by (rule count_plus_1)
  have inv: "tx_invariant (h\<lparr>tx_approved_count := tx_approved_count h + 1\<rparr>) = Inr ()"
    "tx_invariant (latch_approved (h\<lparr>tx_approved_count := tx_approved_count h + 1\<rparr>) now) = Inr ()" for now
    using tx(2) votes_room [OF tx(2) n fresh] count
    by (auto simp: tx_wf_def tx_invariant_iff latch_approved_def simp del: status_to_u8.simps)
  show ?thesis
    using clock inv unfolding process_approve_def list.case tx_load_mut_eq tx prepare_eq [OF ok(1) ms(1) i]
    by (auto simp: check_votable_eq [OF ok] fresh bits Let_def)
qed


lemma reject_accepts:
  assumes ok: "vote_allowed pid s owner multisig transaction instr c h" "tx_status h = status_to_u8 Active"
    and ms: "ms_load (ptr_of s multisig) (data_of s multisig) = Inr (c, os, ps)" "ms_wf c os ps"
    and tx: "tx_load (ptr_of s transaction) (data_of s transaction) = Inr (h, v, m)" "tx_wf h v m"
    and a: "v_address owner \<in> voter_set os ps"
      "v_address owner \<notin> cast_by os (v_approved v) \<union> cast_by os (v_rejected v) \<union> cast_by os (v_cancelled v)"
  shows "\<exists>s'. process_reject pid (owner # multisig # transaction # remaining) instr s = Inr s'"
proof -
  obtain i where i: "is_owner os (v_address owner) = Some i" "mask_can_vote (ps ! i)"
    and n: "i < unat (tx_owners_count h)"
    and bit: "\<And>bits. v_address owner \<in> cast_by os bits \<longleftrightarrow> bitmap_get bits i"
    by (rule voter_slot [OF ok(1) ms a(1)]) (rule that)
  have fresh: "\<not> has_voted v i" using a(2) by (simp add: has_voted_def bit)
  then obtain bits where bits: "bitmap_set (v_rejected v) i = (bits, True)"
    using fresh_bit(2) [OF _ n, of v] tx(2) by (auto simp: has_voted_def tx_wf_def)
  have count: "unat (tx_rejected_count h + 1) = Suc (unat (tx_rejected_count h))"
    using tx_wf_counts(2) [OF tx(2)] by (rule count_plus_1)
  have inv: "tx_invariant (h\<lparr>tx_rejected_count := tx_rejected_count h + 1\<rparr>) = Inr ()"
    "tx_invariant (h\<lparr>tx_rejected_count := tx_rejected_count h + 1, tx_status := status_to_u8 Rejected\<rparr>) = Inr ()"
    using tx(2) votes_room [OF tx(2) n fresh] count
    by (auto simp: tx_wf_def tx_invariant_iff simp del: status_to_u8.simps)
  show ?thesis
    using inv unfolding process_reject_def list.case tx_load_mut_eq tx prepare_eq [OF ok(1) ms(1) i]
    by (auto simp: check_votable_eq [OF ok] fresh bits Let_def simp del: status_to_u8.simps)
qed

lemma cancel_accepts_creator:
  assumes ok: "vote_allowed pid s signer multisig transaction instr c h" "tx_status h = status_to_u8 Active"
    and ms: "ms_load (ptr_of s multisig) (data_of s multisig) = Inr (c, os, ps)" "ms_wf c os ps"
    and tx: "tx_load (ptr_of s transaction) (data_of s transaction) = Inr (h, v, m)" "tx_wf h v m"
    and a: "v_address signer \<in> set os" "tx_creator h = v_address signer"
  shows "\<exists>s'. process_cancel pid (signer # multisig # transaction # remaining) instr s = Inr s'"
proof -
  obtain i where i: "is_owner os (v_address signer) = Some i"
    using is_owner_iff [of os "v_address signer"] ms(2) a(1) by (auto simp: ms_wf_def)
  have inv: "tx_invariant (h\<lparr>tx_status := status_to_u8 Cancelled\<rparr>) = Inr ()"
    using tx(2) by (auto simp: tx_wf_def tx_invariant_iff simp del: status_to_u8.simps)
  have st: "status_from_u8 (tx_status h) = Inr Active" using ok(2) by (simp only: status_from_u8_Inr)
  have p: "prepare pid signer multisig transaction instr False s = Inr
     \<lparr>vt_index = i, vt_threshold = ms_threshold c, vt_cutoff = cutoff c,
      vt_owners_count = ms_owners_count c, vt_stale_index = ms_stale_transaction_index c,
      vt_can_vote = mask_can_vote (ps ! i)\<rparr>"
    by (rule prepare_eq [OF ok(1) ms(1) i]) simp
  show ?thesis
    using inv a(2) unfolding process_cancel_def list.case tx_load_mut_eq tx p
    by (auto simp: st check_votable_eq [OF ok] Let_def simp del: status_to_u8.simps)
qed

lemma cancel_accepts_voter:
  assumes ok: "vote_allowed pid s signer multisig transaction instr c h" "tx_status h = status_to_u8 Approved"
    and ms: "ms_load (ptr_of s multisig) (data_of s multisig) = Inr (c, os, ps)" "ms_wf c os ps"
    and tx: "tx_load (ptr_of s transaction) (data_of s transaction) = Inr (h, v, m)" "tx_wf h v m"
    and a: "v_address signer \<in> voter_set os ps" "v_address signer \<notin> cast_by os (v_cancelled v)"
  shows "\<exists>s'. process_cancel pid (signer # multisig # transaction # remaining) instr s = Inr s'"
proof -
  obtain i where i: "is_owner os (v_address signer) = Some i" "mask_can_vote (ps ! i)"
    and n: "i < unat (tx_owners_count h)"
    and bit: "\<And>bits. v_address signer \<in> cast_by os bits \<longleftrightarrow> bitmap_get bits i"
    by (rule voter_slot [OF ok(1) ms a(1)]) (rule that)
  have fresh: "\<not> bitmap_get (v_cancelled v) i" using a(2) by (simp add: bit)
  then obtain bits where bits: "bitmap_set (v_cancelled v) i = (bits, True)"
    using fresh_bit(3) [OF _ n, of v] tx(2) by (auto simp: tx_wf_def)
  have count: "unat (tx_cancelled_count h + 1) = Suc (unat (tx_cancelled_count h))"
    using tx_wf_counts(3) [OF tx(2)] by (rule count_plus_1)
  have inv: "tx_invariant (h\<lparr>tx_cancelled_count := tx_cancelled_count h + 1\<rparr>) = Inr ()"
    "tx_invariant (h\<lparr>tx_cancelled_count := tx_cancelled_count h + 1, tx_status := status_to_u8 Cancelled\<rparr>) = Inr ()"
    using tx(2) cancel_room [OF tx(2) n fresh] count
    by (auto simp: tx_wf_def tx_invariant_iff simp del: status_to_u8.simps)
  have st: "status_from_u8 (tx_status h) = Inr Approved" using ok(2) by (simp only: status_from_u8_Inr)
  show ?thesis
    using inv i(2) unfolding process_cancel_def list.case tx_load_mut_eq tx prepare_eq [OF ok(1) ms(1) i]
    by (auto simp: st check_votable_eq [OF ok] fresh bits Let_def simp del: status_to_u8.simps)
qed


lemma voted_bit:
  assumes "ms_load p d = Inr (c, os, ps)" "ms_wf c os ps" "is_owner os a = Some i"
  shows "a \<in> cast_by os bits \<longleftrightarrow> bitmap_get bits i"
  using loaded_owner [OF assms(1,3)] assms(2)
  by (auto simp: cast_by_def ms_wf_def nth_eq_iff_index_eq ascending_distinct)

lemma owner_listed: "ms_load p d = Inr (c, os, ps) \<Longrightarrow> is_owner os a = Some i \<Longrightarrow> a \<in> set os"
  using loaded_owner [of p d c os ps a i] by auto

lemma approve_accepted_iff:
  assumes ms: "ms_load (ptr_of s multisig) (data_of s multisig) = Inr (c, os, ps)" "ms_wf c os ps"
    and tx: "tx_load (ptr_of s transaction) (data_of s transaction) = Inr (h, v, m)" "tx_wf h v m"
  shows "(\<exists>s'. process_approve rt pid (signer # multisig # transaction # remaining) instr s = Inr s') \<longleftrightarrow>
       vote_allowed pid s signer multisig transaction instr c h \<and> tx_status h = status_to_u8 Active \<and>
       v_address signer \<in> voter_set os ps - (cast_by os (v_approved v) \<union> cast_by os (v_rejected v) \<union>
         cast_by os (v_cancelled v)) \<and>
       (ms_threshold c \<le> tx_approved_count h + 1 \<longrightarrow> (\<exists>now. rt_clock rt = Inr now))"
  (is "(\<exists>s'. ?run s') \<longleftrightarrow> ?guards")
proof
  assume "\<exists>s'. ?run s'"
  then obtain s' where run: "?run s'" by blast
  show ?guards
    by (rule approve_run [OF run ms(1) tx(1)])
       (auto simp: vote_allowed_def has_voted_def voted_bit [OF ms] owner_votes [OF ms(1)]
          split: if_splits simp del: status_to_u8.simps)
next
  assume ?guards
  then show "\<exists>s'. ?run s'" by (intro approve_accepts [OF _ _ ms tx]) auto
qed

lemma reject_accepted_iff:
  assumes ms: "ms_load (ptr_of s multisig) (data_of s multisig) = Inr (c, os, ps)" "ms_wf c os ps"
    and tx: "tx_load (ptr_of s transaction) (data_of s transaction) = Inr (h, v, m)" "tx_wf h v m"
  shows "(\<exists>s'. process_reject pid (signer # multisig # transaction # remaining) instr s = Inr s') \<longleftrightarrow>
       vote_allowed pid s signer multisig transaction instr c h \<and> tx_status h = status_to_u8 Active \<and>
       v_address signer \<in> voter_set os ps - (cast_by os (v_approved v) \<union> cast_by os (v_rejected v) \<union>
         cast_by os (v_cancelled v))"
  (is "(\<exists>s'. ?run s') \<longleftrightarrow> ?guards")
proof
  assume "\<exists>s'. ?run s'"
  then obtain s' where run: "?run s'" by blast
  show ?guards
    by (rule reject_run [OF run ms(1) tx(1)])
       (auto simp: vote_allowed_def has_voted_def voted_bit [OF ms] owner_votes [OF ms(1)]
          simp del: status_to_u8.simps)
next
  assume ?guards
  then show "\<exists>s'. ?run s'" by (intro reject_accepts [OF _ _ ms tx]) auto
qed

lemma cancel_accepted_iff:
  assumes ms: "ms_load (ptr_of s multisig) (data_of s multisig) = Inr (c, os, ps)" "ms_wf c os ps"
    and tx: "tx_load (ptr_of s transaction) (data_of s transaction) = Inr (h, v, m)" "tx_wf h v m"
  shows "(\<exists>s'. process_cancel pid (signer # multisig # transaction # remaining) instr s = Inr s') \<longleftrightarrow>
       vote_allowed pid s signer multisig transaction instr c h \<and>
       (tx_status h = status_to_u8 Active \<and> tx_creator h = v_address signer \<and> v_address signer \<in> set os \<or>
        tx_status h = status_to_u8 Approved \<and>
        v_address signer \<in> voter_set os ps - cast_by os (v_cancelled v))"
  (is "(\<exists>s'. ?run s') \<longleftrightarrow> ?guards")
proof
  assume "\<exists>s'. ?run s'"
  then obtain s' where run: "?run s'" by blast
  show ?guards
    by (rule cancel_run [OF run ms(1) tx(1)])
       (auto simp: vote_allowed_def voted_bit [OF ms] owner_votes [OF ms(1)] owner_listed [OF ms(1)]
          dest: bitmap_set_new(2) simp del: status_to_u8.simps)
next
  assume ?guards
  then show "\<exists>s'. ?run s'"
    using cancel_accepts_creator [OF _ _ ms tx] cancel_accepts_voter [OF _ _ ms tx] by auto
qed

text \<open>C14: the guards of the three votes are exact. On a well-formed multisig and proposal, an approval or a
  rejection succeeds precisely when the accounts, the signature and the staleness are right, the proposal
  is Active and the signer is a voter whose bit is clear in every bitmap (and, for the approval that
  reaches the threshold, the clock can be read); a cancellation precisely when the proposal is Active and
  its creator, still an owner, asks, or it is Approved and a voter who has not asked yet does.\<close>

theorem votes_accepted_iff:
  assumes ms: "ms_load (ptr_of s multisig) (data_of s multisig) = Inr (c, os, ps)" "ms_wf c os ps"
    and tx: "tx_load (ptr_of s transaction) (data_of s transaction) = Inr (h, v, m)" "tx_wf h v m"
  shows "((\<exists>s'. process_approve rt pid (signer # multisig # transaction # remaining) instr s = Inr s') \<longleftrightarrow>
       vote_allowed pid s signer multisig transaction instr c h \<and> tx_status h = status_to_u8 Active \<and>
       v_address signer \<in> voter_set os ps - (cast_by os (v_approved v) \<union> cast_by os (v_rejected v) \<union>
         cast_by os (v_cancelled v)) \<and>
       (ms_threshold c \<le> tx_approved_count h + 1 \<longrightarrow> (\<exists>now. rt_clock rt = Inr now))) \<and>
     ((\<exists>s'. process_reject pid (signer # multisig # transaction # remaining) instr s = Inr s') \<longleftrightarrow>
       vote_allowed pid s signer multisig transaction instr c h \<and> tx_status h = status_to_u8 Active \<and>
       v_address signer \<in> voter_set os ps - (cast_by os (v_approved v) \<union> cast_by os (v_rejected v) \<union>
         cast_by os (v_cancelled v))) \<and>
     ((\<exists>s'. process_cancel pid (signer # multisig # transaction # remaining) instr s = Inr s') \<longleftrightarrow>
       vote_allowed pid s signer multisig transaction instr c h \<and>
       (tx_status h = status_to_u8 Active \<and> tx_creator h = v_address signer \<and> v_address signer \<in> set os \<or>
        tx_status h = status_to_u8 Approved \<and>
        v_address signer \<in> voter_set os ps - cast_by os (v_cancelled v)))"
  by (intro conjI approve_accepted_iff [OF ms tx] reject_accepted_iff [OF ms tx] cancel_accepted_iff [OF ms tx])


section \<open>Enough approvals approve\<close>

text \<open>One approval, submitted through the client's builder.\<close>

lemma approval_submitted:
  assumes ms: "ms_load (data_ptr (s ms)) (acc_data (s ms)) = Inr (c, os, ps)" "ms_wf c os ps"
    and clock: "rt_clock rt = Inr now" and own: "acc_owner (s ms) = ID" "acc_owner (s tx) = ID"
    and load: "tx_load (data_ptr (s tx)) (acc_data (s tx)) = Inr (h, v, m)" and wf: "tx_wf h v m"
    and guards: "tx_multisig h = ms" "tx_status h = status_to_u8 Active" "ms_stale_transaction_index c < tx_index h"
      "tx_owners_count h = ms_owners_count c"
    and voter: "a \<in> voter_set os ps"
      "a \<notin> cast_by os (v_approved v) \<union> cast_by os (v_rejected v) \<union> cast_by os (v_cancelled v)"
  obtains s' h' v' where "submit rt (approve a ms tx) s = Inr s'"
    "s' = set_data (passed tx True) (tx_bytes h' v' m) s" "tx_wf h' v' m"
    "tx_load (data_ptr (s' tx)) (acc_data (s' tx)) = Inr (h', v', m)"
    "cast_by os (v_approved v') = insert a (cast_by os (v_approved v))"
    "card (cast_by os (v_approved v')) = Suc (card (cast_by os (v_approved v)))"
    "v_rejected v' = v_rejected v" "v_cancelled v' = v_cancelled v"
    "if unat (ms_threshold c) \<le> card (cast_by os (v_approved v'))
     then tx_status h' = status_to_u8 Approved \<and> tx_approved_at h' = now else tx_status h' = status_to_u8 Active"
    "tx_multisig h' = tx_multisig h" "tx_index h' = tx_index h" "tx_owners_count h' = tx_owners_count h"
proof -
  let ?vs = "[signing a False, passed ms True, passed tx True]"
  have submit: "submit rt (approve a ms tx) s = process_approve rt ID ?vs [] s"
    by (simp add: submit_def process_instruction_def builder_defs tag_defs client_constants)
  have allowed: "vote_allowed ID s (signing a False) (passed ms True) (passed tx True) [] c h"
    using own guards by (simp add: vote_allowed_def)
  have "\<exists>s'. process_approve rt ID ?vs [] s = Inr s'"
    using voter clock load by (intro approve_accepts [OF allowed guards(2) _ ms(2) _ wf]) (simp_all add: ms(1))
  then obtain s' where run: "process_approve rt ID ?vs [] s = Inr s'" by blast
  obtain h' v' where s': "s' = set_data (passed tx True) (tx_bytes h' v' m) s" "tx_wf h' v' m"
    and app: "cast_by os (v_approved v') = insert a (cast_by os (v_approved v))"
    and same: "v_rejected v' = v_rejected v" "v_cancelled v' = v_cancelled v"
    and st: "if unat (ms_threshold c) \<le> card (cast_by os (v_approved v'))
      then tx_status h' = status_to_u8 Approved \<and> rt_clock rt = Inr (tx_approved_at h')
      else tx_status h' = status_to_u8 Active \<and> tx_approved_at h' = tx_approved_at h"
    and h': "h' = h\<lparr>tx_approved_count := tx_approved_count h + 1, tx_status := tx_status h',
       tx_approved_at := tx_approved_at h'\<rparr>"
    using approve_effect [OF run _ ms(2) _ wf] ms(1) load by auto
  have kept: "tx_multisig h' = tx_multisig h" "tx_index h' = tx_index h"
    "tx_owners_count h' = tx_owners_count h" by (subst h', simp)+
  have load': "tx_load (data_ptr (s' tx)) (acc_data (s' tx)) = Inr (h', v', m)"
    using s' load by (simp add: tx_load_Inr tx_wf_def)
  have "card (cast_by os (v_approved v')) = Suc (card (cast_by os (v_approved v)))"
    using voter(2) unfolding app by (simp add: cast_by_def)
  from that [OF run [folded submit] s' load' app this same _ kept] st clock show thesis by (simp split: if_splits)
qed

lemma approvals_run:
  assumes ms: "ms_load (data_ptr (s ms)) (acc_data (s ms)) = Inr (c, os, ps)" "ms_wf c os ps"
    and differ: "tx \<noteq> ms" and clock: "rt_clock rt = Inr now"
    and own: "acc_owner (s ms) = ID"
  shows "tx_load (data_ptr (s tx)) (acc_data (s tx)) = Inr (h, v, m) \<Longrightarrow> tx_wf h v m \<Longrightarrow>
    acc_owner (s tx) = ID \<Longrightarrow> tx_multisig h = ms \<Longrightarrow> tx_status h = status_to_u8 Active \<Longrightarrow>
    ms_stale_transaction_index c < tx_index h \<Longrightarrow> tx_owners_count h = ms_owners_count c \<Longrightarrow>
    signers \<noteq> [] \<Longrightarrow> distinct signers \<Longrightarrow>
    set signers \<subseteq> voter_set os ps - (cast_by os (v_approved v) \<union> cast_by os (v_rejected v) \<union>
      cast_by os (v_cancelled v)) \<Longrightarrow>
    card (cast_by os (v_approved v)) + length signers = unat (ms_threshold c) \<Longrightarrow>
    \<exists>s' h' v'. fold_result (\<lambda>a. submit rt (approve a ms tx)) signers s = Inr s' \<and>
      tx_load (data_ptr (s' tx)) (acc_data (s' tx)) = Inr (h', v', m) \<and>
      tx_status h' = status_to_u8 Approved \<and> tx_approved_at h' = now \<and>
      cast_by os (v_approved v') = cast_by os (v_approved v) \<union> set signers \<and>
      tx_wf h' v' m \<and> tx_multisig h' = ms \<and> acc_owner (s' tx) = ID \<and> (\<forall>a. a \<noteq> tx \<longrightarrow> s' a = s a)"
  using ms(1) own
proof (induction signers arbitrary: s h v)
  case Nil
  then show ?case by simp
next
  case (Cons a signers)
  note load = Cons.prems(12) and wf = Cons.prems(2)
  have voter: "a \<in> voter_set os ps"
    "a \<notin> cast_by os (v_approved v) \<union> cast_by os (v_rejected v) \<union> cast_by os (v_cancelled v)"
    using Cons.prems(10) by auto
  obtain s1 h1 v1 where run: "submit rt (approve a ms tx) s = Inr s1"
    and s1: "s1 = set_data (passed tx True) (tx_bytes h1 v1 m) s" and wf1: "tx_wf h1 v1 m"
    and load1: "tx_load (data_ptr (s1 tx)) (acc_data (s1 tx)) = Inr (h1, v1, m)"
    and app: "cast_by os (v_approved v1) = insert a (cast_by os (v_approved v))"
    and card: "card (cast_by os (v_approved v1)) = Suc (card (cast_by os (v_approved v)))"
    and same: "v_rejected v1 = v_rejected v" "v_cancelled v1 = v_cancelled v"
    and st: "if unat (ms_threshold c) \<le> card (cast_by os (v_approved v1))
      then tx_status h1 = status_to_u8 Approved \<and> tx_approved_at h1 = now else tx_status h1 = status_to_u8 Active"
    and kept: "tx_multisig h1 = tx_multisig h" "tx_index h1 = tx_index h" "tx_owners_count h1 = tx_owners_count h"
    by (rule approval_submitted [OF load ms(2) clock Cons.prems(13,3,1) wf Cons.prems(4-7) voter])
  show ?case
  proof (cases signers)
    case Nil
    then have "unat (ms_threshold c) \<le> card (cast_by os (v_approved v1))"
      using Cons.prems(11) card by simp
    then show ?thesis
      using st run load1 app Nil wf1 kept Cons.prems(3,4) by (simp add: s1 set_data_other)
  next
    case more: (Cons b bs)
    then have "\<not> unat (ms_threshold c) \<le> card (cast_by os (v_approved v1))"
      using Cons.prems(11) card by simp
    then have active: "tx_status h1 = status_to_u8 Active" using st by simp
    have "\<exists>s' h' v'. fold_result (\<lambda>a. submit rt (approve a ms tx)) signers s1 = Inr s' \<and>
      tx_load (data_ptr (s' tx)) (acc_data (s' tx)) = Inr (h', v', m) \<and>
      tx_status h' = status_to_u8 Approved \<and> tx_approved_at h' = now \<and>
      cast_by os (v_approved v') = cast_by os (v_approved v1) \<union> set signers \<and>
      tx_wf h' v' m \<and> tx_multisig h' = ms \<and> acc_owner (s' tx) = ID \<and> (\<forall>a. a \<noteq> tx \<longrightarrow> s' a = s1 a)"
    proof (rule Cons.IH [of s1 h1 v1])
      show "tx_load (data_ptr (s1 tx)) (acc_data (s1 tx)) = Inr (h1, v1, m)" by (rule load1)
      show "tx_wf h1 v1 m" by (rule wf1)
      show "tx_status h1 = status_to_u8 Active" by (rule active)
      show "set signers \<subseteq> voter_set os ps - (cast_by os (v_approved v1) \<union> cast_by os (v_rejected v1) \<union>
          cast_by os (v_cancelled v1))"
        using Cons.prems(9,10) by (auto simp: app same)
      show "card (cast_by os (v_approved v1)) + length signers = unat (ms_threshold c)"
        using Cons.prems(11) card by simp
      show "ms_load (data_ptr (s1 ms)) (acc_data (s1 ms)) = Inr (c, os, ps)"
        using load differ by (simp add: s1)
    qed (use Cons.prems(3,4,6,7,9,13) differ more kept in \<open>simp_all add: s1\<close>)
    moreover have "s1 a = s a" if "a \<noteq> tx" for a using that by (simp add: s1 set_data_other)
    ultimately show ?thesis using run app by (auto simp: and_then_Inr)
  qed
qed


section \<open>A proposal is made and approved\<close>

lemma clear_votes_bits:
  "\<not> bitmap_get (v_approved (clear_votes n)) i" "\<not> bitmap_get (v_rejected (clear_votes n)) i"
  "\<not> bitmap_get (v_cancelled (clear_votes n)) i"
  by (simp_all add: clear_votes_def bitmap_get_replicate_0)

lemma proposal_approved:
  assumes spec: "create_account_spec ID rt" "create_account_live ID rt" "derive_spec rt derive"
    and clock: "rt_clock rt = Inr now" and rent: "rt_rent rt = Inr rent"
      "rent (tx_space (length os) (length (message_encode message))) \<le> lamports (s creator)"
    and ms: "ms_load (data_ptr (s ms)) (acc_data (s ms)) = Inr (c, os, ps)" "ms_wf c os ps"
      "acc_owner (s ms) = ID"
    and owner: "is_owner os creator = Some i" "ps ! i = 0 \<or> ps ! i AND INITIATE \<noteq> 0"
    and index: "ms_transaction_index c \<noteq> - 1" "index = ms_transaction_index c + 1"
    and msg: "message_fits message" "message_valid message"
      "length (message_encode message) \<le> MAX_MESSAGE_SIZE" "length ephemeral \<le> MAX_EPHEMERAL_SIGNERS"
    and wallet: "acc_owner (s creator) = system_program" "acc_data (s creator) = []"
    and tx: "tx = fst (transaction_address derive ms index)" "tx \<noteq> creator"
    and unused: "acc_owner (s tx) = system_program" "acc_data (s tx) = []" "lamports (s tx) = 0"
      "8 dvd data_ptr (s tx)"
    and signers: "distinct signers" "set signers \<subseteq> voter_set os ps" "length signers = unat (ms_threshold c)"
  shows "\<exists>ix s1 s' h v.
     create_transaction derive creator ms index message vi ephemeral = Inr ix \<and> submit rt ix s = Inr s1 \<and>
     fold_result (\<lambda>a. submit rt (approve a ms tx)) signers s1 = Inr s' \<and>
     tx_load (data_ptr (s' tx)) (acc_data (s' tx)) = Inr (h, v, message_encode message) \<and>
     tx_status h = status_to_u8 Approved \<and> tx_approved_at h = now \<and>
     cast_by os (v_approved v) = set signers \<and>
     tx_wf h v (message_encode message) \<and> tx_multisig h = ms \<and> acc_owner (s' tx) = ID \<and>
     acc_owner (s' ms) = ID \<and> ms_load (data_ptr (s' ms)) (acc_data (s' ms)) = Inr (c\<lparr>ms_transaction_index := index\<rparr>, os, ps)"
proof -
  obtain ix s1 where ix: "create_transaction derive creator ms index message vi ephemeral = Inr ix"
      "submit rt ix s = Inr s1"
    and run: "process_create_transaction rt ID
       [signing creator True, passed ms True, passed tx True, passed system_program False]
       (create_payload vi (snd (vault_address derive ms vi)) (snd (transaction_address derive ms index))
          ephemeral (message_encode message)) s = Inr s1"
    by (rule client_creates [OF spec rent ms owner index msg wallet tx unused])
  let ?v = "clear_votes (ms_owners_count c)"
  obtain t where wf: "tx_wf t ?v (message_encode message)" and st: "tx_status t = status_to_u8 Active"
    and t: "tx_multisig t = ms" "tx_owners_count t = ms_owners_count c"
      "unat (tx_index t) = Suc (unat (ms_transaction_index c))"
    and load: "tx_load (data_ptr (s1 tx)) (acc_data (s1 tx)) = Inr (t, ?v, message_encode message)"
    and own: "acc_owner (s1 tx) = ID" "acc_owner (s1 ms) = ID"
    and ms1: "ms_load (data_ptr (s1 ms)) (acc_data (s1 ms)) = Inr (c\<lparr>ms_transaction_index := tx_index t\<rparr>, os, ps)"
    using create_transaction_effect [OF spec(1) run] ms(1)
    unfolding create_payload_read [OF msg(4)] by auto
  let ?c = "c\<lparr>ms_transaction_index := tx_index t\<rparr>"
  have wf1: "ms_wf ?c os ps"
    using ms(2) t(3) by (auto simp: ms_wf_def ms_invariant_iff word_le_nat_alt)
  have fresh: "ms_stale_transaction_index c < tx_index t"
    using ms(2) t(3) by (auto simp: ms_wf_def ms_invariant_iff word_le_nat_alt word_less_nat_alt)
  have none: "cast_by os (v_approved ?v) = {}" "cast_by os (v_rejected ?v) = {}" "cast_by os (v_cancelled ?v) = {}"
    by (simp_all add: cast_by_def clear_votes_bits)
  have apart: "tx \<noteq> ms" using ms_load_nonempty [OF ms(1)] unused(2) by auto
  have "signers \<noteq> []" using signers(3) ms(2) by (auto simp: ms_wf_def ms_invariant_iff)
  then have "\<exists>s' h' v'. fold_result (\<lambda>a. submit rt (approve a ms tx)) signers s1 = Inr s' \<and>
      tx_load (data_ptr (s' tx)) (acc_data (s' tx)) = Inr (h', v', message_encode message) \<and>
      tx_status h' = status_to_u8 Approved \<and> tx_approved_at h' = now \<and>
      cast_by os (v_approved v') = cast_by os (v_approved ?v) \<union> set signers \<and>
      tx_wf h' v' (message_encode message) \<and> tx_multisig h' = ms \<and> acc_owner (s' tx) = ID \<and>
      (\<forall>a. a \<noteq> tx \<longrightarrow> s' a = s1 a)"
    using signers t fresh none
    by (intro approvals_run [OF ms1 wf1 apart clock own(2) load wf own(1) _ st]) simp_all
  moreover have "index = tx_index t"
    using t(3) index by (intro word_unat_eq_iff [THEN iffD2]) (simp add: unat_add_1)
  ultimately show ?thesis using ix none own ms1 apart by auto
qed

text \<open>C17: a proposal can be made and approved. An owner who may initiate and can pay the rent proposes, through
  the client's builder, any valid message of at most 4096 bytes at the next index, whose address is not used so far; then any
  threshold of the multisig's voters approve it, one after another, through the client's builder. Every one of these
  instructions succeeds, and the proposal carries the message and is Approved by exactly those voters at
  the time of the last vote.\<close>

theorem client_proposal_approved:
  assumes spec: "create_account_spec ID rt" "create_account_live ID rt" "derive_spec rt derive"
    and clock: "rt_clock rt = Inr now" and rent: "rt_rent rt = Inr rent"
      "rent (tx_space (length os) (length (message_encode message))) \<le> lamports (s creator)"
    and ms: "ms_load (data_ptr (s ms)) (acc_data (s ms)) = Inr (c, os, ps)" "ms_wf c os ps"
      "acc_owner (s ms) = ID"
    and owner: "is_owner os creator = Some i" "ps ! i = 0 \<or> ps ! i AND INITIATE \<noteq> 0"
    and index: "ms_transaction_index c \<noteq> - 1" "index = ms_transaction_index c + 1"
    and msg: "message_fits message" "message_valid message"
      "length (message_encode message) \<le> MAX_MESSAGE_SIZE" "length ephemeral \<le> MAX_EPHEMERAL_SIGNERS"
    and wallet: "acc_owner (s creator) = system_program" "acc_data (s creator) = []"
    and tx: "tx = fst (transaction_address derive ms index)" "tx \<noteq> creator"
    and unused: "acc_owner (s tx) = system_program" "acc_data (s tx) = []" "lamports (s tx) = 0"
      "8 dvd data_ptr (s tx)"
    and signers: "distinct signers" "set signers \<subseteq> voter_set os ps" "length signers = unat (ms_threshold c)"
  shows "\<exists>ix s1 s' h v.
     create_transaction derive creator ms index message vi ephemeral = Inr ix \<and> submit rt ix s = Inr s1 \<and>
     fold_result (\<lambda>a. submit rt (approve a ms tx)) signers s1 = Inr s' \<and>
     tx_load (data_ptr (s' tx)) (acc_data (s' tx)) = Inr (h, v, message_encode message) \<and>
     tx_status h = status_to_u8 Approved \<and> tx_approved_at h = now \<and>
     cast_by os (v_approved v) = set signers"
  using proposal_approved [OF assms] by blast

section \<open>An approved proposal runs\<close>

lemma ID_not_lookup_program: "ID \<noteq> ADDRESS_LOOKUP_TABLE_ID"
proof -
  have "hd (as_array ID) = 52" by (simp add: ID_def as_array_new_from_array)
  moreover have "hd (as_array ADDRESS_LOOKUP_TABLE_ID) \<noteq> 52"
    by (simp add: ADDRESS_LOOKUP_TABLE_ID_def as_array_new_from_array)
  ultimately show ?thesis by metis
qed

lemma ID_not_system_program: "ID \<noteq> system_program"
proof -
  have "hd (as_array ID) = 52" by (simp add: ID_def as_array_new_from_array)
  moreover have "hd (as_array system_program) = 0"
    by (simp add: system_program_def default_address_def as_array_new_from_array)
  ultimately show ?thesis by auto
qed

lemma time_lock_over:
  assumes "ms_time_lock c = 0 \<or> (\<exists>now. rt_clock rt = Inr now \<and>
     int (unat (ms_time_lock c)) \<le> sint now - sint (tx_approved_at h) \<and> sint now - sint (tx_approved_at h) < 2 ^ 63)"
  shows "check_time_lock rt (ms_time_lock c) h = Inr ()"
proof (cases "ms_time_lock c = 0")
  case False
  with assms obtain now where now: "rt_clock rt = Inr now"
      "int (unat (ms_time_lock c)) \<le> sint now - sint (tx_approved_at h)"
      "sint now - sint (tx_approved_at h) < 2 ^ 63" by blast
  have "0 \<le> sint now - sint (tx_approved_at h)" using of_nat_0_le_iff now(2) by (rule order_trans)
  then have "checked_sub_signed now (tx_approved_at h) = Some (now - tx_approved_at h)"
    using now(3) by (simp add: checked_sub_signed_def Let_def)
  with now show ?thesis unfolding check_time_lock_Inr using checked_sub_signed_Some by metis
qed (simp add: check_time_lock_def)

lemma begin_execution_accepts:
  assumes own: "acc_owner (account_of s multisig) = pid" "acc_owner (account_of s transaction) = pid"
    and signer: "v_signer executor"
    and ms: "ms_load (ptr_of s multisig) (data_of s multisig) = Inr (c, os, ps)"
    and permitted: "is_owner os (v_address executor) = Some i" "ps ! i = 0 \<or> ps ! i AND EXECUTE \<noteq> 0"
    and tx: "tx_load (ptr_of s transaction) (data_of s transaction) = Inr (h, v, m)" "tx_wf h v m"
      "tx_multisig h = v_address multisig" "tx_status h = status_to_u8 Approved"
    and time: "check_time_lock rt (ms_time_lock c) h = Inr ()"
  shows "begin_execution rt pid executor multisig transaction [] s =
    Inr (set_data transaction (tx_bytes (h\<lparr>tx_status := status_to_u8 Executed\<rparr>) v m) s,
         h\<lparr>tx_status := status_to_u8 Executed\<rparr>)"
proof -
  have st: "status_from_u8 (tx_status h) = Inr Approved" using tx(4) by (simp only: status_from_u8_Inr)
  have inv: "tx_invariant (h\<lparr>tx_status := status_to_u8 Executed\<rparr>) = Inr ()"
    using tx(2) by (auto simp: tx_wf_def tx_invariant_iff simp del: status_to_u8.simps)
  have p: "has_permission os ps (v_address executor) EXECUTE = Inr True"
    using permitted by (simp add: has_permission_True) (use loaded_owner [OF ms permitted(1)] in auto)
  show ?thesis
    using own signer tx(3) time inv
    by (simp add: begin_execution_def ms p tx_load_mut_eq tx(1) st Let_def del: status_to_u8.simps)
qed


text \<open>The guards of an execution, as an owner's client sees them.\<close>

definition executable_by :: "address \<Rightarrow> runtime \<Rightarrow> store \<Rightarrow> address \<Rightarrow> address \<Rightarrow> transaction \<Rightarrow> votes \<Rightarrow> bytes \<Rightarrow> bool" where
  "executable_by executor rt s ms tx h v m \<longleftrightarrow>
     acc_owner (s ms) = ID \<and> acc_owner (s tx) = ID \<and>
     tx_load (data_ptr (s tx)) (acc_data (s tx)) = Inr (h, v, m) \<and> tx_wf h v m \<and> tx_multisig h = ms \<and>
     tx_status h = status_to_u8 Approved \<and>
     (\<exists>c os ps i. ms_load (data_ptr (s ms)) (acc_data (s ms)) = Inr (c, os, ps) \<and>
        is_owner os executor = Some i \<and> (ps ! i = 0 \<or> ps ! i AND EXECUTE \<noteq> 0) \<and>
        (ms_time_lock c = 0 \<or> (\<exists>now. rt_clock rt = Inr now \<and>
           int (unat (ms_time_lock c)) \<le> sint now - sint (tx_approved_at h) \<and>
           sint now - sint (tx_approved_at h) < 2 ^ 63)))"

abbreviation marked_executed :: "address \<Rightarrow> transaction \<Rightarrow> votes \<Rightarrow> bytes \<Rightarrow> store \<Rightarrow> store" where
  "marked_executed tx h v m s \<equiv> set_data (passed tx True) (tx_bytes (h\<lparr>tx_status := status_to_u8 Executed\<rparr>) v m) s"

lemma execution_begins:
  assumes "executable_by executor rt s ms tx h v m"
  shows "begin_execution rt ID (signing executor True) (passed ms True) (passed tx True) [] s
      = Inr (marked_executed tx h v m s, h\<lparr>tx_status := status_to_u8 Executed\<rparr>)"
    and "tx_load (data_ptr (marked_executed tx h v m s tx)) (acc_data (marked_executed tx h v m s tx))
      = Inr (h\<lparr>tx_status := status_to_u8 Executed\<rparr>, v, m)"
proof -
  note facts = assms [unfolded executable_by_def]
  show "begin_execution rt ID (signing executor True) (passed ms True) (passed tx True) [] s
      = Inr (marked_executed tx h v m s, h\<lparr>tx_status := status_to_u8 Executed\<rparr>)"
    using facts time_lock_over by (elim conjE exE) (rule begin_execution_accepts; simp)
  show "tx_load (data_ptr (marked_executed tx h v m s tx)) (acc_data (marked_executed tx h v m s tx))
      = Inr (h\<lparr>tx_status := status_to_u8 Executed\<rparr>, v, m)"
    using facts by (simp add: tx_load_Inr votes_fit_def)
qed

text \<open>Marking the proposal leaves the lookup tables, which the program does not own.\<close>

lemma marked_tables:
  assumes own: "acc_owner (s tx) = ID" and serves: "\<forall>l \<in> set lks. table_serves s l"
  shows "\<forall>l \<in> set lks. table_serves (set_data (passed tx True) d s) l"
    and "approved_keys (set_data (passed tx True) d s) keys lks = approved_keys s keys lks"
proof -
  let ?s = "set_data (passed tx True) d s"
  have same: "?s (ml_account_key l) = s (ml_account_key l)" if "l \<in> set lks" for l
    using serves that own ID_not_lookup_program
    by (intro set_data_other) (auto simp: table_serves_def Let_def)
  have "table_serves ?s l" if "l \<in> set lks" for l
    using serves that by (simp only: table_serves_def same [OF that])
  then show "\<forall>l \<in> set lks. table_serves ?s l" by blast
  have "resolved_key ?s l = resolved_key s l" if "l \<in> set lks" for l
    by (rule ext) (simp only: resolved_key_def same [OF that])
  then show "approved_keys ?s keys lks = approved_keys s keys lks" by (simp add: approved_keys_def cong: map_cong)
qed

lemma execution_runs:
  assumes ready: "executable_by executor rt s ms tx h v (message_encode message)"
    and msg: "message_fits message" "message_valid message"
    and tables: "\<forall>l \<in> set (lookups_of message). table_serves s l"
      "cm_account_keys message @ resolved = approved_keys s (cm_account_keys message) (lookups_of message)"
  shows "\<exists>signers. execute_signers ms tx h = Inr signers \<and>
     submit rt (execute executor ms tx (execute_accounts message resolved)) s =
       fold_result (execute_instruction rt ID (signing executor True) (passed ms True)
           (views_of (execute_accounts message resolved)) (parsed_message message) signers)
         (instructions_of message) (marked_executed tx h v (message_encode message) s)"
proof -
  let ?h = "h\<lparr>tx_status := status_to_u8 Executed\<rparr>" and ?lks = "lookups_of message"
  let ?s1 = "marked_executed tx h v (message_encode message) s"
  let ?vs = "views_of (execute_accounts message resolved)"
  have own: "acc_owner (s tx) = ID" and wf: "tx_wf h v (message_encode message)"
    using ready by (simp_all add: executable_by_def)
  have parse: "parse (message_encode message) = Inr (parsed_message message)"
    using parse_message_encode [OF msg(1)] msg(2) by simp
  have "length resolved = lookup_keys ?lks"
    using arg_cong [OF tables(2), of length]
    by (simp add: approved_keys_def length_concat comp_def lookup_keys_def sum_list_addf)
  then have check: "check_accounts ?s1 ?vs (parsed_message message) = Inr ()"
    using client_accounts_pass(1) [OF msg, where s = ?s1] tables(2) marked_tables [where s = s, OF own tables(1)] by simp
  obtain signers where sg: "execute_signers ms tx h = Inr signers"
    using wf by (auto simp: execute_signers_def Let_def tx_wf_def tx_invariant_iff)
  moreover have "execute_signers ms tx ?h = execute_signers ms tx h" by (simp add: execute_signers_def)
  ultimately have sg': "execute_signers ms tx ?h = Inr signers" by simp
  have "list_all instruction_fits (instructions_of message)" using msg(1) by (simp add: message_fits_def)
  then have loop: "for_instructions body (cursor_new (tm_instructions (parsed_message message))) ?s1
      = fold_result body (instructions_of message) ?s1" for body
    by (simp add: parsed_message_def message_of_def ixs.loop_new)
  have "submit rt (execute executor ms tx (execute_accounts message resolved)) s
      = process_execute rt ID ([signing executor True, passed ms True, passed tx True] @ ?vs) [] s"
    by (simp add: submit_def process_instruction_def builder_defs tag_defs client_constants)
  then show ?thesis
    using execution_begins [OF ready] parse check sg sg' loop by (simp add: process_execute_def)
qed

text \<open>C18: an Approved proposal whose time lock is over runs. When an owner allowed to execute submits, through
  the client's builder, the execution of a proposal whose message the client encoded, with the accounts
  the client lists for that message and the addresses its lookup tables hold, every guard passes: the
  result is the message's own instructions run in order on the store in which the proposal is Executed.
  Nothing but an inner instruction can still make it fail.\<close>

theorem client_execution_runs:
  assumes own: "acc_owner (s ms) = ID" "acc_owner (s tx) = ID"
    and load: "ms_load (data_ptr (s ms)) (acc_data (s ms)) = Inr (c, os, ps)"
      "tx_load (data_ptr (s tx)) (acc_data (s tx)) = Inr (h, v, message_encode message)"
    and wf: "tx_wf h v (message_encode message)" "tx_multisig h = ms" "tx_status h = status_to_u8 Approved"
    and permitted: "is_owner os executor = Some i" "ps ! i = 0 \<or> ps ! i AND EXECUTE \<noteq> 0"
    and lock: "ms_time_lock c = 0 \<or> (\<exists>now. rt_clock rt = Inr now \<and>
      int (unat (ms_time_lock c)) \<le> sint now - sint (tx_approved_at h) \<and>
      sint now - sint (tx_approved_at h) < 2 ^ 63)"
    and msg: "message_fits message" "message_valid message"
    and tables: "\<forall>l \<in> set (lookups_of message). table_serves s l"
      "cm_account_keys message @ resolved = approved_keys s (cm_account_keys message) (lookups_of message)"
  shows "\<exists>signers. execute_signers ms tx h = Inr signers \<and>
     submit rt (execute executor ms tx (execute_accounts message resolved)) s =
       fold_result (execute_instruction rt ID (signing executor True) (passed ms True)
           (views_of (execute_accounts message resolved)) (parsed_message message) signers)
         (instructions_of message)
         (set_data (passed tx True) (tx_bytes (h\<lparr>tx_status := status_to_u8 Executed\<rparr>) v
            (message_encode message)) s)"
proof (rule execution_runs [OF _ msg tables])
  show "executable_by executor rt s ms tx h v (message_encode message)"
    unfolding executable_by_def using own load wf permitted lock by blast
qed

section \<open>The client's own messages\<close>

text \<open>The common part for a message without lookups and with one instruction.\<close>

lemma execution_runs_single:
  assumes ready: "executable_by executor rt s ms tx h v (message_encode message)"
    and msg: "message_fits message" "message_valid message"
    and single: "cm_instructions message = [ix]" "cm_lookups message = []"
  obtains signers where
    "take 1 signers = [[VAULT_SEED, as_array ms, [tx_vault_index h], [tx_vault_bump h]]]"
    "submit rt (execute executor ms tx (execute_accounts message [])) s =
       execute_instruction rt ID (signing executor True) (passed ms True)
         (map (\<lambda>(k, a). passed a (client_is_writable message k)) (enumerate 0 (cm_account_keys message)))
         (parsed_message message) signers
         \<lparr>ci_program_id_index = mi_program_id_index ix, ci_account_indexes = mi_account_indexes ix,
          ci_data = mi_data ix\<rparr> (marked_executed tx h v (message_encode message) s)"
proof -
  have tables: "\<forall>l \<in> set (lookups_of message). table_serves s l"
    "cm_account_keys message @ [] = approved_keys s (cm_account_keys message) (lookups_of message)"
    by (simp_all add: lookups_of_def single approved_keys_def)
  obtain signers where sg: "execute_signers ms tx h = Inr signers"
    and run: "submit rt (execute executor ms tx (execute_accounts message [])) s =
       fold_result (execute_instruction rt ID (signing executor True) (passed ms True)
           (views_of (execute_accounts message [])) (parsed_message message) signers)
         (instructions_of message)
         (set_data (passed tx True) (tx_bytes (h\<lparr>tx_status := status_to_u8 Executed\<rparr>) v
            (message_encode message)) s)"
    using execution_runs [OF ready msg tables] by blast
  have "take 1 signers = [[VAULT_SEED, as_array ms, [tx_vault_index h], [tx_vault_bump h]]]"
    using sg by (auto simp: execute_signers_def Let_def split: if_splits)
  moreover have "views_of (execute_accounts message [])
      = map (\<lambda>(k, a). passed a (client_is_writable message k)) (enumerate 0 (cm_account_keys message))"
    by (auto simp: views_of_def execute_accounts_def Let_def single split: if_splits)
  ultimately show ?thesis
    using that run by (simp add: instructions_of_def single)
qed

lemma config_action_message_ok:
  assumes "length payload < 65535"
  shows "message_fits (config_action_message action payload)"
    and "message_valid (config_action_message action payload)"
  using assms by (simp_all add: config_action_message_def message_fits_def message_valid_def instructions_of_def
      lookups_of_def instruction_fits_def lookup_keys_def)

lemma config_message_executes:
  assumes ready: "executable_by executor rt s ms tx h v (message_encode (config_action_message action payload))"
    and len: "length payload < 65535"
  shows "submit rt (execute executor ms tx (execute_accounts (config_action_message action payload) [])) s
    = apply_config_action rt (passed ms True) (signing executor True) (action # payload) True
        (marked_executed tx h v (message_encode (config_action_message action payload)) s)"
proof -
  let ?m = "config_action_message action payload"
    and ?ix = "\<lparr>mi_program_id_index = 0, mi_account_indexes = [], mi_data = action # payload\<rparr>"
  note ok = config_action_message_ok [OF len, of action]
  have single: "cm_instructions ?m = [?ix]" "cm_lookups ?m = []" by (simp_all add: config_action_message_def)
  show ?thesis
    by (rule execution_runs_single [OF ready ok single])
       (simp add: execute_instruction_eq config_action_message_def client_constants)
qed

lemma transfer_message_executes:
  assumes ready: "executable_by executor rt s ms tx h v (message_encode (transfer_message vault destination lam))"
    and spec: "derive_spec rt derive"
    and vault: "vault = fst (vault_address derive ms (tx_vault_index h))"
      "tx_vault_bump h = snd (vault_address derive ms (tx_vault_index h))"
  shows "\<exists>signers. rt_pda rt (hd signers) ID = Some vault \<and>
     submit rt (execute executor ms tx (execute_accounts (transfer_message vault destination lam) [])) s
       = rt_invoke rt \<lparr>cpi_program = system_program,
             cpi_metas = [(vault, True, True), (destination, True, False)],
             cpi_data = to_le_bytes 4 (2 :: u32) @ to_le_bytes 8 lam\<rparr>
           [passed vault True, passed destination True] signers
           (marked_executed tx h v (message_encode (transfer_message vault destination lam)) s)"
proof -
  let ?m = "transfer_message vault destination lam"
    and ?ix = "\<lparr>mi_program_id_index = 2, mi_account_indexes = [0, 1],
      mi_data = to_le_bytes 4 (2 :: u32) @ to_le_bytes 8 lam\<rparr>"
  have ok: "message_fits ?m" "message_valid ?m"
    by (simp_all add: transfer_message_def message_fits_def message_valid_def instructions_of_def
        lookups_of_def instruction_fits_def lookup_keys_def)
  have single: "cm_instructions ?m = [?ix]" "cm_lookups ?m = []" by (simp_all add: transfer_message_def)
  obtain signers where seeds: "take 1 signers = [[VAULT_SEED, as_array ms, [tx_vault_index h], [tx_vault_bump h]]]"
    and run: "submit rt (execute executor ms tx (execute_accounts ?m [])) s =
       execute_instruction rt ID (signing executor True) (passed ms True)
         (map (\<lambda>(k, a). passed a (client_is_writable ?m k)) (enumerate 0 (cm_account_keys ?m)))
         (parsed_message ?m) signers
         \<lparr>ci_program_id_index = mi_program_id_index ?ix, ci_account_indexes = mi_account_indexes ?ix,
          ci_data = mi_data ?ix\<rparr> (marked_executed tx h v (message_encode ?m) s)"
    by (rule execution_runs_single [OF ready ok single])
  let ?seeds = "[VAULT_SEED, as_array ms, [tx_vault_index h]]"
  have "hd signers = ?seeds @ [[tx_vault_bump h]]" using seeds by (cases signers) simp_all
  moreover have "length ?seeds < 16 \<and> (\<forall>seed \<in> set ?seeds. length seed \<le> 32)" by (simp add: VAULT_SEED_def)
  with spec have "rt_pda rt (?seeds @ [[snd (derive ?seeds ID)]]) ID = Some (fst (derive ?seeds ID))"
    unfolding derive_spec_def by blast
  ultimately have "rt_pda rt (hd signers) ID = Some vault"
    unfolding vault vault_address_def client_constants by simp
  then show ?thesis
    unfolding run
    by (intro exI [of _ signers])
       (simp add: execute_instruction_eq transfer_message_def client_constants client_is_writable_def
        ID_not_system_program [symmetric] MAX_CPI_ACCOUNTS_def parsed_message_def message_of_def
        header_of_def message_is_writable_def message_is_signer_def)
qed

text \<open>What the client's own messages do when they run. Under the same guards, a proposal that carries the
  client's configuration message changes the configuration by exactly that action, applied as the owners'
  and paid for by the executor; one that carries the client's transfer message calls the system program once, with the
  vault as the writable signer and the destination writable, and signs the call for the address the
  proposal's vault seeds derive.\<close>

lemma client_messages_execute:
  assumes own: "acc_owner (s ms) = ID" "acc_owner (s tx) = ID"
    and load: "ms_load (data_ptr (s ms)) (acc_data (s ms)) = Inr (c, os, ps)"
      "tx_load (data_ptr (s tx)) (acc_data (s tx)) = Inr (h, v, m)"
    and wf: "tx_wf h v m" "tx_multisig h = ms" "tx_status h = status_to_u8 Approved"
    and permitted: "is_owner os executor = Some i" "ps ! i = 0 \<or> ps ! i AND EXECUTE \<noteq> 0"
    and lock: "ms_time_lock c = 0 \<or> (\<exists>now. rt_clock rt = Inr now \<and>
      int (unat (ms_time_lock c)) \<le> sint now - sint (tx_approved_at h) \<and>
      sint now - sint (tx_approved_at h) < 2 ^ 63)"
  defines "executed \<equiv> set_data (passed tx True) (tx_bytes (h\<lparr>tx_status := status_to_u8 Executed\<rparr>) v m) s"
  shows "(m = message_encode (config_action_message action payload) \<and> length payload < 65535 \<longrightarrow>
      submit rt (execute executor ms tx (execute_accounts (config_action_message action payload) [])) s
        = apply_config_action rt (passed ms True) (signing executor True) (action # payload) True executed) \<and>
    (m = message_encode (transfer_message vault destination lam) \<and> derive_spec rt derive \<and>
     vault = fst (vault_address derive ms (tx_vault_index h)) \<and>
     tx_vault_bump h = snd (vault_address derive ms (tx_vault_index h)) \<longrightarrow>
      (\<exists>signers. rt_pda rt (hd signers) ID = Some vault \<and>
        submit rt (execute executor ms tx (execute_accounts (transfer_message vault destination lam) [])) s
          = rt_invoke rt \<lparr>cpi_program = system_program,
                cpi_metas = [(vault, True, True), (destination, True, False)],
                cpi_data = to_le_bytes 4 (2 :: u32) @ to_le_bytes 8 lam\<rparr>
              [passed vault True, passed destination True] signers executed))"
proof -
  have ready: "executable_by executor rt s ms tx h v m"
    unfolding executable_by_def using own load wf permitted lock by blast
  show ?thesis
    unfolding executed_def
    using config_message_executes [of executor rt s ms tx h v action payload]
      transfer_message_executes [of executor rt s ms tx h v vault destination lam derive] ready
    by auto
qed


end
