(* ===== verification/Staleness.thy ===== *)
theory Staleness
  imports Config_Moves Progress
begin

text \<open>
  What a change of the configuration means for a proposal that is already Approved. Staleness guards the votes, not
  the execution (vote.rs against execute.rs): the owners lose the vote that would cancel the proposal, and keep the
  power to execute it.
\<close>

text \<open>An Approved proposal that is stale takes no vote to cancel, whoever signs.\<close>

lemma stale_refuses_cancel:
  assumes own: "acc_owner (account_of s multisig) = pid" "acc_owner (account_of s transaction) = pid"
    and ms: "ms_load (ptr_of s multisig) (data_of s multisig) = Inr (c, os, ps)"
    and tx: "tx_load (ptr_of s transaction) (data_of s transaction) = Inr (h, v, m)" "tx_multisig h = v_address multisig"
      "tx_status h = status_to_u8 Approved" "tx_index h \<le> ms_stale_transaction_index c"
    and owner: "v_signer signer" "is_owner os (v_address signer) = Some i"
  shows "process_cancel pid (signer # multisig # transaction # remaining) [] s = fail StaleTransaction"
proof -
  have "prepare pid signer multisig transaction [] False s = Inr
     \<lparr>vt_index = i, vt_threshold = ms_threshold c, vt_cutoff = cutoff c, vt_owners_count = ms_owners_count c,
      vt_stale_index = ms_stale_transaction_index c, vt_can_vote = mask_can_vote (ps ! i)\<rparr>"
    using own ms owner by (simp add: prepare_Inr)
  moreover have "status_from_u8 (tx_status h) = Inr Approved" using tx(3) by (simp add: status_from_u8_Inr)
  ultimately show ?thesis using tx(1,2,4) by (simp add: process_cancel_def tx_load_mut_eq check_votable_def)
qed

lemma cancel_only_by_owners:
  assumes "process_cancel pid (signer # multisig # transaction # remaining) instr s = Inr s'"
    and "ms_load (ptr_of s multisig) (data_of s multisig) = Inr (c, os, ps)"
  shows "instr = [] \<and> v_signer signer \<and> (\<exists>i. is_owner os (v_address signer) = Some i)"
  using assms by (auto simp: process_cancel_def and_then_Inr prepare_Inr)

text \<open>C27: a change of the configuration does not stop an Approved proposal, and takes away the only way to stop it. After any
  configuration action but closing, whether an executed proposal carried it or the config authority asked for it,
  every call to cancel a proposal approved before fails, for every signer, and with the program's StaleTransaction
  for an owner's own call. The proposal itself is untouched and still Approved: an owner allowed to execute, once
  the time lock in force is over, passes every guard of its execution.\<close>

theorem approved_outlives_change:
  assumes spec: "resize_spec rt" "transfer_spec rt" "close_spec rt" and apart: "tx \<noteq> v_address multisig"
    and ms: "acc_owner (account_of s multisig) = ID"
      "ms_load (ptr_of s multisig) (data_of s multisig) = Inr (c, os, ps)" "ms_wf c os ps"
    and tx: "acc_owner (s tx) = ID" "tx_load (data_ptr (s tx)) (acc_data (s tx)) = Inr (h, v, m)" "tx_wf h v m"
      "tx_multisig h = v_address multisig" "tx_status h = status_to_u8 Approved" "tx_index h \<le> ms_transaction_index c"
    and change: "apply_config_action rt multisig payer (tag # payload) via s = Inr s'" "tag \<noteq> 6"
  shows "\<exists>c' os' ps'. ms_load (ptr_of s' multisig) (data_of s' multisig) = Inr (c', os', ps') \<and>
     (\<forall>signer remaining instr s''.
        process_cancel ID (signer # multisig # passed tx True # remaining) instr s' \<noteq> Inr s'') \<and>
     (\<forall>owner i. is_owner os' owner = Some i \<longrightarrow>
        submit rt (cancel owner (v_address multisig) tx) s' = fail StaleTransaction) \<and>
     tx_load (data_ptr (s' tx)) (acc_data (s' tx)) = Inr (h, v, m) \<and>
     (\<forall>owner i rt' now. is_owner os' owner = Some i \<longrightarrow> ps' ! i = 0 \<or> ps' ! i AND EXECUTE \<noteq> 0 \<longrightarrow>
        rt_clock rt' = Inr now \<longrightarrow> int (unat (ms_time_lock c')) \<le> sint now - sint (tx_approved_at h) \<longrightarrow>
        sint now - sint (tx_approved_at h) < 2 ^ 63 \<longrightarrow>
        begin_execution rt' ID (signing owner True) (passed (v_address multisig) True) (passed tx True) [] s'
          = Inr (marked_executed tx h v m s', h\<lparr>tx_status := status_to_u8 Executed\<rparr>))"
proof -
  let ?M = "v_address multisig"
  obtain c' os' ps' where ms': "ms_load (ptr_of s' multisig) (data_of s' multisig) = Inr (c', os', ps')"
    and stale: "ms_stale_transaction_index c' = ms_transaction_index c"
    using config_action_effect [OF spec(1,2) ms(2,3) change] by blast
  have own': "acc_owner (s' ?M) = ID" using config_action_owner [OF spec(1,2) ms(2) change] ms(1) by simp
  have same: "acc_data (s' tx) = acc_data (s tx)" "acc_owner (s' tx) = acc_owner (s tx)" "data_ptr (s' tx) = data_ptr (s tx)"
    using apply_config_action_frame [OF spec change(1) apart] by blast+
  have tx': "tx_load (data_ptr (s' tx)) (acc_data (s' tx)) = Inr (h, v, m)" using tx(2) by (simp add: same)
  have refused: "process_cancel ID (signer # multisig # passed tx True # remaining) [] s' = fail StaleTransaction"
    if "v_signer signer" "is_owner os' (v_address signer) = Some i" for signer i and remaining :: "view list"
    by (rule stale_refuses_cancel [where s = s' and multisig = multisig and os = os', OF _ _ ms'])
       (use tx tx' own' stale that in \<open>simp_all add: same\<close>)
  have "process_cancel ID (signer # multisig # passed tx True # remaining) instr s' \<noteq> Inr s''" for signer remaining instr s''
  proof
    assume run: "process_cancel ID (signer # multisig # passed tx True # remaining) instr s' = Inr s''"
    then obtain i where "instr = []" "v_signer signer" "is_owner os' (v_address signer) = Some i"
      using cancel_only_by_owners [where s = s' and multisig = multisig and os = os', OF run ms'] by blast
    then show False using run refused [of signer i remaining] by (simp add: fail_def)
  qed
  moreover have "submit rt (cancel owner ?M tx) s' = fail StaleTransaction" if "is_owner os' owner = Some i" for owner i
    using stale_refuses_cancel [where s = s' and multisig = "passed ?M True" and transaction = "passed tx True"
        and signer = "signing owner False" and remaining = "[]" and pid = ID] tx tx' own' ms' stale that
    by (simp add: same client_reaches_handlers)
  moreover have "begin_execution rt' ID (signing owner True) (passed ?M True) (passed tx True) [] s'
      = Inr (marked_executed tx h v m s', h\<lparr>tx_status := status_to_u8 Executed\<rparr>)"
    if "is_owner os' owner = Some i" "ps' ! i = 0 \<or> ps' ! i AND EXECUTE \<noteq> 0" "rt_clock rt' = Inr now"
      "int (unat (ms_time_lock c')) \<le> sint now - sint (tx_approved_at h)" "sint now - sint (tx_approved_at h) < 2 ^ 63"
    for owner i rt' now
    by (rule execution_begins) (use tx tx' own' ms' same that in \<open>auto simp: executable_by_def\<close>)
  ultimately show ?thesis using ms' tx' by blast
qed

end
