(* ===== verification/Confusion.thy ===== *)
theory Confusion
  imports Close_Transaction Config_Changes
begin

text \<open>
  What follows from the accounts carrying no tag of their kind: the readers of src/state check a length
  and an alignment, so a buffer whose bytes its creator chose also loads as a proposal, and as a
  configuration. The handlers then accept it: \<open>close_transaction\<close> counts it as a finished proposal, and
  \<open>set_config\<close> takes its creator for its config authority. A configuration whose proposal counter has the right
  value is read as a buffer in turn, and its config authority may close it as one.
\<close>

section \<open>A buffer taken for a proposal\<close>

text \<open>The header of a buffer read as the header of a proposal.\<close>

lemma buffer_header_as_transaction:
  assumes "drop 16 (as_array (buf_final_hash b)) = replicate 16 0"
  defines "h \<equiv> tx_decode (buf_encode b)"
  shows "tx_encode h = buf_encode b" "tx_multisig h = buf_multisig b" "tx_creator h = buf_creator b"
    "tx_owners_count h = 0" "tx_message_len h = buf_final_size b"
    "tx_status h = ucast (buf_written b)"
proof -
  let ?hash = "as_array (buf_final_hash b)"
  show "tx_encode h = buf_encode b" unfolding h_def by (rule tx_encode_decode) simp
  show "tx_multisig h = buf_multisig b" "tx_creator h = buf_creator b" "tx_message_len h = buf_final_size b"
    by (simp_all add: h_def tx_decode_def buf_encode_def from_to_le_bytes)
  have "slice 80 4 (buf_encode b) = slice 16 4 ?hash" by (simp add: buf_encode_def)
  also have "\<dots> = [0, 0, 0, 0]" unfolding slice_def assms(1) by (simp add: numeral_eq_Suc)
  finally show "tx_owners_count h = 0" by (simp add: h_def tx_decode_def)
  have "slice 100 1 (buf_encode b) = take 1 (to_le_bytes 4 (buf_written b))"
    by (simp add: buf_encode_def slice_def)
  also have "\<dots> = [ucast (buf_written b)]" by (simp add: to_le_bytes_def upt_rec)
  finally show "tx_status h = ucast (buf_written b)" by (simp add: h_def tx_decode_def)
qed


lemma buffer_loads_as_transaction:
  assumes "drop 16 (as_array (buf_final_hash b)) = replicate 16 0"
    and "length region = unat (buf_final_size b)" "8 dvd ptr"
  shows "tx_load ptr (buf_bytes b region) =
     Inr (tx_decode (buf_encode b), \<lparr>v_approved = [], v_rejected = [], v_cancelled = []\<rparr>, region)"
  using assms(2,3) buffer_header_as_transaction [OF assms(1)]
  by (simp add: tx_load_Inr tx_bytes_def buf_bytes_def votes_fit_def len_for_def)

text \<open>C37: closing does not tell a proposal from an upload buffer. Under a multisig with no rent collector that has
  counted fewer closed proposals than it has made, take a buffer of this multisig whose committed hash is the creator's
  choice and ends in sixteen zero bytes, and whose count of written bytes has a low byte that is the number of a
  finished status; its data is aligned to eight bytes, as the runtime aligns it, and its lamports and its creator's together are below 2 to the 64. Then
  \<open>close_transaction\<close> accepts it without anybody's signature: every lamport of it is credited to its
  creator, the account is emptied and handed to the system program, and the multisig's count of closed proposals goes up by one
  although no proposal was closed; no other account changes.\<close>

theorem buffer_closes_as_transaction:
  assumes own: "acc_owner (account_of s buf) = pid" "acc_owner (account_of s multisig) = pid"
    and ms: "ms_load (ptr_of s multisig) (data_of s multisig) = Inr (c, os, ps)" "ms_wf c os ps"
      "ms_rent_collector c = default_address" "ms_closed_transaction_count c < ms_transaction_index c"
    and buf: "buf_load (ptr_of s buf) (data_of s buf) = Inr (b, region)" "8 dvd ptr_of s buf"
      "buf_multisig b = v_address multisig" "buf_creator b = v_address destination"
    and chosen: "drop 16 (as_array (buf_final_hash b)) = replicate 16 0"
      "ucast (buf_written b) \<in> {status_to_u8 Executed, status_to_u8 Rejected, status_to_u8 Cancelled}"
    and room: "unat (lamports (account_of s destination)) + unat (lamports (account_of s buf)) < 2 ^ 64"
    and differ: "v_address buf \<noteq> v_address multisig" "v_address buf \<noteq> v_address destination"
    and rt: "close_spec rt" "\<And>v t. \<exists>t'. rt_close rt v t = Inr t'"
  shows "\<exists>s'. process_close_transaction rt pid (buf # multisig # destination # remaining) [] s = Inr s' \<and>
     ms_load (ptr_of s' multisig) (data_of s' multisig)
       = Inr (c\<lparr>ms_closed_transaction_count := ms_closed_transaction_count c + 1\<rparr>, os, ps) \<and>
     unat (lamports (account_of s' destination))
       = unat (lamports (account_of s destination)) + unat (lamports (account_of s buf)) \<and>
     lamports (account_of s' buf) = 0 \<and> data_of s' buf = [] \<and> acc_owner (account_of s' buf) = system_program \<and>
     (\<forall>a. a \<notin> {v_address buf, v_address multisig, v_address destination} \<longrightarrow> s' a = s a)"
proof -
  let ?h = "tx_decode (buf_encode b)"
  note h = buffer_header_as_transaction [OF chosen(1)]
  have load: "tx_load (ptr_of s buf) (data_of s buf)
      = Inr (?h, \<lparr>v_approved = [], v_rejected = [], v_cancelled = []\<rparr>, region)"
    using buffer_loads_as_transaction [OF chosen(1) _ buf(2), of region] buf(1) by (simp add: buf_load_Inr)
  have names: "tx_multisig ?h = v_address multisig" using h(2) buf(3) by simp
  have fin: "tx_status ?h \<in> {status_to_u8 Executed, status_to_u8 Rejected, status_to_u8 Cancelled}"
    unfolding h(6) by (rule chosen(2))
  have receiver: "v_address destination
      = (if ms_rent_collector c = default_address then tx_creator ?h else ms_rent_collector c)"
    using h(3) buf(4) ms(3) by simp
  obtain s' where run: "process_close_transaction rt pid (buf # multisig # destination # remaining) [] s = Inr s'"
    and counted: "ms_load (ptr_of s' multisig) (data_of s' multisig)
       = Inr (c\<lparr>ms_closed_transaction_count := ms_closed_transaction_count c + 1\<rparr>, os, ps)"
    by (rule close_transaction_accepts [OF own ms(1,2,4) load names fin receiver room differ(1) rt])
  show ?thesis
    using close_transaction_effect [OF rt(1) run differ ms(1,2)] run counted by blast
qed


section \<open>A buffer taken for a configuration\<close>

lemma buffer_configured_by_creator:
  assumes own: "acc_owner (account_of s buf) = pid"
    and buf: "buf_load (ptr_of s buf) (data_of s buf) = Inr (b, region)"
    and ms: "ms_load (ptr_of s buf) (data_of s buf) = Inr (c, os, ps)"
    and creator: "v_signer creator" "v_address creator = buf_creator b" "buf_creator b \<noteq> default_address"
  shows "process_set_config rt pid (creator # buf # remaining) instr s
    = apply_config_action rt buf creator instr False s"
proof -
  have "slice 32 32 (ms_bytes c os ps) = slice 32 32 (buf_bytes b region)"
    using buf ms by (simp add: buf_load_Inr ms_load_Inr)
  then have "as_array (ms_config_authority c) = as_array (buf_creator b)"
    by (simp add: ms_bytes_def ms_encode_def buf_bytes_def buf_encode_def)
  then have "ms_config_authority c = v_address creator" using creator(2) by (simp add: as_array_inject)
  then show ?thesis
    using own creator ms by (simp add: process_set_config_def is_controlled_def)
qed


text \<open>The first 104 bytes of a configuration, the counters of its owners excepted, survive the addition of an owner.\<close>

lemma added_owner_prefix: "take 104 (ms_bytes (added_owner c) os' ps') = take 104 (ms_bytes c os ps)"
  by (simp add: ms_bytes_def ms_encode_def added_owner_def)

lemma slice_of_prefix: "take k xs = take k ys \<Longrightarrow> i + n \<le> k \<Longrightarrow> slice i n xs = slice i n ys"
proof -
  assume e: "take k xs = take k ys" and le: "i + n \<le> k"
  have "slice i n zs = slice i n (take k zs)" for zs :: "'a list"
    using le by (simp add: slice_def drop_take min_def)
  then show ?thesis using e by metis
qed

lemma slice_take: "i + n \<le> k \<Longrightarrow> slice i n (take k xs) = slice i n xs"
  by (rule slice_of_prefix [of k]) simp_all

lemma configured_buffer_loads_as_transaction:
  assumes spec: "resize_spec rt" "transfer_spec rt"
    and buf: "buf_load (ptr_of s buf) (data_of s buf) = Inr (b, region)"
    and ms: "ms_load (ptr_of s buf) (data_of s buf) = Inr (c, os, ps)"
    and run: "process_set_config rt pid (creator # buf # remaining) (0 # payload) s = Inr s'"
    and chosen: "len_for (unat (from_le_bytes (slice 16 4 (as_array (buf_final_hash b))) :: u32)) = 11"
  shows "\<exists>h v m. tx_load (ptr_of s' buf) (data_of s' buf) = Inr (h, v, m) \<and>
     tx_multisig h = buf_multisig b \<and> tx_status h = ucast (buf_written b)"
proof -
  have "config_action_from_u8 0 = Inr AddOwner" by (simp add: config_action_from_u8_def)
  then have add: "add_owner rt buf creator payload s = Inr s'"
    using run by (auto simp: process_set_config_def apply_config_action_def handler_steps)
  obtain pos where d': "data_of s' buf = ms_bytes (added_owner c)
      (insert_at pos (new_from_array payload) os) (insert_at pos 0 ps)"
    and p': "ptr_of s' buf = ptr_of s buf" and pos: "binary_search os (new_from_array payload) = Inl pos"
    by (rule add_owner_effect [OF spec, where s = s and multisig = buf, OF ms add])
  have same: "take 104 (data_of s' buf) = take 104 (data_of s buf)"
    using ms unfolding d' by (simp only: ms_load_Inr added_owner_prefix [of c _ _ os ps])
  have d: "data_of s buf = buf_bytes b region" "length region = unat (buf_final_size b)"
    and ptr: "8 dvd ptr_of s buf" using buf ms by (simp_all add: buf_load_Inr ms_load_Inr)
  have "pos \<le> length os" "length ps = length os" using bs.search_Inl_le [OF pos] ms by (simp_all add: ms_load_Inr)
  then have len: "length (data_of s' buf) = length (data_of s buf) + 33"
    using ms unfolding d' by (simp add: ms_load_Inr ms_bytes_def addr.length_encode_array)
  then have len': "length (data_of s' buf) = 145 + unat (buf_final_size b)"
    using d by (simp add: buf_bytes_def)
  let ?h = "tx_decode (take TX_LEN (data_of s' buf))"
  have field: "slice i n (take TX_LEN (data_of s' buf)) = slice i n (buf_encode b)" if "i + n \<le> 104" for i n
    using slice_of_prefix [OF same that] that unfolding d
    by (simp add: slice_take TX_LEN_def buf_bytes_def)
  have h: "tx_multisig ?h = buf_multisig b" "tx_message_len ?h = buf_final_size b"
    by (simp_all add: tx_decode_def field buf_encode_def from_to_le_bytes)
  have "slice 80 4 (buf_encode b) = slice 16 4 (as_array (buf_final_hash b))" by (simp add: buf_encode_def)
  then have n: "len_for (unat (tx_owners_count ?h)) = 11"
    using chosen by (simp add: tx_decode_def field)
  have "slice 100 1 (buf_encode b) = take 1 (to_le_bytes 4 (buf_written b))"
    by (simp add: buf_encode_def slice_def)
  also have "\<dots> = [ucast (buf_written b)]" by (simp add: to_le_bytes_def upt_rec)
  finally have st: "tx_status ?h = ucast (buf_written b)" by (simp add: tx_decode_def field)
  have fits: "length (drop TX_LEN (data_of s' buf)) = 3 * 11 + unat (tx_message_len ?h)"
    using len' h(2) by (simp add: TX_LEN_def)
  have "TX_LEN \<le> length (data_of s' buf) \<and> ptr_of s' buf mod 8 = 0"
    using len' ptr p' by (simp add: TX_LEN_def dvd_eq_mod_eq_0)
  then have "tx_check (ptr_of s' buf) (data_of s' buf) = Inr ()" by (simp add: tx_check_def)
  then have "tx_load (ptr_of s' buf) (data_of s' buf) = (case split_votes 11 (drop TX_LEN (data_of s' buf)) of
      (v, m) \<Rightarrow> Inr (?h, v, m))"
    by (simp only: tx_load_def and_then_simps Let_def n fits simp_thms if_False)
  then show ?thesis using h(1) st by (cases "split_votes 11 (drop TX_LEN (data_of s' buf))") simp
qed

section \<open>A configuration taken for a buffer\<close>

text \<open>The other way round: the config authority stands where a buffer names its creator, and the low half of the
  proposal counter where it keeps its size. Once the counter has reached the right number, the authority closes
  the configuration as its own upload: open proposals and the rent collector are not asked.\<close>

lemma configuration_closes_as_buffer:
  assumes own: "acc_owner (account_of s multisig) = pid"
    and ms: "ms_load (ptr_of s multisig) (data_of s multisig) = Inr (c, os, ps)"
    and counter: "unat (ucast (ms_transaction_index c) :: u32) = 32 + 33 * length os"
    and authority: "v_signer authority" "v_address authority = ms_config_authority c"
    and room: "unat (lamports (account_of s authority)) + unat (lamports (account_of s multisig)) < 2 ^ 64"
    and rt: "close_spec rt" "\<And>v t. \<exists>t'. rt_close rt v t = Inr t'"
  shows "\<exists>s'. process_buffer_close rt pid (authority # multisig # remaining) [] s = Inr s' \<and>
     data_of s' multisig = [] \<and> acc_owner (account_of s' multisig) = system_program"
proof -
  let ?d = "data_of s multisig"
  let ?h = "buf_decode (take BUF_LEN ?d)"
  have d: "?d = ms_bytes c os ps" "8 dvd ptr_of s multisig" "length ps = length os"
    using ms by (simp_all add: ms_load_Inr)
  have len: "length ?d = 144 + 33 * length os"
    using d by (simp add: length_ms_bytes ms_space_def MS_LEN_def)
  have field: "slice i n (take BUF_LEN ?d) = slice i n (ms_encode c)" if "i + n \<le> 112" for i n
    using that unfolding d by (simp add: slice_take BUF_LEN_def ms_bytes_def)
  have "slice 96 4 (ms_encode c) = take 4 (to_le_bytes 8 (ms_transaction_index c))"
    by (simp add: ms_encode_def slice_def)
  also have "\<dots> = to_le_bytes 4 (ucast (ms_transaction_index c) :: u32)"
    by (auto simp: to_le_bytes_def upt_rec bit_simps intro!: bit_word_eqI)
  finally have size: "buf_final_size ?h = ucast (ms_transaction_index c)" "buf_creator ?h = ms_config_authority c"
    by (simp_all add: buf_decode_def field from_to_le_bytes) (simp add: ms_encode_def)
  have "ptr_of s multisig mod 4 = 0" using d(2) by presburger
  then have load: "buf_load (ptr_of s multisig) ?d = Inr (?h, drop BUF_LEN ?d)"
    using len counter size(1) by (simp add: buf_load_def Let_def BUF_LEN_def)
  obtain s' where s': "rt_close rt multisig (set_lamports multisig 0 (set_lamports authority
      (lamports (account_of s authority) + lamports (account_of s multisig)) s)) = Inr s'"
    using rt(2) by blast
  have close: "close_buffer rt multisig authority s = Inr s'"
    using s' room by (simp add: close_buffer_def Let_def checked_add_def)
  then have "process_buffer_close rt pid (authority # multisig # remaining) [] s = Inr s'"
    using own authority size(2) load by (simp add: process_buffer_close_def)
  moreover have "data_of s' multisig = []" "acc_owner (account_of s' multisig) = system_program"
    using s' rt(1) unfolding close_spec_def by fastforce+
  ultimately show ?thesis by blast
qed

end
