(* ===== verification/History.thy ===== *)
theory History
  imports Config_Moves
begin

text \<open>
  The whole program at work. \<open>history M T calls s s'\<close>: a sequence of calls of the program, by anyone and with any
  accounts and data, with the activity of other programs between them. Every call is a step in the life of
  the proposal at \<open>T\<close> (\<open>Proposal_Life\<close>): a vote on it, its execution, or something beside it. So what
  the life of a proposal promises holds of the program as it is called: nothing executes without the signatures it
  needs.
\<close>

section \<open>Calls beside a proposal\<close>

text \<open>The proposal at \<open>T\<close> stands: it is a well-formed proposal of the program's for the configuration at
  \<open>M\<close>, which, until the proposal is executed, is well formed and counts it among its proposals.\<close>

definition standing :: "address \<Rightarrow> address \<Rightarrow> address \<Rightarrow> store \<Rightarrow> bool" where
  "standing pid M T s \<longleftrightarrow> M \<noteq> T \<and> acc_owner (s T) = pid \<and>
     (\<exists>h v m. tx_load (data_ptr (s T)) (acc_data (s T)) = Inr (h, v, m) \<and> tx_wf h v m \<and> tx_multisig h = M \<and>
        (tx_status h = status_to_u8 Executed \<or> acc_owner (s M) = pid \<and>
         (\<exists>c os ps. ms_load (data_ptr (s M)) (acc_data (s M)) = Inr (c, os, ps) \<and> ms_wf c os ps \<and>
            tx_index h \<le> ms_transaction_index c)))"

definition aside :: "address \<Rightarrow> address \<Rightarrow> address \<Rightarrow> store \<Rightarrow> store \<Rightarrow> bool" where
  "aside pid M T s s' \<longleftrightarrow> kept T s s' \<and> (configured pid M s \<longrightarrow> config_moves M s s')"

lemma aside_kept: "kept T s s' \<Longrightarrow> kept M s s' \<Longrightarrow> aside pid M T s s'"
  by (simp add: aside_def kept_moves)

lemma tx_load_nonempty: "tx_load p d = Inr (h, v, m) \<Longrightarrow> d \<noteq> []"
  by (auto simp: tx_load_Inr tx_bytes_def) (metis length_tx_encode list.size(3) zero_neq_numeral)

lemma standing_nonempty:
  assumes "standing pid M T s" shows "acc_data (s T) \<noteq> []"
  using assms tx_load_nonempty unfolding standing_def by blast

lemma configured_nonempty: "configured pid M s \<Longrightarrow> acc_data (s M) \<noteq> []"
  using ms_load_nonempty unfolding configured_def by blast

lemma aside_step:
  assumes st: "standing pid M T s" and step: "aside pid M T s s'"
  shows "life_step pid M T {} s s'" "standing pid M T s'"
proof -
  obtain h v m where
      T: "M \<noteq> T" "acc_owner (s T) = pid" "tx_load (data_ptr (s T)) (acc_data (s T)) = Inr (h, v, m)"
        "tx_wf h v m" "tx_multisig h = M"
    and M: "tx_status h = status_to_u8 Executed \<or> acc_owner (s M) = pid \<and>
         (\<exists>c os ps. ms_load (data_ptr (s M)) (acc_data (s M)) = Inr (c, os, ps) \<and> ms_wf c os ps \<and>
            tx_index h \<le> ms_transaction_index c)"
    using st unfolding standing_def by blast
  have k: "kept T s s'" using step by (simp add: aside_def)
  have moved: "\<exists>c' os' ps'. acc_owner (s' M) = pid \<and>
       ms_load (data_ptr (s' M)) (acc_data (s' M)) = Inr (c', os', ps') \<and> ms_wf c' os' ps' \<and>
       tx_index h \<le> ms_transaction_index c' \<and> ms_stale_transaction_index c \<le> ms_stale_transaction_index c' \<and>
       (same_electorate (c, os, ps) (c', os', ps') \<or> tx_index h \<le> ms_stale_transaction_index c')"
    if open': "tx_status h \<noteq> status_to_u8 Executed"
      and load: "ms_load (data_ptr (s M)) (acc_data (s M)) = Inr (c, os, ps)" for c os ps
  proof -
    have own: "acc_owner (s M) = pid" "ms_wf c os ps" "tx_index h \<le> ms_transaction_index c"
      using M open' load by auto
    then have "config_moves M s s'" using step load unfolding aside_def configured_def by blast
    with load own obtain c' os' ps' where
        "acc_owner (s' M) = pid" "ms_load (data_ptr (s' M)) (acc_data (s' M)) = Inr (c', os', ps')"
        "ms_wf c' os' ps'" "ms_transaction_index c \<le> ms_transaction_index c'"
        "ms_stale_transaction_index c \<le> ms_stale_transaction_index c'"
        "same_electorate (c, os, ps) (c', os', ps') \<or> ms_transaction_index c \<le> ms_stale_transaction_index c'"
      unfolding config_moves_def by metis
    with own(3) show ?thesis using order_trans by blast
  qed
  have T': "tx_load (data_ptr (s' T)) (acc_data (s' T)) = Inr (h, v, m)" "acc_owner (s' T) = pid"
    using T k kept_loads(2) [OF k] by (simp_all add: kept_def)
  have "beside M T s s'"
    unfolding beside_def
  proof (intro conjI allI impI)
    show "acc_data (s' T) = acc_data (s T)" using k by (simp add: kept_def)
    show "8 dvd data_ptr (s' T)" if "8 dvd data_ptr (s T)" using k that by (simp add: kept_def)
  next
    fix c os ps h' v' m'
    assume load: "ms_load (data_ptr (s M)) (acc_data (s M)) = Inr (c, os, ps)"
      and "tx_load (data_ptr (s T)) (acc_data (s T)) = Inr (h', v', m')" "tx_status h' \<noteq> status_to_u8 Executed"
    then have h': "h' = h" "tx_status h \<noteq> status_to_u8 Executed" using T(3) by simp_all
    from moved [OF h'(2) load]
    show "\<exists>c' os' ps'. ms_load (data_ptr (s' M)) (acc_data (s' M)) = Inr (c', os', ps') \<and>
           ms_stale_transaction_index c \<le> ms_stale_transaction_index c' \<and>
           (same_electorate (c, os, ps) (c', os', ps') \<or> tx_index h' \<le> ms_stale_transaction_index c')"
      unfolding h'(1) by blast
  qed
  then show "life_step pid M T {} s s'" by (rule life_step.elsewhere)
  have "tx_status h = status_to_u8 Executed \<or> acc_owner (s' M) = pid \<and>
      (\<exists>c os ps. ms_load (data_ptr (s' M)) (acc_data (s' M)) = Inr (c, os, ps) \<and> ms_wf c os ps \<and>
         tx_index h \<le> ms_transaction_index c)"
    using M moved by blast
  with T(1,4,5) T' show "standing pid M T s'" unfolding standing_def by blast
qed


text \<open>The accounts a handler expects, by their place in the list: a configuration, a proposal, a buffer.\<close>

definition config_at :: "u8 \<Rightarrow> nat option" where
  "config_at tag = (if tag = 0 then Some 2 else if tag \<in> {1, 2, 3, 4, 5, 6, 7, 10, 11} then Some 1 else None)"

definition proposal_at :: "u8 \<Rightarrow> nat option" where
  "proposal_at tag = (if tag \<in> {1, 2, 3, 4, 5, 10} then Some 2 else if tag = 6 then Some 0 else None)"

definition buffer_at :: "u8 \<Rightarrow> nat option" where
  "buffer_at tag = (if tag = 7 then Some 2 else if tag \<in> {8, 9} then Some 1 else if tag = 10 then Some 3 else None)"

definition stands_at :: "address \<Rightarrow> nat option \<Rightarrow> view list \<Rightarrow> bool" where
  "stands_at a place accounts = (case place of None \<Rightarrow> False
     | Some i \<Rightarrow> i < length accounts \<and> v_address (accounts ! i) = a)"

text \<open>A call is regular for the configuration at \<open>M\<close> and the proposal at \<open>T\<close>: neither is passed for an account of
  another kind, which the handlers do not check (see \<open>Confusion\<close>), and the call closes neither: it is no
  \<open>close_transaction\<close> of the proposal, and no \<open>CloseMultisig\<close> on the configuration, on the authority's word or
  carried by another proposal.\<close>

definition regular :: "address \<Rightarrow> address \<Rightarrow> view list \<Rightarrow> bytes \<Rightarrow> store \<Rightarrow> bool" where
  "regular M T accounts data s = (case data of [] \<Rightarrow> True
     | tag # payload \<Rightarrow>
         \<not> stands_at M (proposal_at tag) accounts \<and> \<not> stands_at M (buffer_at tag) accounts \<and>
         \<not> stands_at T (config_at tag) accounts \<and> \<not> stands_at T (buffer_at tag) accounts \<and>
         \<not> (tag = 6 \<and> stands_at T (proposal_at tag) accounts) \<and>
         \<not> (tag = 11 \<and> stands_at M (config_at tag) accounts \<and> take 1 payload = [6]) \<and>
         \<not> (tag = 4 \<and> stands_at M (config_at tag) accounts \<and> \<not> stands_at T (proposal_at tag) accounts \<and>
            carries_close ID s (accounts ! 2) (drop 3 accounts)))"

lemmas places = config_at_def proposal_at_def buffer_at_def stands_at_def regular_def

lemma create_aside:
  assumes spec: "create_account_spec ID rt"
    and run: "process_create_transaction rt ID accounts payload s = Inr s'"
    and reg: "regular M T accounts (1 # payload) s" and T: "acc_data (s T) \<noteq> []"
  shows "aside ID M T s s'"
proof -
  obtain creator multisig transaction sp rest where acc: "accounts = creator # multisig # transaction # sp # rest"
    using run by (auto simp: process_create_transaction_def split: list.splits)
  note run = run [unfolded acc]
  have at: "T \<noteq> v_address multisig" using reg by (auto simp: places acc)
  have "config_moves M s s'" if c: "configured ID M s"
  proof (cases "M = v_address multisig")
    case True
    with c show ?thesis
      using init_proposal_moves [OF spec create_transaction_init(4,3) [OF run]] unfolding configured_def True by blast
  next
    case False
    from kept_moves [OF create_transaction_kept [OF spec run this configured_nonempty [OF c]]] show ?thesis .
  qed
  then show ?thesis using create_transaction_kept [OF spec run at T] by (simp add: aside_def)
qed

lemma create_from_buffer_aside:
  assumes spec: "create_account_spec ID rt" "close_spec rt"
    and run: "process_create_from_buffer rt ID accounts payload s = Inr s'"
    and reg: "regular M T accounts (10 # payload) s" and T: "acc_data (s T) \<noteq> []"
  shows "aside ID M T s s'"
proof -
  obtain creator multisig transaction buf sp rest where
      acc: "accounts = creator # multisig # transaction # buf # sp # rest"
    using run by (auto simp: process_create_from_buffer_def split: list.splits)
  note run = run [unfolded acc]
  have at: "T \<noteq> v_address multisig" "T \<noteq> v_address buf" "M \<noteq> v_address buf"
    using reg by (auto simp: places acc)
  have "config_moves M s s'" if c: "configured ID M s"
  proof (cases "M = v_address multisig")
    case True
    obtain b :: buffer and region s1 where empty: "data_of s transaction = []"
      and init: "init_proposal rt ID creator multisig transaction region (buf_vault_index b)
         (cb_vault_bump (create_from_buffer_data_of payload)) (cb_bump (create_from_buffer_data_of payload))
         (cb_ephemeral_count (create_from_buffer_data_of payload))
         (cb_ephemeral_bumps (create_from_buffer_data_of payload)) s = Inr s1"
      and close: "close_buffer rt buf creator s1 = Inr s'"
      by (rule create_from_buffer_steps [OF run])
    have "config_moves M s s1"
      using c init_proposal_moves [OF spec(1) init empty] unfolding configured_def True by blast
    from config_moves_trans [OF this kept_moves [OF kept_close_buffer [OF spec(2) close at(3)]]] show ?thesis .
  next
    case False
    from kept_moves [OF create_from_buffer_kept [OF spec run this at(3) configured_nonempty [OF c]]] show ?thesis .
  qed
  then show ?thesis using create_from_buffer_kept [OF spec run at(1,2) T] by (simp add: aside_def)
qed

lemma close_transaction_aside:
  assumes spec: "close_spec rt"
    and run: "process_close_transaction rt ID accounts payload s = Inr s'"
    and reg: "regular M T accounts (6 # payload) s"
  shows "aside ID M T s s'"
proof -
  obtain transaction multisig destination rest where acc: "accounts = transaction # multisig # destination # rest"
    using run by (auto simp: process_close_transaction_def split: list.splits)
  note run = run [unfolded acc]
  have at: "T \<noteq> v_address transaction" "T \<noteq> v_address multisig" "M \<noteq> v_address transaction"
    using reg by (auto simp: places acc)
  have "config_moves M s s'" if c: "configured ID M s"
  proof (cases "M = v_address multisig")
    case True
    with c at(3) show ?thesis
      using close_transaction_moves [OF spec run] unfolding configured_def True by blast
  next
    case False
    from kept_moves [OF close_transaction_kept [OF spec run at(3) this]] show ?thesis .
  qed
  then show ?thesis using close_transaction_kept [OF spec run at(1,2)] by (simp add: aside_def)
qed

lemma set_config_aside:
  assumes spec: "resize_spec rt" "transfer_spec rt" "close_spec rt"
    and run: "process_set_config rt ID accounts payload s = Inr s'"
    and reg: "regular M T accounts (11 # payload) s"
  shows "aside ID M T s s'"
proof -
  obtain authority multisig rest where acc: "accounts = authority # multisig # rest"
    using run by (auto simp: process_set_config_def split: list.splits)
  note run = run [unfolded acc]
  have at: "T \<noteq> v_address multisig" using reg by (auto simp: places acc)
  have "config_moves M s s'" if c: "configured ID M s"
  proof (cases "M = v_address multisig")
    case True
    have "take 1 payload \<noteq> [6]" using reg True by (auto simp: places acc)
    moreover have "apply_config_action rt multisig authority payload False s = Inr s'"
      using run unfolding process_set_config_def list.case handler_steps by blast
    ultimately show ?thesis
      using c config_action_moves [OF spec(1,2)] unfolding configured_def True by blast
  next
    case False
    from kept_moves [OF set_config_kept [OF spec run this]] show ?thesis .
  qed
  then show ?thesis using set_config_kept [OF spec run at] by (simp add: aside_def)
qed

lemma buffers_aside:
  assumes spec: "create_account_spec ID rt" "close_spec rt"
    and run: "process_buffer_create rt ID accounts payload s = Inr s' \<and> regular M T accounts (7 # payload) s \<or>
      process_buffer_extend rt ID accounts payload s = Inr s' \<and> regular M T accounts (8 # payload) s \<or>
      process_buffer_close rt ID accounts payload s = Inr s' \<and> regular M T accounts (9 # payload) s \<or>
      process_init_multisig rt ID accounts payload s = Inr s' \<and> regular M T accounts (0 # payload) s"
    and T: "acc_data (s T) \<noteq> []"
  shows "aside ID M T s s'"
  using run
proof (elim disjE conjE)
  assume run: "process_buffer_create rt ID accounts payload s = Inr s'"
  obtain creator multisig buf sp rest where "accounts = creator # multisig # buf # sp # rest"
    using run by (auto simp: process_buffer_create_def split: list.splits)
  with run show ?thesis
    using buffer_create_kept [OF spec(1)] T configured_nonempty kept_moves unfolding aside_def by metis
next
  assume run: "process_init_multisig rt ID accounts payload s = Inr s'"
  obtain creator create_key multisig sp rest where "accounts = creator # create_key # multisig # sp # rest"
    using run by (auto simp: process_init_multisig_def split: list.splits)
  with run show ?thesis
    using init_multisig_kept [OF spec(1)] T configured_nonempty kept_moves unfolding aside_def by metis
next
  assume run: "process_buffer_extend rt ID accounts payload s = Inr s'" and reg: "regular M T accounts (8 # payload) s"
  obtain creator buf rest where acc: "accounts = creator # buf # rest"
    using run by (auto simp: process_buffer_extend_def split: list.splits)
  have "T \<noteq> v_address buf" "M \<noteq> v_address buf" using reg by (auto simp: places acc)
  with buffer_extend_kept [OF run [unfolded acc]] show ?thesis by (simp add: aside_kept)
next
  assume run: "process_buffer_close rt ID accounts payload s = Inr s'" and reg: "regular M T accounts (9 # payload) s"
  obtain creator buf rest where acc: "accounts = creator # buf # rest"
    using run by (auto simp: process_buffer_close_def split: list.splits)
  have "T \<noteq> v_address buf" "M \<noteq> v_address buf" using reg by (auto simp: places acc)
  with buffer_close_kept [OF spec(2) run [unfolded acc]] show ?thesis by (simp add: aside_kept)
qed


section \<open>Calls on a proposal\<close>

lemma vote_stands:
  assumes rt: "runtime_ok pid rt" and st: "standing pid M T s" and T: "v_address transaction = T"
    and run: "process_approve rt pid (signer # multisig # transaction # remaining) instr s = Inr s' \<or>
       process_reject pid (signer # multisig # transaction # remaining) instr s = Inr s' \<or>
       process_cancel pid (signer # multisig # transaction # remaining) instr s = Inr s'"
  shows "v_address multisig = M" "v_signer signer" "standing pid M T s'"
proof -
  obtain d where s': "s' = set_data transaction d s" and signer: "v_signer signer"
    using votes_write [OF run] by blast
  obtain h v m where
      t: "M \<noteq> T" "acc_owner (s T) = pid" "tx_load (data_ptr (s T)) (acc_data (s T)) = Inr (h, v, m)"
        "tx_wf h v m" "tx_multisig h = M"
    and M: "tx_status h = status_to_u8 Executed \<or> acc_owner (s M) = pid \<and>
         (\<exists>c os ps. ms_load (data_ptr (s M)) (acc_data (s M)) = Inr (c, os, ps) \<and> ms_wf c os ps \<and>
            tx_index h \<le> ms_transaction_index c)"
    using st unfolding standing_def by blast
  have load: "tx_load (ptr_of s transaction) (data_of s transaction) = Inr (h, v, m)" using t(3) T by simp
  show m: "v_address multisig = M" using votes_write [OF run] load t(5) by auto
  show "v_signer signer" by (rule signer)
  have open': "tx_status h \<noteq> status_to_u8 Executed" by (rule votable_status [OF run load])
  with M obtain c os ps where own: "acc_owner (s M) = pid"
    and ms: "ms_load (data_ptr (s M)) (acc_data (s M)) = Inr (c, os, ps)" "ms_wf c os ps"
    and idx: "tx_index h \<le> ms_transaction_index c" by blast
  have differ: "v_address transaction \<noteq> v_address multisig" using t(1) T m by simp
  have ms': "ms_load (ptr_of s multisig) (data_of s multisig) = Inr (c, os, ps)" using ms(1) m by simp
  obtain h' v' where "tx_load (ptr_of s' transaction) (data_of s' transaction) = Inr (h', v', m)"
    "tx_wf h' v' m" "proposal_kept h h'"
    using vote_or_execute_refines [OF rt differ ms' ms(2) load t(4)] run by blast
  moreover have "acc_owner (s' T) = pid" "s' M = s M" using t(1,2) T by (simp_all add: s' set_data_other)
  ultimately show "standing pid M T s'"
    using t(1,5) own ms idx T unfolding standing_def proposal_kept_def by metis
qed

lemma execute_stands:
  assumes rt: "runtime_ok pid rt" and st: "standing pid M T s" and T: "v_address transaction = T"
    and run: "process_execute rt pid (executor # multisig # transaction # remaining) instr s = Inr s'"
  shows "v_address multisig = M" "standing pid M T s'"
proof -
  obtain h v m where
      t: "M \<noteq> T" "acc_owner (s T) = pid" "tx_load (data_ptr (s T)) (acc_data (s T)) = Inr (h, v, m)"
        "tx_wf h v m" "tx_multisig h = M"
    using st unfolding standing_def by blast
  have load: "tx_load (ptr_of s transaction) (data_of s transaction) = Inr (h, v, m)" using t(3) T by simp
  show m: "v_address multisig = M"
    by (rule execute_run [OF run]) (use load t(5) in simp)
  have differ: "v_address transaction \<noteq> v_address multisig" using t(1) T m by simp
  obtain h' where h': "tx_load (ptr_of s' transaction) (data_of s' transaction) = Inr (h', v, m)" "tx_wf h' v m"
      "proposal_kept h h'" "tx_status h' = status_to_u8 Executed"
    using execute_refines [OF rt run load t(4) differ] by blast
  have "acc_owner (s' T) = pid" using execute_owner [OF rt run differ] t(2) T by simp
  with h' t(1,5) T show "standing pid M T s'" unfolding standing_def proposal_kept_def by metis
qed

section \<open>Every call is a step\<close>

text \<open>The owners whose approval a call asks for.\<close>

definition approvals :: "address \<Rightarrow> address \<Rightarrow> view list \<times> bytes \<Rightarrow> address set" where
  "approvals M T call = (case call of
     (signer # multisig # transaction # _, tag # _) \<Rightarrow>
       if tag = 2 \<and> v_signer signer \<and> v_address multisig = M \<and> v_address transaction = T
       then {v_address signer} else {}
   | _ \<Rightarrow> {})"

lemma approvals_signed:
  "a \<in> approvals M T call \<Longrightarrow> \<exists>signer w x rest p. call = (signer # w # x # rest, 2 # p) \<and> v_signer signer \<and>
     v_address signer = a \<and> v_address w = M \<and> v_address x = T"
  by (cases call) (auto simp: approvals_def split: list.splits if_splits)

lemma vote_shape:
  assumes "process_approve rt pid accounts instr s = Inr s' \<or> process_reject pid accounts instr s = Inr s' \<or>
     process_cancel pid accounts instr s = Inr s' \<or> process_execute rt pid accounts instr s = Inr s'"
  obtains signer multisig transaction remaining where "accounts = signer # multisig # transaction # remaining"
  using assms
  by (auto simp: process_approve_def process_reject_def process_cancel_def process_execute_def split: list.splits)

lemma vote_call:
  assumes rt: "runtime_ok ID rt" and st: "standing ID M T s"
    and reg: "regular M T accounts (tag # payload) s"
    and run: "tag = 2 \<and> process_approve rt ID accounts payload s = Inr s' \<or>
       tag = 3 \<and> process_reject ID accounts payload s = Inr s' \<or>
       tag = 5 \<and> process_cancel ID accounts payload s = Inr s'"
  shows "\<exists>B. life_step ID M T B s s' \<and> B \<subseteq> approvals M T (accounts, tag # payload) \<and> standing ID M T s'"
proof -
  obtain signer multisig transaction remaining where acc: "accounts = signer # multisig # transaction # remaining"
    using run by (metis vote_shape)
  from run have vote: "process_approve rt ID (signer # multisig # transaction # remaining) payload s = Inr s' \<or>
       process_reject ID (signer # multisig # transaction # remaining) payload s = Inr s' \<or>
       process_cancel ID (signer # multisig # transaction # remaining) payload s = Inr s'"
    unfolding acc by blast
  show ?thesis
  proof (cases "v_address transaction = T")
    case True
    note stands = vote_stands [OF rt st True vote]
    from run [unfolded acc] consider
        (approve) "tag = 2" "process_approve rt ID (signer # multisig # transaction # remaining) payload s = Inr s'"
      | (other) "life_step ID M T {} s s'"
      using stands(1) True by (metis life_step.rejecting life_step.cancelling)
    then show ?thesis
    proof cases
      case approve
      have "approvals M T (accounts, tag # payload) = {v_address signer}"
        using stands True approve(1) by (simp add: approvals_def acc)
      with life_step.approving [OF approve(2) stands(1) True] stands(3) show ?thesis by blast
    qed (use stands(3) in blast)
  next
    case False
    obtain d where s': "s' = set_data transaction d s" using votes_write [OF vote] by blast
    have "M \<noteq> v_address transaction" using run reg by (auto simp: places acc)
    with False have "aside ID M T s s'" by (intro aside_kept) (simp_all add: s')
    with aside_step [OF st] show ?thesis by blast
  qed
qed

lemma execute_call:
  assumes rt: "runtime_ok ID rt" and st: "standing ID M T s"
    and run: "process_execute rt ID accounts payload s = Inr s'" and reg: "regular M T accounts (4 # payload) s"
  shows "life_step ID M T {} s s' \<and> standing ID M T s'"
proof -
  have spec: "resize_spec rt" "transfer_spec rt" "close_spec rt" "invoke_spec ID rt"
    using rt by (simp_all add: runtime_ok_def)
  obtain executor multisig transaction remaining where acc: "accounts = executor # multisig # transaction # remaining"
    using run by (metis vote_shape)
  note run = run [unfolded acc]
  show ?thesis
  proof (cases "v_address transaction = T")
    case True
    note stands = execute_stands [OF rt st True run]
    from life_step.executing [OF rt run stands(1) True] stands(2) show ?thesis by blast
  next
    case False
    have at: "M \<noteq> v_address transaction" "T \<noteq> v_address multisig" using reg by (auto simp: places acc)
    have own: "acc_owner (s T) = ID" using st by (simp add: standing_def)
    have kept: "kept T s s'" using execute_kept [OF spec run at(2) _ own] False by blast
    have "config_moves M s s'" if c: "configured ID M s"
    proof (cases "M = v_address multisig")
      case True
      have "\<not> carries_close ID s transaction remaining"
        using reg True False by (auto simp: places acc)
      with c at(1) show ?thesis using moves.execution [OF spec(1,2,4) run] unfolding True by blast
    next
      case False
      have "acc_owner (s M) = ID" using c by (simp add: configured_def)
      from kept_moves [OF execute_kept [OF spec run False at(1) this]] show ?thesis .
    qed
    with kept have "aside ID M T s s'" by (simp add: aside_def)
    with aside_step [OF st] show ?thesis by blast
  qed
qed

lemma call_step:
  assumes rt: "runtime_ok ID rt" and run: "process_instruction rt ID accounts data s = Inr s'"
    and reg: "regular M T accounts data s" and st: "standing ID M T s"
  shows "\<exists>B. life_step ID M T B s s' \<and> B \<subseteq> approvals M T (accounts, data) \<and> standing ID M T s'"
proof -
  note spec = rt [unfolded runtime_ok_def]
  obtain tag payload where data: "data = tag # payload" using run by (cases data) (auto simp: process_instruction_def)
  note nonempty = standing_nonempty [OF st]
  have other: ?thesis if "aside ID M T s s'" using aside_step [OF st that] by blast
  from run reg consider
      (vote) "tag = 2 \<and> process_approve rt ID accounts payload s = Inr s' \<or>
         tag = 3 \<and> process_reject ID accounts payload s = Inr s' \<or>
         tag = 5 \<and> process_cancel ID accounts payload s = Inr s'"
    | (execute) "process_execute rt ID accounts payload s = Inr s'" "tag = 4"
    | (buffers) "process_buffer_create rt ID accounts payload s = Inr s' \<and> regular M T accounts (7 # payload) s \<or>
        process_buffer_extend rt ID accounts payload s = Inr s' \<and> regular M T accounts (8 # payload) s \<or>
        process_buffer_close rt ID accounts payload s = Inr s' \<and> regular M T accounts (9 # payload) s \<or>
        process_init_multisig rt ID accounts payload s = Inr s' \<and> regular M T accounts (0 # payload) s"
    | (create) "process_create_transaction rt ID accounts payload s = Inr s'" "tag = 1"
    | (from_buffer) "process_create_from_buffer rt ID accounts payload s = Inr s'" "tag = 10"
    | (close) "process_close_transaction rt ID accounts payload s = Inr s'" "tag = 6"
    | (config) "process_set_config rt ID accounts payload s = Inr s'" "tag = 11"
    unfolding data process_instruction_def list.case by (auto split: if_splits)
  then show ?thesis
  proof cases
    case vote
    from vote_call [OF rt st reg [unfolded data] this] show ?thesis unfolding data .
  next
    case execute
    from execute_call [OF rt st execute(1)] reg show ?thesis unfolding data execute(2) by blast
  next
    case buffers
    have "aside ID M T s s'" using buffers_aside [OF _ _ buffers nonempty] spec by blast
    then show ?thesis by (rule other)
  next
    case create
    have "aside ID M T s s'" using create_aside [OF _ create(1) _ nonempty] spec reg [unfolded data create(2)] by blast
    then show ?thesis by (rule other)
  next
    case from_buffer
    have "aside ID M T s s'" using create_from_buffer_aside [OF _ _ from_buffer(1) _ nonempty] spec reg [unfolded data from_buffer(2)] by blast
    then show ?thesis by (rule other)
  next
    case close
    have "aside ID M T s s'" using close_transaction_aside [OF _ close(1)] spec reg [unfolded data close(2)] by blast
    then show ?thesis by (rule other)
  next
    case config
    have "aside ID M T s s'" using set_config_aside [OF _ _ _ config(1)] spec reg [unfolded data config(2)] by blast
    then show ?thesis by (rule other)
  qed
qed


section \<open>Histories\<close>

text \<open>What happens outside the program: other programs run and transactions come and go, but only the
  program writes the accounts it owns or gives them away, and their data is always aligned.\<close>

definition foreign :: "store \<Rightarrow> store \<Rightarrow> bool" where
  "foreign s s' \<longleftrightarrow> (\<forall>a. acc_owner (s a) = ID \<longrightarrow> kept a s s')"

inductive history :: "address \<Rightarrow> address \<Rightarrow> (view list \<times> bytes) list \<Rightarrow> store \<Rightarrow> store \<Rightarrow> bool" for M T where
  start: "history M T [] s s"
| call: "history M T calls s s' \<Longrightarrow> runtime_ok ID rt \<Longrightarrow>
    process_instruction rt ID accounts data s' = Inr s'' \<Longrightarrow> regular M T accounts data s' \<Longrightarrow>
    history M T (calls @ [(accounts, data)]) s s''"
| outside: "history M T calls s s' \<Longrightarrow> foreign s' s'' \<Longrightarrow> history M T calls s s''"

lemma history_life:
  assumes "history M T calls s s'" "standing ID M T s"
  shows "(\<exists>A. life ID M T A s s' \<and> A \<subseteq> \<Union> (approvals M T ` set calls)) \<and> standing ID M T s'"
  using assms
proof (induction rule: history.induct)
  case (start s)
  then show ?case using life.born [of ID M T s] by blast
next
  case (call calls s s' rt accounts data s'')
  then obtain A where life: "life ID M T A s s'" "A \<subseteq> \<Union> (approvals M T ` set calls)" "standing ID M T s'"
    by blast
  obtain B where step: "life_step ID M T B s' s''" "B \<subseteq> approvals M T (accounts, data)" "standing ID M T s''"
    using call_step [OF call.hyps(2-4) life(3)] by blast
  have "A \<union> B \<subseteq> \<Union> (approvals M T ` set (calls @ [(accounts, data)]))" using life(2) step(2) by auto
  with life.goes_on [OF life(1) step(1)] step(3) show ?case by blast
next
  case (outside calls s s' s'')
  then obtain A where life: "life ID M T A s s'" "A \<subseteq> \<Union> (approvals M T ` set calls)" "standing ID M T s'"
    by blast
  have "kept T s' s''" using outside.hyps(2) life(3) by (simp add: foreign_def standing_def)
  moreover have "config_moves M s' s''" if "configured ID M s'"
    using outside.hyps(2) that by (intro kept_moves) (simp add: foreign_def configured_def)
  ultimately have "aside ID M T s' s''" by (simp add: aside_def)
  note step = aside_step [OF life(3) this]
  have "life ID M T A s s''" using life.goes_on [OF life(1) step(1)] by simp
  with life(2) step(2) show ?case by blast
qed

section \<open>From the creation of a proposal\<close>

lemma created_standing:
  assumes rt: "runtime_ok ID rt"
    and run: "process_instruction rt ID (creator # multisig # transaction # remaining) (tag # payload) s = Inr s0"
    and tag: "tag = 1 \<or> tag = 10"
    and reg: "regular (v_address multisig) (v_address transaction) (creator # multisig # transaction # remaining)
      (tag # payload) s"
    and ms: "ms_load (ptr_of s multisig) (data_of s multisig) = Inr (c, os, ps)" "ms_wf c os ps"
  obtains t m where "life_inv (v_address multisig) (v_address transaction) (c, os, ps) t m {} s0"
    "tx_multisig t = v_address multisig" "standing ID (v_address multisig) (v_address transaction) s0"
    "tx_owners_count t = ms_owners_count c"
proof -
  note result = that
  have spec: "create_account_spec ID rt" "close_spec rt" using rt by (simp_all add: runtime_ok_def)
  have stands: thesis
    if t: "life_inv (v_address multisig) (v_address transaction) (c, os, ps) t m {} u"
      "v_address multisig \<noteq> v_address transaction" "tx_multisig t = v_address multisig"
      "unat (tx_index t) = Suc (unat (ms_transaction_index c))"
      "ms_load (ptr_of u multisig) (data_of u multisig) = Inr (c\<lparr>ms_transaction_index := tx_index t\<rparr>, os, ps)"
      "ms_wf (c\<lparr>ms_transaction_index := tx_index t\<rparr>) os ps"
      "acc_owner (account_of u transaction) = ID" "acc_owner (account_of u multisig) = ID"
      "tx_owners_count t = ms_owners_count c"
    and k: "kept (v_address multisig) u s0" "kept (v_address transaction) u s0" for t m u
  proof -
    let ?M = "v_address multisig" and ?T = "v_address transaction"
    obtain h v where h: "tx_load (data_ptr (u ?T)) (acc_data (u ?T)) = Inr (h, v, m)" "tx_wf h v m" "proposal_kept t h"
      using t(1) unfolding life_inv_def prod.case by blast
    have idx: "tx_index h = tx_index t" "tx_multisig h = ?M" using h(3) t(3) by (simp_all add: proposal_kept_def)
    have "standing ID ?M ?T u"
      unfolding standing_def using t(2,5-8) h(1,2) idx by fastforce
    moreover have "aside ID ?M ?T u s0" using k by (intro aside_kept)
    ultimately have st: "standing ID ?M ?T s0" by (rule aside_step(2))
    have "life_inv ?M ?T (c, os, ps) t m ({} \<union> {}) s0"
      using life_step_inv [OF aside_step(1) t(2,1)] \<open>standing ID ?M ?T u\<close> \<open>aside ID ?M ?T u s0\<close> .
    with t(3,9) st show thesis by (intro result) simp_all
  qed
  from tag show thesis
  proof
    assume "tag = 1"
    with run have r: "process_create_transaction rt ID (creator # multisig # transaction # remaining) payload s = Inr s0"
      by (simp add: process_instruction_def)
    then obtain sp r where remaining: "remaining = sp # r"
      by (auto simp: process_create_transaction_def split: list.splits)
    note init = create_transaction_init [OF r [unfolded remaining]]
    show thesis
      by (rule created_life_inv [OF spec(1) init(4,3) ms]) (rule stands [where u = s0]; (assumption | simp add: init(2)))
  next
    assume "tag = 10"
    with run have r: "process_create_from_buffer rt ID (creator # multisig # transaction # remaining) payload s = Inr s0"
      by (simp add: process_instruction_def)
    then obtain buf sp r where remaining: "remaining = buf # sp # r"
      by (auto simp: process_create_from_buffer_def split: list.splits)
    obtain b :: buffer and region s1 where own: "acc_owner (account_of s multisig) = ID" and empty: "data_of s transaction = []"
      and init: "init_proposal rt ID creator multisig transaction region (buf_vault_index b)
         (cb_vault_bump (create_from_buffer_data_of payload)) (cb_bump (create_from_buffer_data_of payload))
         (cb_ephemeral_count (create_from_buffer_data_of payload))
         (cb_ephemeral_bumps (create_from_buffer_data_of payload)) s = Inr s1"
      and close: "close_buffer rt buf creator s1 = Inr s0"
      by (rule create_from_buffer_steps [OF r [unfolded remaining]])
    have "v_address multisig \<noteq> v_address buf" "v_address transaction \<noteq> v_address buf"
      using reg \<open>tag = 10\<close> by (auto simp: places remaining)
    note k = this [THEN kept_close_buffer [OF spec(2) close]]
    show thesis
      by (rule created_life_inv [OF spec(1) init empty ms]) (rule stands [where u = s1]; (assumption | simp add: own k))
  qed
qed

lemma executed_signed:
  assumes create: "runtime_ok ID rt0" "process_instruction rt0 ID (creator # multisig # transaction # remaining)
       (tag # payload) s = Inr s0" "tag = 1 \<or> tag = 10"
      "regular (v_address multisig) (v_address transaction) (creator # multisig # transaction # remaining)
       (tag # payload) s"
    and ms: "ms_load (ptr_of s multisig) (data_of s multisig) = Inr (c, os, ps)" "ms_wf c os ps"
    and history: "history (v_address multisig) (v_address transaction) calls s0 s1"
    and run: "process_instruction rt ID (executor # config # proposal # views) (4 # instr) s1 = Inr s2"
      "v_address proposal = v_address transaction"
  shows "\<exists>A h0 v0 h v m. A \<subseteq> voter_set os ps \<and> unat (ms_threshold c) \<le> card A \<and>
     (\<forall>a \<in> A. \<exists>signer w x rest p. (signer # w # x # rest, 2 # p) \<in> set calls \<and> v_signer signer \<and>
        v_address signer = a \<and> v_address w = v_address multisig \<and> v_address x = v_address transaction) \<and>
     tx_load (ptr_of s0 transaction) (data_of s0 transaction) = Inr (h0, v0, m) \<and>
     tx_load (ptr_of s1 transaction) (data_of s1 transaction) = Inr (h, v, m) \<and>
     tx_status h = status_to_u8 Approved \<and> v_address config = v_address multisig"
proof -
  let ?M = "v_address multisig" and ?T = "v_address transaction"
  obtain t m where inv: "life_inv ?M ?T (c, os, ps) t m {} s0" and t: "tx_multisig t = ?M"
    and st: "standing ID ?M ?T s0"
    by (rule created_standing [OF create ms])
  obtain A where life: "life ID ?M ?T A s0 s1" and A: "A \<subseteq> \<Union> (approvals ?M ?T ` set calls)"
    using history_life [OF history st] by blast
  have differ: "?M \<noteq> ?T" using st by (simp add: standing_def)
  obtain h0 v0 where h0: "tx_load (ptr_of s0 transaction) (data_of s0 transaction) = Inr (h0, v0, m)"
    using inv unfolding life_inv_def prod.case by blast
  obtain h v where h: "tx_load (ptr_of s1 transaction) (data_of s1 transaction) = Inr (h, v, m)" "tx_multisig h = ?M"
      "cast_by os (v_approved v) \<subseteq> A"
    and approved: "tx_status h = status_to_u8 Approved \<longrightarrow>
      unat (ms_threshold c) \<le> card (cast_by os (v_approved v)) \<and> cast_by os (v_approved v) \<subseteq> voter_set os ps"
    using life_inv_status [OF life_inv_life [OF life differ inv] ms(2)] t by auto
  have "process_execute rt ID (executor # config # proposal # views) instr s1 = Inr s2"
    using run(1) by (simp add: process_instruction_def)
  then have e: "tx_status h = status_to_u8 Approved" "v_address config = ?M"
    using execute_run run(2) h(1,2) by (metis Inr_inject prod.inject)+
  have signed: "\<exists>signer w x rest p. (signer # w # x # rest, 2 # p) \<in> set calls \<and> v_signer signer \<and>
      v_address signer = a \<and> v_address w = ?M \<and> v_address x = ?T" if a: "a \<in> cast_by os (v_approved v)" for a
  proof -
    obtain call where "call \<in> set calls" "a \<in> approvals ?M ?T call" using a h(3) A by blast
    then show ?thesis using approvals_signed [of a ?M ?T call] by metis
  qed
  show ?thesis
    using approved e signed h(1) h0
    by (intro exI [of _ "cast_by os (v_approved v)"] exI [of _ h0] exI [of _ v0] exI [of _ h] exI [of _ v]
        exI [of _ m]) simp
qed

text \<open>C2: nothing executes without its signatures. Take a proposal that the program created, from an instruction or
  from a buffer, under a well-formed configuration, and any history from there: calls of the program with
  whatever accounts and data, in any order, those that fail changing nothing, and whatever other programs do in between; only, no
  account of one kind is passed for another and no call closes the proposal or its configuration. If an
  execution of the proposal then succeeds, owners who could vote when it was created, at least threshold of them,
  each signed an approval of exactly this proposal that is one of the calls, and the message executed is
  the one proposed.\<close>

theorem execution_needs_signatures:
  assumes create: "runtime_ok ID rt0" "process_instruction rt0 ID (creator # multisig # transaction # remaining)
       (tag # payload) s = Inr s0" "tag = 1 \<or> tag = 10"
      "regular (v_address multisig) (v_address transaction) (creator # multisig # transaction # remaining)
       (tag # payload) s"
    and ms: "ms_load (ptr_of s multisig) (data_of s multisig) = Inr (c, os, ps)" "ms_wf c os ps"
    and history: "history (v_address multisig) (v_address transaction) calls s0 s1"
    and run: "process_instruction rt ID (executor # config # proposal # views) (4 # instr) s1 = Inr s2"
      "v_address proposal = v_address transaction"
  shows "\<exists>A h0 v0 h v m. A \<subseteq> voter_set os ps \<and> unat (ms_threshold c) \<le> card A \<and>
     (\<forall>a \<in> A. \<exists>signer w x rest p. (signer # w # x # rest, 2 # p) \<in> set calls \<and> v_signer signer \<and>
        v_address signer = a \<and> v_address w = v_address multisig \<and> v_address x = v_address transaction) \<and>
     tx_load (ptr_of s0 transaction) (data_of s0 transaction) = Inr (h0, v0, m) \<and>
     tx_load (ptr_of s1 transaction) (data_of s1 transaction) = Inr (h, v, m) \<and>
     tx_status h = status_to_u8 Approved \<and> v_address config = v_address multisig"
  by (rule executed_signed [OF assms])

end
