(* ===== verification/Decisions.thy ===== *)
theory Decisions
  imports History Progress
begin

text \<open>
  The decisions taken on one proposal, through everything that can happen to it. Every call of a history that
  votes on the proposal or executes it is one step of its ballot, and no other call touches it (\<open>history_run\<close>); so a
  proposal executes once, an owner decides once, and the decisions come to an end, while an open
  proposal can always be decided by calls that the program accepts.
\<close>

section \<open>A history is a run of the ballot\<close>

text \<open>The calls that decide: a vote on the proposal at \<open>T\<close>, or its execution.\<close>

definition decides :: "address \<Rightarrow> view list \<times> bytes \<Rightarrow> bool" where
  "decides T call = (case call of
     (_ # _ # transaction # _, tag # _) \<Rightarrow> tag \<in> {2, 3, 4, 5} \<and> v_address transaction = T
   | _ \<Rightarrow> False)"

definition ballot_at :: "address list \<Rightarrow> address \<Rightarrow> store \<Rightarrow> ballot" where
  "ballot_at owners T s = (case tx_load (data_ptr (s T)) (acc_data (s T)) of
     Inr (h, v, m) \<Rightarrow> ballot_of owners h v | Inl _ \<Rightarrow> fresh_ballot)"

lemma ballot_at_load:
  "tx_load (data_ptr (s T)) (acc_data (s T)) = Inr (h, v, m) \<Longrightarrow> ballot_at os T s = ballot_of os h v"
  by (simp add: ballot_at_def)

lemma undecided_kept:
  assumes rt: "runtime_ok ID rt" and run: "process_instruction rt ID accounts data s = Inr s'"
    and own: "acc_owner (s T) = ID" "acc_data (s T) \<noteq> []"
    and reg: "regular M T accounts data s" and other: "\<not> decides T (accounts, data)"
  shows "kept T s s'"
proof -
  obtain tag payload where data: "data = tag # payload" using run by (cases data) (auto simp: process_instruction_def)
  have "T \<notin> written accounts data"
    using run [unfolded data] reg other unfolding data
    by (cases rule: call_cases) (auto simp: written_def places decides_def)
  then show ?thesis by (rule call_kept [OF rt run own])
qed

text \<open>A deciding call that succeeds is one step of the ballot among the first electorate.\<close>

lemma vote_electorate:
  assumes st: "standing ID M T s" and inv: "life_inv M T (c, os, ps) t m A s"
    and T: "v_address transaction = T"
    and run: "process_approve rt ID (signer # multisig # transaction # remaining) payload s = Inr s' \<or>
      process_reject ID (signer # multisig # transaction # remaining) payload s = Inr s' \<or>
      process_cancel ID (signer # multisig # transaction # remaining) payload s = Inr s'"
  obtains c' h v where "v_address multisig = M" "M \<noteq> T"
    "ms_load (ptr_of s multisig) (data_of s multisig) = Inr (c', os, ps)" "ms_wf c' os ps"
    "ms_threshold c' = ms_threshold c"
    "tx_load (ptr_of s transaction) (data_of s transaction) = Inr (h, v, m)" "tx_wf h v m"
    "ballot_at os T s = ballot_of os h v"
proof -
  from inv obtain h v where
      tx: "tx_load (data_ptr (s T)) (acc_data (s T)) = Inr (h, v, m)" "tx_wf h v m"
    and e: "tx_status h = status_to_u8 Executed \<or>
        (\<exists>c' os' ps'. ms_load (data_ptr (s M)) (acc_data (s M)) = Inr (c', os', ps') \<and>
          (same_electorate (c, os, ps) (c', os', ps') \<or> tx_index h \<le> ms_stale_transaction_index c'))"
    unfolding life_inv_def prod.case by blast
  have load: "tx_load (ptr_of s transaction) (data_of s transaction) = Inr (h, v, m)" using tx(1) T by simp
  have M: "v_address multisig = M" "M \<noteq> T"
    using votes_write [OF run] load st tx(1) by (auto simp: standing_def)
  from e votable_status [OF run load] obtain c' os' ps' where
      ms: "ms_load (ptr_of s multisig) (data_of s multisig) = Inr (c', os', ps')"
    and d: "same_electorate (c, os, ps) (c', os', ps') \<or> tx_index h \<le> ms_stale_transaction_index c'"
    unfolding M(1) [symmetric] by blast
  from d votable_index [OF run ms load] have "same_electorate (c, os, ps) (c', os', ps')" by auto
  then have "os' = os" "ps' = ps" "ms_threshold c' = ms_threshold c" "ms_wf c' os' ps'"
    by (auto simp: same_electorate_def)
  with that [OF M _ _ _ load tx(2) ballot_at_load [where s = s and T = T, OF tx(1)]] ms show thesis by simp
qed

lemma decides_cases:
  assumes "decides T (accounts, data)" "process_instruction rt ID accounts data s = Inr s'"
  obtains signer multisig transaction remaining payload where
    "accounts = signer # multisig # transaction # remaining" "v_address transaction = T"
    "process_approve rt ID (signer # multisig # transaction # remaining) payload s = Inr s' \<or>
     process_reject ID (signer # multisig # transaction # remaining) payload s = Inr s' \<or>
     process_cancel ID (signer # multisig # transaction # remaining) payload s = Inr s' \<or>
     process_execute rt ID (signer # multisig # transaction # remaining) payload s = Inr s'"
proof -
  obtain tag payload where data: "data = tag # payload" using assms(1) by (cases data) (auto simp: decides_def split: list.splits)
  from assms(2) [unfolded data] show thesis
    using assms(1) unfolding data by (cases rule: call_cases) (auto simp: decides_def intro: that split: list.splits)
qed

lemma decided_step:
  assumes rt: "runtime_ok ID rt" and run: "process_instruction rt ID accounts data s = Inr s'"
    and d: "decides T (accounts, data)"
    and st: "standing ID M T s" and inv: "life_inv M T (c, os, ps) t m A s"
  shows "ballot_step (voter_set os ps) (unat (ms_threshold c)) (ballot_at os T s) (ballot_at os T s')"
proof (rule decides_cases [OF d run])
  fix signer multisig transaction :: view and remaining payload
  let ?vs = "signer # multisig # transaction # remaining"
  assume T: "v_address transaction = T"
    and call: "process_approve rt ID ?vs payload s = Inr s' \<or> process_reject ID ?vs payload s = Inr s' \<or>
      process_cancel ID ?vs payload s = Inr s' \<or> process_execute rt ID ?vs payload s = Inr s'"
  show ?thesis
  proof (cases "process_execute rt ID ?vs payload s = Inr s'")
    case True
    from inv obtain h v where
        tx: "tx_load (ptr_of s transaction) (data_of s transaction) = Inr (h, v, m)" "tx_wf h v m"
      unfolding life_inv_def prod.case T [symmetric] by blast
    have "v_address transaction \<noteq> v_address multisig"
      using execute_stands(1) [OF rt st T True] st T by (auto simp: standing_def)
    from execute_refines [OF rt True tx this] obtain h' where
      "tx_load (ptr_of s' transaction) (data_of s' transaction) = Inr (h', v, m)"
      "ballot_step (voter_set os ps) (unat (ms_threshold c)) (ballot_of os h v) (ballot_of os h' v)" by metis
    with tx(1) show ?thesis by (simp add: ballot_at_load T)
  next
    case False
    with call have vote: "process_approve rt ID ?vs payload s = Inr s' \<or>
        process_reject ID ?vs payload s = Inr s' \<or> process_cancel ID ?vs payload s = Inr s'" by blast
    obtain c' h v where M: "v_address multisig = M" "M \<noteq> T"
      and ms: "ms_load (ptr_of s multisig) (data_of s multisig) = Inr (c', os, ps)" "ms_wf c' os ps"
      and k: "ms_threshold c' = ms_threshold c"
      and tx: "tx_load (ptr_of s transaction) (data_of s transaction) = Inr (h, v, m)" "tx_wf h v m"
      and b: "ballot_at os T s = ballot_of os h v"
      by (rule vote_electorate [OF st inv T vote])
    have "v_address transaction \<noteq> v_address multisig" using M T by simp
    from vote_or_execute_refines [OF rt this ms tx call] obtain h' v' where
      "tx_load (ptr_of s' transaction) (data_of s' transaction) = Inr (h', v', m)"
      "ballot_step (voter_set os ps) (unat (ms_threshold c')) (ballot_of os h v) (ballot_of os h' v')" by blast
    then show ?thesis by (simp add: ballot_at_load T b k)
  qed
qed

lemma kept_ballot: "kept T s s' \<Longrightarrow> standing pid M T s \<Longrightarrow> ballot_at os T s' = ballot_at os T s"
  using kept_loads(2) [of T s s'] unfolding standing_def by (auto simp: ballot_at_load)

lemma history_inv:
  assumes "history M T calls s s'" "standing ID M T s" "life_inv M T cfg t m A s"
  obtains B where "standing ID M T s'" "life_inv M T cfg t m (A \<union> B) s'"
proof -
  obtain B where "life ID M T B s s'" "standing ID M T s'" using history_life [OF assms(1,2)] by blast
  with life_inv_life [of ID M T B s s' cfg t m A] assms(2,3) that show thesis by (simp add: standing_def)
qed

lemma history_run:
  assumes "history M T calls s s'" "standing ID M T s" "life_inv M T (c, os, ps) t m A s"
  shows "ballot_run (voter_set os ps) (unat (ms_threshold c)) (length (filter (decides T) calls))
     (ballot_at os T s) (ballot_at os T s')"
  using assms
proof (induction rule: history.induct)
  case (start s)
  show ?case by (simp add: ballot_run.stop)
next
  case (call calls s s' rt accounts data s'')
  note IH = call.IH [OF call.prems]
  obtain B where here: "standing ID M T s'" "life_inv M T (c, os, ps) t m (A \<union> B) s'"
    by (rule history_inv [OF call.hyps(1) call.prems])
  show ?case
  proof (cases "decides T (accounts, data)")
    case True
    from ballot_run_snoc [OF IH decided_step [OF call.hyps(2,3) True here]] True show ?thesis by simp
  next
    case False
    have "acc_owner (s' T) = ID" "acc_data (s' T) \<noteq> []"
      using here(1) standing_nonempty [OF here(1)] by (simp_all add: standing_def)
    from undecided_kept [OF call.hyps(2,3) this call.hyps(4) False] False IH here(1)
    show ?thesis by (simp add: kept_ballot)
  qed
next
  case (outside calls s s' s'')
  obtain B where here: "standing ID M T s'" "life_inv M T (c, os, ps) t m (A \<union> B) s'"
    by (rule history_inv [OF outside.hyps(1) outside.prems])
  have "kept T s' s''" using outside.hyps(2) here(1) by (simp add: foreign_def standing_def)
  with outside.IH [OF outside.prems] here(1) show ?case by (simp add: kept_ballot)
qed

section \<open>One execution\<close>

lemma executed_refuses:
  assumes "decides T (accounts, data)"
    and "tx_load (data_ptr (s T)) (acc_data (s T)) = Inr (h, v, m)" "tx_status h = status_to_u8 Executed"
  shows "process_instruction rt ID accounts data s \<noteq> Inr s'"
proof
  assume run: "process_instruction rt ID accounts data s = Inr s'"
  show False
  proof (rule decides_cases [OF assms(1) run])
    fix signer multisig transaction :: view and remaining payload
    let ?vs = "signer # multisig # transaction # remaining"
    assume T: "v_address transaction = T"
      and call: "process_approve rt ID ?vs payload s = Inr s' \<or> process_reject ID ?vs payload s = Inr s' \<or>
        process_cancel ID ?vs payload s = Inr s' \<or> process_execute rt ID ?vs payload s = Inr s'"
    have load: "tx_load (ptr_of s transaction) (data_of s transaction) = Inr (h, v, m)" using assms(2) T by simp
    have "process_execute rt ID ?vs payload s \<noteq> Inr s'"
    proof
      assume "process_execute rt ID ?vs payload s = Inr s'"
      then obtain h2 v2 m2 where "tx_load (ptr_of s transaction) (data_of s transaction) = Inr (h2, v2, m2)"
        "tx_status h2 = status_to_u8 Approved"
        by (rule execute_run)
      with load assms(3) show False by simp
    qed
    with call votable_status [of rt ID signer multisig transaction remaining payload s s', OF _ load] assms(3)
    show False by blast
  qed
qed

lemma executed_stays:
  assumes "history M T calls s s'" "acc_owner (s T) = ID"
    and "tx_load (data_ptr (s T)) (acc_data (s T)) = Inr (h, v, m)" "tx_status h = status_to_u8 Executed"
  shows "acc_owner (s' T) = ID \<and> tx_load (data_ptr (s' T)) (acc_data (s' T)) = Inr (h, v, m)"
  using assms
proof (induction rule: history.induct)
  case (call calls s s' rt accounts data s'')
  then have here: "acc_owner (s' T) = ID" "tx_load (data_ptr (s' T)) (acc_data (s' T)) = Inr (h, v, m)" by simp_all
  have "\<not> decides T (accounts, data)"
    using executed_refuses [where s = s' and T = T, OF _ here(2) call.prems(3)] call.hyps(3) by blast
  from undecided_kept [OF call.hyps(2,3) here(1) tx_load_nonempty [OF here(2)] call.hyps(4) this]
  have "kept T s' s''" .
  with here kept_loads(2) [OF this] show ?case by (simp add: kept_def)
next
  case (outside calls s s' s'')
  then have here: "acc_owner (s' T) = ID" "tx_load (data_ptr (s' T)) (acc_data (s' T)) = Inr (h, v, m)" by simp_all
  then have "kept T s' s''" using outside.hyps(2) by (simp add: foreign_def)
  with here kept_loads(2) [OF this] show ?case by (simp add: kept_def)
qed simp

text \<open>C6: a proposal executes at most once. It is marked Executed before its first inner instruction runs and stays so
  through every prefix of them, whatever the programs called do; and from a successful execution on, through any
  history, whatever is called by whom, with the clock at any time, and whatever other programs do in between,
  it stays Executed and no further execution of it succeeds. The proposal is an account of its own, not the multisig; the history only closes the proposal at no point
  and passes it for no account of another kind; \<open>M\<close> is any address, so nothing is asked of the configuration.\<close>

theorem execute_once:
  assumes rt: "runtime_ok ID rt"
    and run: "process_instruction rt ID (executor # multisig # transaction # remaining) (4 # instr) s = Inr s'"
    and differ: "v_address transaction \<noteq> v_address multisig"
  shows "(\<exists>h v m hd keys ixs lks signers s1.
       s1 = set_data transaction (tx_bytes h v m) s \<and> tx_status h = status_to_u8 Executed \<and>
       m = encode_message hd keys ixs lks \<and>
       fold_result (execute_instruction rt ID executor multisig remaining
         (message_of hd keys ixs lks) signers) ixs s1 = Inr s' \<and>
       (\<forall>k t. fold_result (execute_instruction rt ID executor multisig remaining
           (message_of hd keys ixs lks) signers) (take k ixs) s1 = Inr t \<longrightarrow>
          data_of t transaction = tx_bytes h v m) \<and>
       (\<forall>M calls s''. history M (v_address transaction) calls s' s'' \<longrightarrow>
          tx_load (ptr_of s'' transaction) (data_of s'' transaction) = Inr (h, v, m))) \<and>
     (\<forall>M calls s'' rt' executor' multisig' proposal remaining' instr' t.
        history M (v_address transaction) calls s' s'' \<longrightarrow> v_address proposal = v_address transaction \<longrightarrow>
        process_instruction rt' ID (executor' # multisig' # proposal # remaining') (4 # instr') s'' \<noteq> Inr t)"
proof -
  have spec: "resize_spec rt" "transfer_spec rt" "close_spec rt" "invoke_spec ID rt"
    using rt by (simp_all add: runtime_ok_def)
  have exec: "process_execute rt ID (executor # multisig # transaction # remaining) instr s = Inr s'"
    using run by (simp add: process_instruction_def)
  obtain h v m hd keys ixs lks signers s1 where
      first: "s1 = set_data transaction (tx_bytes h v m) s" "tx_status h = status_to_u8 Executed"
        "m = encode_message hd keys ixs lks"
        "fold_result (execute_instruction rt ID executor multisig remaining
           (message_of hd keys ixs lks) signers) ixs s1 = Inr s'"
        "\<forall>k t. fold_result (execute_instruction rt ID executor multisig remaining
           (message_of hd keys ixs lks) signers) (take k ixs) s1 = Inr t \<longrightarrow> data_of t transaction = tx_bytes h v m"
    and load: "tx_load (ptr_of s' transaction) (data_of s' transaction) = Inr (h, v, m)"
    and own: "acc_owner (account_of s' transaction) = ID"
    by (rule execution_marked [OF spec exec differ])
  have later: "tx_load (ptr_of s'' transaction) (data_of s'' transaction) = Inr (h, v, m)"
    if "history M (v_address transaction) calls s' s''" for M calls s''
    using executed_stays [OF that own load first(2)] by blast
  have "process_instruction rt' ID (executor' # multisig' # proposal # remaining') (4 # instr') s'' \<noteq> Inr t"
    if "history M (v_address transaction) calls s' s''" "v_address proposal = v_address transaction"
    for M calls s'' rt' executor' multisig' proposal remaining' instr' t
    using that(2)
    by (intro executed_refuses [where s = s'' and T = "v_address transaction", OF _ later [OF that(1)] first(2)])
       (simp add: decides_def)
  with first later show ?thesis
    by (intro conjI exI [of _ h] exI [of _ v] exI [of _ m] exI [of _ hd] exI [of _ keys]
        exI [of _ ixs] exI [of _ lks] exI [of _ signers] exI [of _ s1]) blast+
qed

section \<open>One decision of an owner\<close>

lemma vote_recorded:
  assumes st: "standing ID M T s" and inv: "life_inv M T (c, os, ps) t m A s" and tag: "tag = 2 \<or> tag = 3"
    and run: "process_instruction rt ID (owner # multisig # transaction # remaining) (tag # payload) s = Inr s'"
    and T: "v_address transaction = T"
  shows "v_address owner \<notin> b_approved (ballot_at os T s) \<union> b_rejected (ballot_at os T s)"
    "v_address owner \<in> b_approved (ballot_at os T s') \<union> b_rejected (ballot_at os T s')"
proof -
  let ?vs = "owner # multisig # transaction # remaining"
  from run tag have vote: "process_approve rt ID ?vs payload s = Inr s' \<or> process_reject ID ?vs payload s = Inr s'"
    by (auto simp: process_instruction_def)
  then have any: "process_approve rt ID ?vs payload s = Inr s' \<or> process_reject ID ?vs payload s = Inr s' \<or>
      process_cancel ID ?vs payload s = Inr s'" by blast
  obtain c' h v where ms: "ms_load (ptr_of s multisig) (data_of s multisig) = Inr (c', os, ps)" "ms_wf c' os ps"
    and tx: "tx_load (ptr_of s transaction) (data_of s transaction) = Inr (h, v, m)" "tx_wf h v m"
    and b: "ballot_at os T s = ballot_of os h v"
    by (rule vote_electorate [OF st inv T any])
  have "\<exists>h' v'. s' = set_data transaction (tx_bytes h' v' m) s \<and> tx_wf h' v' m \<and>
      v_address owner \<notin> cast_by os (v_approved v) \<union> cast_by os (v_rejected v) \<and>
      v_address owner \<in> cast_by os (v_approved v') \<union> cast_by os (v_rejected v')"
    using vote
  proof
    assume "process_approve rt ID ?vs payload s = Inr s'"
    from approve_effect [OF this ms tx] show ?thesis by blast
  next
    assume "process_reject ID ?vs payload s = Inr s'"
    from reject_effect [OF this ms tx] show ?thesis by blast
  qed
  then obtain h' v' where s': "s' = set_data transaction (tx_bytes h' v' m) s" and wf: "tx_wf h' v' m"
    and voted: "v_address owner \<notin> cast_by os (v_approved v) \<union> cast_by os (v_rejected v)"
      "v_address owner \<in> cast_by os (v_approved v') \<union> cast_by os (v_rejected v')" by blast
  have "tx_load (data_ptr (s' T)) (acc_data (s' T)) = Inr (h', v', m)"
    using tx(1) tx_wf_fits [OF wf] T by (auto simp: s' tx_load_Inr)
  then have "ballot_at os T s' = ballot_of os h' v'" by (rule ballot_at_load)
  with voted b show "v_address owner \<notin> b_approved (ballot_at os T s) \<union> b_rejected (ballot_at os T s)"
    "v_address owner \<in> b_approved (ballot_at os T s') \<union> b_rejected (ballot_at os T s')" by simp_all
qed

text \<open>C25: an owner decides once. Take a proposal that the program created under a well-formed configuration and any
  history from there, with the restrictions of \<open>regular\<close>: no account of one kind is passed for another, and
  no call closes the proposal or its configuration. Once an approval or a rejection of the proposal by an owner
  has succeeded, no approval and no rejection of it by the same owner succeeds at any later point of the history, whoever else votes
  in between, whatever becomes of the configuration and whatever the clock says.\<close>

theorem no_second_vote:
  assumes create: "runtime_ok ID rt0" "process_instruction rt0 ID (creator # multisig # transaction # remaining)
       (tag # payload) s = Inr s0" "tag = 1 \<or> tag = 10"
      "regular (v_address multisig) (v_address transaction) (creator # multisig # transaction # remaining)
       (tag # payload) s"
    and ms: "ms_load (ptr_of s multisig) (data_of s multisig) = Inr (c, os, ps)" "ms_wf c os ps"
    and before: "history (v_address multisig) (v_address transaction) calls s0 s1"
    and first: "runtime_ok ID rt1" "tag1 = 2 \<or> tag1 = 3" "v_address proposal1 = v_address transaction"
      "process_instruction rt1 ID (owner1 # config1 # proposal1 # rest1) (tag1 # p1) s1 = Inr s2"
    and after: "history (v_address multisig) (v_address transaction) calls' s2 s3"
    and again: "tag2 = 2 \<or> tag2 = 3" "v_address proposal2 = v_address transaction" "v_address owner2 = v_address owner1"
  shows "process_instruction rt2 ID (owner2 # config2 # proposal2 # rest2) (tag2 # p2) s3 \<noteq> Inr s4"
proof
  let ?M = "v_address multisig" and ?T = "v_address transaction" and ?a = "v_address owner1"
  let ?decided = "\<lambda>u. b_approved (ballot_at os ?T u) \<union> b_rejected (ballot_at os ?T u)"
  obtain t m where "life_inv ?M ?T (c, os, ps) t m {} s0" "standing ID ?M ?T s0"
    by (rule created_standing [OF create ms])
  then obtain A where s1: "standing ID ?M ?T s1" "life_inv ?M ?T (c, os, ps) t m A s1"
    by (metis history_inv [OF before])
  have vote: "process_approve rt1 ID (owner1 # config1 # proposal1 # rest1) p1 s1 = Inr s2 \<or>
      process_reject ID (owner1 # config1 # proposal1 # rest1) p1 s1 = Inr s2 \<or>
      process_cancel ID (owner1 # config1 # proposal1 # rest1) p1 s1 = Inr s2"
    using first(2,4) by (auto simp: process_instruction_def)
  note stands = vote_stands [OF first(1) s1(1) first(3) vote]
  obtain B where "life_step ID ?M ?T B s1 s2"
    using first(2-4) stands(1) life_step.approving [of rt1 ID owner1 config1 proposal1 rest1 p1 s1 s2 ?M ?T]
      life_step.rejecting [of ID owner1 config1 proposal1 rest1 p1 s1 s2 ?M ?T]
    by (auto simp: process_instruction_def)
  from life_step_inv [OF this _ s1(2)] s1(1)
  have s2: "standing ID ?M ?T s2" "life_inv ?M ?T (c, os, ps) t m (A \<union> B) s2"
    using stands(3) by (simp_all add: standing_def)
  obtain C where s3: "standing ID ?M ?T s3" "life_inv ?M ?T (c, os, ps) t m (A \<union> B \<union> C) s3"
    by (rule history_inv [OF after s2])
  have "?a \<in> ?decided s2" by (rule vote_recorded(2) [OF s1 first(2,4,3)])
  with ballot_run_keeps [OF history_run [OF after s2]] have "?a \<in> ?decided s3" by blast
  moreover assume "process_instruction rt2 ID (owner2 # config2 # proposal2 # rest2) (tag2 # p2) s3 = Inr s4"
  from vote_recorded(1) [OF s3 again(1) this again(2)] have "?a \<notin> ?decided s3" using again(3) by simp
  ultimately show False by blast
qed

section \<open>No proposal is stuck\<close>

lemma stand_open:
  assumes st: "standing ID M T s" and inv: "life_inv M T (c, os, ps) t m A s"
    and t: "tx_owners_count t = ms_owners_count c" "length os = unat (ms_owners_count c)"
    and h: "tx_load (data_ptr (s T)) (acc_data (s T)) = Inr (h, v, m)" "tx_status h \<noteq> status_to_u8 Executed"
    and ms: "ms_load (data_ptr (s M)) (acc_data (s M)) = Inr (c', os', ps')" "ms_stale_transaction_index c' < tx_index h"
  shows "os' = os" "ps' = ps" "ms_threshold c' = ms_threshold c" "ms_wf c' os ps"
    "tx_wf h v m" "tx_multisig h = M" "acc_owner (s M) = ID" "acc_owner (s T) = ID" "M \<noteq> T"
    "tx_owners_count h = ms_owners_count c'"
    "ballot_ok (voter_set os ps) (unat (ms_threshold c)) (ballot_of os h v)"
proof -
  from inv h have wf: "tx_wf h v m" and kept: "proposal_kept t h"
    and ok: "ballot_ok (voter_set os ps) (unat (ms_threshold c)) (ballot_of os h v)"
    and e: "same_electorate (c, os, ps) (c', os', ps') \<or> tx_index h \<le> ms_stale_transaction_index c'"
    using ms(1) unfolding life_inv_def prod.case by auto
  from e ms(2) have same: "same_electorate (c, os, ps) (c', os', ps')" by auto
  then show eq: "os' = os" "ps' = ps" "ms_threshold c' = ms_threshold c" "ms_wf c' os ps"
    by (auto simp: same_electorate_def)
  have "unat (ms_owners_count c') = unat (ms_owners_count c)"
    using ms(1) t(2) eq(1) by (simp add: ms_load_Inr)
  then have n: "ms_owners_count c' = ms_owners_count c" by (simp only: word_unat_eq_iff)
  from st h show "tx_multisig h = M" "acc_owner (s M) = ID" "acc_owner (s T) = ID" "M \<noteq> T"
    by (auto simp: standing_def)
  show "tx_owners_count h = ms_owners_count c'" using kept t(1) n by (simp add: proposal_kept_def)
  show "tx_wf h v m" "ballot_ok (voter_set os ps) (unat (ms_threshold c)) (ballot_of os h v)"
    by (rule wf, rule ok)
qed

text \<open>Enough undecided voters are left to make up the threshold.\<close>

lemma missing_signers:
  assumes "ms_wf c os ps" "ballot_ok (voter_set os ps) (unat (ms_threshold c)) b" "b_status b = Active"
  obtains signers where "signers \<noteq> []" "distinct signers"
    "set signers \<subseteq> voter_set os ps - (b_approved b \<union> b_rejected b \<union> b_cancelled b)"
    "card (b_approved b) + length signers = unat (ms_threshold c)"
proof -
  let ?V = "voter_set os ps" and ?k = "unat (ms_threshold c)"
  have b: "b_approved b \<union> b_rejected b \<subseteq> ?V" "b_approved b \<inter> b_rejected b = {}" "b_cancelled b = {}"
    "card (b_approved b) < ?k" "?k \<le> card ?V - card (b_rejected b)"
    using assms(2,3) by (auto simp: ballot_ok_def)
  have fin: "finite (b_approved b)" "finite (b_rejected b)"
    using b(1) finite_subset [OF _ finite_voter_set] by auto
  have "card (?V - (b_approved b \<union> b_rejected b)) = card ?V - (card (b_approved b) + card (b_rejected b))"
    using b(1,2) fin by (simp add: card_Diff_subset card_Un_disjoint)
  then have enough: "?k - card (b_approved b) \<le> card (?V - (b_approved b \<union> b_rejected b))" using b(5) by linarith
  obtain D where D: "D \<subseteq> ?V - (b_approved b \<union> b_rejected b)" "card D = ?k - card (b_approved b)"
    by (rule obtain_subset_with_card_n [OF enough]) (rule that)
  have "finite D" using finite_subset [OF D(1)] by simp
  then obtain signers where l: "set signers = D" "distinct signers" using finite_distinct_list by blast
  then have "length signers = ?k - card (b_approved b)" using D(2) distinct_card by metis
  moreover have "signers \<noteq> []" using calculation b(4) by auto
  ultimately show thesis using l D(1) b(3,4) by (intro that [of signers]) simp_all
qed

text \<open>C38: no proposal stays undecided for want of calls the program accepts. Take a proposal that the program created under
  a well-formed configuration and any history from there, with the restrictions of \<open>regular\<close>. The votes on it and executions of it that
  succeed in the whole history are at most two for each voter of the configuration it was created under and two
  more. And at every point at which it is Active and not stale, there are voters who have not decided, exactly
  as many as approvals are missing, whose approvals, submitted one after another through the client's builder, all succeed
  and leave it Approved.\<close>

theorem proposal_settles:
  assumes create: "runtime_ok ID rt0" "process_instruction rt0 ID (creator # multisig # transaction # remaining)
       (tag # payload) s = Inr s0" "tag = 1 \<or> tag = 10"
      "regular (v_address multisig) (v_address transaction) (creator # multisig # transaction # remaining)
       (tag # payload) s"
    and ms: "ms_load (ptr_of s multisig) (data_of s multisig) = Inr (c, os, ps)" "ms_wf c os ps"
    and history: "history (v_address multisig) (v_address transaction) calls s0 s1"
  shows "length (filter (decides (v_address transaction)) calls) \<le> 2 * voters ps + 2 \<and>
    (\<forall>h v m c1 os1 ps1 rt now.
       tx_load (ptr_of s1 transaction) (data_of s1 transaction) = Inr (h, v, m) \<longrightarrow> tx_status h = status_to_u8 Active \<longrightarrow>
       ms_load (ptr_of s1 multisig) (data_of s1 multisig) = Inr (c1, os1, ps1) \<longrightarrow>
       ms_stale_transaction_index c1 < tx_index h \<longrightarrow> rt_clock rt = Inr now \<longrightarrow>
       (\<exists>signers s2 h2 v2. signers \<noteq> [] \<and> distinct signers \<and>
          set signers \<subseteq> voter_set os ps - (cast_by os (v_approved v) \<union> cast_by os (v_rejected v)) \<and>
          card (cast_by os (v_approved v)) + length signers = unat (ms_threshold c) \<and>
          fold_result (\<lambda>a. submit rt (approve a (v_address multisig) (v_address transaction))) signers s1 = Inr s2 \<and>
          tx_load (ptr_of s2 transaction) (data_of s2 transaction) = Inr (h2, v2, m) \<and>
          tx_status h2 = status_to_u8 Approved))"
proof (intro conjI allI impI)
  let ?M = "v_address multisig" and ?T = "v_address transaction"
  obtain t m0 where born: "standing ID ?M ?T s0" "life_inv ?M ?T (c, os, ps) t m0 {} s0"
    and t: "tx_owners_count t = ms_owners_count c"
    by (rule created_standing [OF create ms])
  have "card (voter_set os ps) = voters ps" using ms(2) by (simp add: ms_wf_def card_voter_set)
  with el.run_length [of "(c, os, ps)", simplified, OF history_run [OF history born]]
  show "length (filter (decides ?T) calls) \<le> 2 * voters ps + 2" by simp
  fix h v m c1 os1 ps1 now and rt :: runtime
  assume h: "tx_load (ptr_of s1 transaction) (data_of s1 transaction) = Inr (h, v, m)" "tx_status h = status_to_u8 Active"
    and c1: "ms_load (ptr_of s1 multisig) (data_of s1 multisig) = Inr (c1, os1, ps1)"
      "ms_stale_transaction_index c1 < tx_index h"
    and clock: "rt_clock rt = Inr now"
  obtain A where s1: "standing ID ?M ?T s1" "life_inv ?M ?T (c, os, ps) t m0 A s1"
    using history_inv [OF history born] by metis
  have m: "m0 = m" using s1(2) h(1) by (auto simp: life_inv_def)
  have n: "length os = unat (ms_owners_count c)" using ms(1) by (simp add: ms_load_Inr)
  have open': "tx_status h \<noteq> status_to_u8 Executed" using h(2) by simp
  note o = stand_open [OF s1 [unfolded m] t n h(1) open' c1]
  have "b_status (ballot_of os h v) = Active" using h(2) by (simp del: status_to_u8.simps)
  then obtain signers where signers: "signers \<noteq> []" "distinct signers"
      "set signers \<subseteq> voter_set os ps - (cast_by os (v_approved v) \<union> cast_by os (v_rejected v) \<union> cast_by os (v_cancelled v))"
      "card (cast_by os (v_approved v)) + length signers = unat (ms_threshold c)"
    using missing_signers [OF ms(2) o(11)] by auto
  have "\<exists>s2 h2 v2. fold_result (\<lambda>a. submit rt (approve a ?M ?T)) signers s1 = Inr s2 \<and>
      tx_load (data_ptr (s2 ?T)) (acc_data (s2 ?T)) = Inr (h2, v2, m) \<and> tx_status h2 = status_to_u8 Approved"
    using approvals_run [OF c1(1) [unfolded o(1,2)] o(4) o(9) [symmetric] clock o(7) h(1) o(5,8,6) h(2) c1(2) o(10) signers(1-3)]
      signers(4) o(3) by auto
  with signers show "\<exists>signers s2 h2 v2. signers \<noteq> [] \<and> distinct signers \<and>
      set signers \<subseteq> voter_set os ps - (cast_by os (v_approved v) \<union> cast_by os (v_rejected v)) \<and>
      card (cast_by os (v_approved v)) + length signers = unat (ms_threshold c) \<and>
      fold_result (\<lambda>a. submit rt (approve a ?M ?T)) signers s1 = Inr s2 \<and>
      tx_load (ptr_of s2 transaction) (data_of s2 transaction) = Inr (h2, v2, m) \<and>
      tx_status h2 = status_to_u8 Approved" by blast
qed

end
