(* ===== verification/Client_Examples.thy ===== *)
theory Client_Examples
  imports Examples Establish Upload Staleness Confusion Decisions
begin

text \<open>
  The properties of the client and of Progress applied to concrete inputs: a message that uses a lookup
  table, a transfer proposed and approved through the builders, an approved proposal executed, a threshold
  change and a payment run; the closing of a buffer that passes for a proposal; and a whole history from a
  proposal's creation through its votes to its execution and beyond.
\<close>

section \<open>A message with a lookup table\<close>

text \<open>Two static keys, one instruction for the second of them, one lookup table at \<open>key 50\<close> whose entry 0
  is wanted writable.\<close>

definition ex_client_message :: client_message where
  "ex_client_message =
     \<lparr>cm_num_signers = 1, cm_num_writable_signers = 1, cm_num_writable_non_signers = 0,
      cm_account_keys = [key 40, key 30],
      cm_instructions = [\<lparr>mi_program_id_index = 1, mi_account_indexes = [0, 2], mi_data = [7]\<rparr>],
      cm_lookups = [\<lparr>cl_account_key = key 50, cl_writable_indexes = [0], cl_readonly_indexes = []\<rparr>]\<rparr>"

definition ex_table :: bytes where
  "ex_table = replicate 4 0 @ to_le_bytes 8 (- 1 :: u64) @ replicate 44 0 @ as_array (key 60)"

lemma ex_client_message_ok: "message_fits ex_client_message" "message_valid ex_client_message"
  by (simp_all add: ex_client_message_def message_fits_def message_valid_def instructions_of_def
      lookups_of_def instruction_fits_def lookup_fits_def lookup_keys_def)

lemma ex_client_lookups: "lookups_of ex_client_message =
    [\<lparr>ml_account_key = key 50, ml_writable_indexes = [0], ml_readonly_indexes = []\<rparr>]"
  "lookup_keys (lookups_of ex_client_message) = 1" "cm_account_keys ex_client_message = [key 40, key 30]"
  by (simp_all add: ex_client_message_def lookups_of_def lookup_keys_def)

theorem client_message_accepted_witness:
  "message_fits ex_client_message \<and>
   parse (message_encode ex_client_message) = Inr (parsed_message ex_client_message) \<and>
   client_is_writable ex_client_message 0 = message_is_writable (parsed_message ex_client_message) 0"
  using client_message_accepted [OF ex_client_message_ok(1), of "parsed_message ex_client_message" 0]
    ex_client_message_ok by (simp add: ex_client_lookups)

text \<open>A multisig of the program's own at \<open>key 10\<close>, a proposal at \<open>key 11\<close>, the table at \<open>key 50\<close>.\<close>

definition ex_client_store :: "bytes \<Rightarrow> store" where
  "ex_client_store proposal = (\<lambda>a.
     if a = key 10 then ex_account ex_config_bytes ID
     else if a = key 11 then ex_account proposal ID
     else if a = key 50 then ex_account ex_table ADDRESS_LOOKUP_TABLE_ID
     else if a = key 1 then ex_account [] system_program
     else \<lparr>lamports = 0, acc_data = [], acc_owner = system_program, data_ptr = 0\<rparr>)"

lemma ex_client_store_simps [simp]:
  "ex_client_store p (key 10) = ex_account ex_config_bytes ID"
  "ex_client_store p (key 11) = ex_account p ID"
  "ex_client_store p (key 50) = ex_account ex_table ADDRESS_LOOKUP_TABLE_ID"
  "ex_client_store p (key 1) = ex_account [] system_program"
  by (simp_all add: ex_client_store_def)

lemma ex_table_serves: "\<forall>l \<in> set (lookups_of ex_client_message). table_serves (ex_client_store p) l"
  by (simp add: ex_client_lookups table_serves_def Let_def ex_table_def LOOKUP_TABLE_META_SIZE_def
      LOOKUP_TABLE_DEACTIVATION_OFFSET_def from_to_le_bytes)

lemma ex_table_keys: "cm_account_keys ex_client_message @ [key 60]
    = approved_keys (ex_client_store p) (cm_account_keys ex_client_message) (lookups_of ex_client_message)"
  by (simp add: ex_client_lookups approved_keys_def resolved_key_def ex_table_def LOOKUP_TABLE_META_SIZE_def)
     (simp add: key_def)

theorem client_execute_accounts_accepted_witness:
  "check_accounts (ex_client_store []) (views_of (execute_accounts ex_client_message [key 60]))
     (parsed_message ex_client_message) = Inr () \<and>
   v_writable (views_of (execute_accounts ex_client_message [key 60]) ! 2)
     = message_is_writable (parsed_message ex_client_message) 2"
proof -
  have "2 < tm_num_all_keys (parsed_message ex_client_message)"
    using ex_client_lookups(2) by (simp add: parsed_message_def message_of_def ex_client_lookups(3))
  moreover have "length [key 60] = lookup_keys (lookups_of ex_client_message)" by (simp add: ex_client_lookups(2))
  ultimately show ?thesis
    using client_execute_accounts_accepted [OF ex_client_message_ok, of "[key 60]" "ex_client_store []" 2]
      ex_table_serves [of "[]"] ex_table_keys [of "[]"] by simp
qed


section \<open>Votes and their guards\<close>

theorem votes_accepted_iff_witness:
  "(\<exists>s'. process_approve (sim_runtime 100) ex_pid [ex_view 2, ex_view 10, ex_view 11] []
       (ex_store ex_config_bytes (ex_proposal_bytes Active 1 0 1 0)) = Inr s') \<and>
   \<not> (\<exists>s'. process_approve (sim_runtime 100) ex_pid [ex_view 1, ex_view 10, ex_view 11] []
       (ex_store ex_config_bytes (ex_proposal_bytes Active 1 0 1 0)) = Inr s') \<and>
   (\<exists>s'. process_cancel ex_pid [ex_view 1, ex_view 10, ex_view 11] []
       (ex_store ex_config_bytes (ex_proposal_bytes Active 1 0 1 0)) = Inr s')"
proof -
  let ?s = "ex_store ex_config_bytes (ex_proposal_bytes Active 1 0 1 0)"
  note exact = votes_accepted_iff [where s = ?s and multisig = "ex_view 10" and transaction = "ex_view 11",
    OF ex_loads(1) ex_wf ex_loads(2) ex_proposal_wf(2)]
  have set: "voter_set ex_owners ex_masks = {key 1, key 2, key 3}"
    by (simp add: voter_set_def ex_owners_def ex_masks_def)
  have cast: "cast_by ex_owners [1] = {key 1}" "cast_by ex_owners [0] = {}"
    by (auto simp: cast_by_def ex_bits ex_owners_def)
  have clock: "rt_clock (sim_runtime 100) = Inr 100" by (simp add: sim_runtime_def)
  have "\<exists>s'. process_approve (sim_runtime 100) ex_pid (ex_view 2 # ex_view 10 # ex_view 11 # []) [] ?s = Inr s'"
    unfolding conjunct1 [OF exact] by (simp add: vote_allowed_def set cast clock)
  moreover have "\<not> (\<exists>s'. process_approve (sim_runtime 100) ex_pid (ex_view 1 # ex_view 10 # ex_view 11 # []) [] ?s
      = Inr s')"
    unfolding conjunct1 [OF exact] by (simp add: cast)
  moreover have "\<exists>s'. process_cancel ex_pid (ex_view 1 # ex_view 10 # ex_view 11 # []) [] ?s = Inr s'"
    unfolding conjunct2 [OF conjunct2 [OF exact]] by (simp add: vote_allowed_def) (simp add: ex_owners_def)
  ultimately show ?thesis by blast
qed

section \<open>From the client to an approved proposal\<close>

definition ex_derive :: finder where
  "ex_derive seeds pid = (new_from_array (concat (rev (seeds @ [[255]]))), 255)"

definition ex_transfer :: client_message where "ex_transfer = transfer_message (key 40) (key 41) 5"

lemma ex_transfer_ok: "message_fits ex_transfer" "message_valid ex_transfer"
  "length (message_encode ex_transfer) = 120"
  by (simp_all add: ex_transfer_def transfer_message_def message_fits_def message_valid_def instructions_of_def
      lookups_of_def instruction_fits_def lookup_keys_def Let_def message_encode_def foldl_append)

lemma ex_derive_spec: "derive_spec (sim_runtime now) ex_derive"
  by (simp add: derive_spec_def ex_derive_def sim_runtime_def sim_pda_def)


text \<open>The accounts before the proposal: the multisig at \<open>key 10\<close>, its next proposal's address unused.\<close>

abbreviation ex_next_tx :: address where
  "ex_next_tx \<equiv> fst (transaction_address ex_derive (key 10) 2)"

lemma ex_next_tx_apart: "n \<noteq> 255 \<Longrightarrow> ex_next_tx \<noteq> key n"
proof -
  have "hd (as_array ex_next_tx) = 255"
    by (simp add: transaction_address_def ex_derive_def TRANSACTION_SEED_def new_from_array.rep_eq)
  then show "n \<noteq> 255 \<Longrightarrow> ex_next_tx \<noteq> key n" by auto
qed

lemma ex_clock: "rt_clock (sim_runtime 100) = Inr 100" "rt_rent (sim_runtime 100) = Inr sim_rent"
  by (simp_all add: sim_runtime_def)

lemma ex_multisig_here:
  "ms_load (data_ptr (ex_client_store [] (key 10))) (acc_data (ex_client_store [] (key 10)))
     = Inr (ex_config, ex_owners, ex_masks)"
  "ms_wf ex_config ex_owners ex_masks" "acc_owner (ex_client_store [] (key 10)) = ID"
  by (simp_all add: ex_config_load ex_wf)

lemma ex_proposer:
  "ex_masks ! 0 = 0 \<or> ex_masks ! 0 AND INITIATE \<noteq> 0"
  "ms_transaction_index ex_config \<noteq> - 1" "2 = ms_transaction_index ex_config + 1"
  "acc_owner (ex_client_store [] (key 1)) = system_program" "acc_data (ex_client_store [] (key 1)) = []"
  by (simp_all add: ex_masks_def)

lemma ex_unused:
  "ex_next_tx \<noteq> key 1" "acc_owner (ex_client_store [] ex_next_tx) = system_program"
  "acc_data (ex_client_store [] ex_next_tx) = []" "lamports (ex_client_store [] ex_next_tx) = 0"
  "8 dvd data_ptr (ex_client_store [] ex_next_tx)"
  using ex_next_tx_apart by (simp_all add: ex_client_store_def)

lemma ex_quorum:
  "distinct [key 1, key 3]" "set [key 1, key 3] \<subseteq> voter_set ex_owners ex_masks"
  "length [key 1, key 3] = unat (ms_threshold ex_config)"
  by (simp_all add: voter_set_def ex_owners_def ex_masks_def)

theorem client_proposal_approved_witness:
  "\<exists>ix s1 s' h v.
     create_transaction ex_derive (key 1) (key 10) 2 ex_transfer 0 [] = Inr ix \<and>
     submit (sim_runtime 100) ix (ex_client_store []) = Inr s1 \<and>
     fold_result (\<lambda>a. submit (sim_runtime 100) (approve a (key 10) (fst (transaction_address ex_derive (key 10) 2))))
       [key 1, key 3] s1 = Inr s' \<and>
     tx_load (data_ptr (s' (fst (transaction_address ex_derive (key 10) 2))))
       (acc_data (s' (fst (transaction_address ex_derive (key 10) 2)))) = Inr (h, v, message_encode ex_transfer) \<and>
     tx_status h = status_to_u8 Approved \<and> tx_approved_at h = 100 \<and>
     cast_by ex_owners (v_approved v) = set [key 1, key 3]"
proof -
  have pay: "sim_rent (tx_space (length ex_owners) (length (message_encode ex_transfer)))
      \<le> lamports (ex_client_store [] (key 1))"
    by (simp add: sim_rent_def tx_space_def TX_LEN_def len_for_def ex_owners_def ex_transfer_ok)
  have sizes: "length (message_encode ex_transfer) \<le> MAX_MESSAGE_SIZE" "length ([] :: bytes) \<le> MAX_EPHEMERAL_SIGNERS"
    by (simp_all add: ex_transfer_ok MAX_MESSAGE_SIZE_def)
  show ?thesis
    by (rule client_proposal_approved [OF sim_runtime_create_spec sim_runtime_create_live ex_derive_spec ex_clock
        pay ex_multisig_here ex_is_owner(1) ex_proposer(1-3) ex_transfer_ok(1,2) sizes ex_proposer(4,5)
        refl ex_unused ex_quorum])
qed

section \<open>A new multisig\<close>

abbreviation ex_new_multisig :: address where
  "ex_new_multisig \<equiv> fst (multisig_address ex_derive (key 20))"

lemma ex_new_multisig_apart: "n \<noteq> 255 \<Longrightarrow> ex_new_multisig \<noteq> key n"
proof -
  have "hd (as_array ex_new_multisig) = 255"
    by (simp add: multisig_address_def ex_derive_def MULTISIG_SEED_def new_from_array.rep_eq)
  then show "n \<noteq> 255 \<Longrightarrow> ex_new_multisig \<noteq> key n" by auto
qed

theorem client_establishes_witness:
  "\<exists>s' c ps.
     submit (sim_runtime 100) (init_multisig_controlled ex_derive (key 1) (key 20) ex_owners 2 (key 5)) (ex_client_store [])
       = Inr s' \<and>
     ms_load (data_ptr (s' ex_new_multisig)) (acc_data (s' ex_new_multisig)) = Inr (c, ex_owners, ps) \<and>
     ms_wf c ex_owners ps \<and> acc_owner (s' ex_new_multisig) = ID \<and>
     lamports (s' ex_new_multisig) = sim_rent (ms_space (length ex_owners)) \<and>
     ms_create_key c = key 20 \<and> ms_threshold c = 2 \<and> ms_config_authority c = key 5 \<and>
     ms_transaction_index c = 0 \<and> ms_time_lock c = 0 \<and> ms_rent_collector c = default_address \<and>
     (\<forall>a. (\<exists>i. is_owner ex_owners a = Some i \<and> ps ! i = 0) \<longleftrightarrow> a \<in> set ex_owners) \<and>
     voter_set ex_owners ps = set ex_owners \<and>
     unat (lamports (s' (key 1))) + unat (sim_rent (ms_space (length ex_owners)))
       = unat (lamports (ex_client_store [] (key 1))) \<and>
     (\<forall>a. a \<noteq> ex_new_multisig \<longrightarrow> a \<noteq> key 1 \<longrightarrow> s' a = ex_client_store [] a)"
proof -
  have n: "length ex_owners = 3" by (simp add: ex_owners_def)
  have pay: "sim_rent (ms_space (length ex_owners)) \<le> lamports (ex_client_store [] (key 1))"
    by (simp add: n sim_rent_def ms_space_def MS_LEN_def)
  have nonempty: "ex_owners \<noteq> []" by (simp add: ex_owners_def)
  have owners: "length ex_owners \<le> MAX_OWNER" "ms_space (length ex_owners) \<le> 10240"
    "ascending ex_owners"
    using ex_wf n by (auto simp: MAX_OWNER_def ms_space_def MS_LEN_def ms_wf_def)
  have threshold: "0 < unat (2 :: u32)" "unat (2 :: u32) \<le> length ex_owners" by (simp_all add: n)
  have apart: "key 1 \<noteq> ex_new_multisig" using ex_new_multisig_apart [of 1] by auto
  have unused: "acc_owner (ex_client_store [] ex_new_multisig) = system_program"
    "acc_data (ex_client_store [] ex_new_multisig) = []" "lamports (ex_client_store [] ex_new_multisig) = 0"
    "8 dvd data_ptr (ex_client_store [] ex_new_multisig)"
    using ex_new_multisig_apart by (simp_all add: ex_client_store_def)
  show ?thesis
    by (rule client_establishes [OF sim_runtime_create_spec sim_runtime_create_live ex_derive_spec ex_clock(2) pay
        nonempty owners threshold ex_proposer(4,5) refl apart unused])
qed

section \<open>An upload in three chunks\<close>

abbreviation ex_upload :: address where
  "ex_upload \<equiv> fst (buffer_address ex_derive (key 10) (key 1) 7)"

lemma ex_upload_apart: "n \<noteq> 255 \<Longrightarrow> ex_upload \<noteq> key n" "ex_upload \<noteq> ex_next_tx"
proof -
  have "hd (as_array ex_upload) = 255" "as_array ex_upload ! 1 = 7" "as_array ex_next_tx ! 1 = 2"
    by (simp_all add: buffer_address_def transaction_address_def ex_derive_def BUFFER_SEED_def TRANSACTION_SEED_def
        new_from_array.rep_eq nth_append to_le_bytes_def)
  then show "n \<noteq> 255 \<Longrightarrow> ex_upload \<noteq> key n" "ex_upload \<noteq> ex_next_tx" by auto
qed

theorem client_upload_proposes_witness:
  "\<exists>s1 s2 ix s3 h.
     submit (sim_runtime 100) (buffer_create ex_derive (key 1) (key 10) 7 0 (rt_sha256 (sim_runtime 100)
       (message_encode ex_transfer)) (of_nat (length (message_encode ex_transfer)))
       (take 50 (message_encode ex_transfer))) (ex_client_store []) = Inr s1 \<and>
     fold_result (\<lambda>chunk. submit (sim_runtime 100) (buffer_extend (key 1) ex_upload chunk))
       [take 30 (drop 50 (message_encode ex_transfer)), drop 80 (message_encode ex_transfer)] s1 = Inr s2 \<and>
     create_from_buffer ex_derive (key 1) (key 10) 2 ex_upload 0 [] = Inr ix \<and>
     submit (sim_runtime 100) ix s2 = Inr s3 \<and>
     tx_load (data_ptr (s3 ex_next_tx)) (acc_data (s3 ex_next_tx))
       = Inr (h, clear_votes (ms_owners_count ex_config), message_encode ex_transfer) \<and>
     tx_wf h (clear_votes (ms_owners_count ex_config)) (message_encode ex_transfer) \<and>
     tx_status h = status_to_u8 Active \<and> tx_multisig h = key 10 \<and> tx_index h = 2 \<and> tx_vault_index h = 0 \<and>
     acc_data (s3 ex_upload) = [] \<and> lamports (s3 ex_upload) = 0 \<and>
     unat (lamports (s3 (key 1))) + unat (sim_rent (tx_space (length ex_owners) (length (message_encode ex_transfer))))
       = unat (lamports (ex_client_store [] (key 1)))"
proof -
  have pay: "unat (sim_rent (buf_space (length (message_encode ex_transfer))))
      + unat (sim_rent (tx_space (length ex_owners) (length (message_encode ex_transfer))))
      \<le> unat (lamports (ex_client_store [] (key 1)))"
    by (simp add: sim_rent_def tx_space_def TX_LEN_def buf_space_def BUF_LEN_def len_for_def ex_owners_def ex_transfer_ok)
  have sizes: "length (message_encode ex_transfer) \<le> MAX_MESSAGE_SIZE" "length ([] :: bytes) \<le> MAX_EPHEMERAL_SIGNERS"
    by (simp_all add: ex_transfer_ok MAX_MESSAGE_SIZE_def)
  have chunks: "take 50 (message_encode ex_transfer) @ concat [take 30 (drop 50 (message_encode ex_transfer)),
      drop 80 (message_encode ex_transfer)] = message_encode ex_transfer"
    "[] \<notin> set [take 30 (drop 50 (message_encode ex_transfer)), drop 80 (message_encode ex_transfer)]"
    using append_take_drop_id [of 30 "drop 50 (message_encode ex_transfer)"] by (auto simp: ex_transfer_ok)
  have places: "distinct [key 1, ex_upload, ex_next_tx]"
    using ex_upload_apart(1) [of 1] ex_upload_apart(2) ex_next_tx_apart [of 1] by auto
  have unused: "acc_owner (ex_client_store [] a) = system_program \<and> acc_data (ex_client_store [] a) = [] \<and>
      lamports (ex_client_store [] a) = 0 \<and> 8 dvd data_ptr (ex_client_store [] a)"
    if "a \<in> {ex_upload, ex_next_tx}" for a
    using that by (elim insertE emptyE; hypsubst) (simp_all add: ex_client_store_def ex_upload_apart(1) ex_next_tx_apart)
  have closes: "\<exists>t'. rt_close (sim_runtime 100) v t = Inr t'" for v t by (simp add: sim_runtime_def)
  show ?thesis
    by (rule client_upload_proposes [OF sim_runtime_create_spec sim_runtime_create_live ex_derive_spec
        sim_runtime_specs(3) closes ex_clock(2) pay ex_multisig_here ex_is_owner(1) ex_proposer(1-3)
        ex_transfer_ok(1,2) sizes chunks ex_proposer(4,5) refl refl places unused])
qed

section \<open>From an approved proposal to its execution\<close>

definition ex_client_proposal :: transaction where
  "ex_client_proposal = (ex_proposal Approved 2 0)\<lparr>tx_message_len := 112\<rparr>"

lemma ex_client_message_length: "length (message_encode ex_client_message) = 112"
  by (simp add: ex_client_message_def message_encode_def Let_def foldl_append)

lemma ex_client_proposal_ok:
  "tx_wf ex_client_proposal (ex_votes 3 0) (message_encode ex_client_message)"
  "tx_load 0 (tx_bytes ex_client_proposal (ex_votes 3 0) (message_encode ex_client_message))
     = Inr (ex_client_proposal, ex_votes 3 0, message_encode ex_client_message)"
  by (simp_all add: tx_load_Inr tx_wf_def tx_invariant_iff votes_fit_def ex_client_proposal_def
      ex_client_message_length len_for_def MAX_OWNER_def MAX_MESSAGE_SIZE_def MAX_EPHEMERAL_SIGNERS_def
      bitmap_count_Cons ex_bits bitmap_count_def ex_status)

theorem client_execution_runs_witness:
  "\<exists>signers. execute_signers (key 10) (key 11) ex_client_proposal = Inr signers \<and>
     submit (sim_runtime 160) (execute (key 2) (key 10) (key 11) (execute_accounts ex_client_message [key 60]))
         (ex_client_store (tx_bytes ex_client_proposal (ex_votes 3 0) (message_encode ex_client_message))) =
       fold_result (execute_instruction (sim_runtime 160) ID (signing (key 2) True) (passed (key 10) True)
           (views_of (execute_accounts ex_client_message [key 60])) (parsed_message ex_client_message) signers)
         (instructions_of ex_client_message)
         (set_data (passed (key 11) True)
            (tx_bytes (ex_client_proposal\<lparr>tx_status := status_to_u8 Executed\<rparr>) (ex_votes 3 0)
              (message_encode ex_client_message))
            (ex_client_store (tx_bytes ex_client_proposal (ex_votes 3 0) (message_encode ex_client_message))))"
proof -
  let ?s = "ex_client_store (tx_bytes ex_client_proposal (ex_votes 3 0) (message_encode ex_client_message))"
  have own: "acc_owner (?s (key 10)) = ID" "acc_owner (?s (key 11)) = ID" by simp_all
  have load: "ms_load (data_ptr (?s (key 10))) (acc_data (?s (key 10))) = Inr (ex_config, ex_owners, ex_masks)"
    "tx_load (data_ptr (?s (key 11))) (acc_data (?s (key 11)))
      = Inr (ex_client_proposal, ex_votes 3 0, message_encode ex_client_message)"
    using ex_client_proposal_ok(2) by (simp_all add: ex_config_load)
  have of_this: "tx_multisig ex_client_proposal = key 10" "tx_status ex_client_proposal = status_to_u8 Approved"
    by (simp_all add: ex_client_proposal_def)
  have mask: "ex_masks ! 1 = 0 \<or> ex_masks ! 1 AND EXECUTE \<noteq> 0" by (simp add: ex_masks_def)
  have lock: "ms_time_lock ex_config = 0 \<or> (\<exists>now. rt_clock (sim_runtime 160) = Inr now \<and>
      int (unat (ms_time_lock ex_config)) \<le> sint now - sint (tx_approved_at ex_client_proposal) \<and>
      sint now - sint (tx_approved_at ex_client_proposal) < 2 ^ 63)"
    by (simp add: sim_runtime_def ex_client_proposal_def)
  show ?thesis
    by (rule client_execution_runs [OF own load ex_client_proposal_ok(1) of_this ex_is_owner(2) mask lock
        ex_client_message_ok ex_table_serves ex_table_keys])
qed

section \<open>The client's own messages\<close>

definition ex_change :: client_message where
  "ex_change = config_action_message action_CHANGE_THRESHOLD (u32_payload 3)"

text \<open>The proposal with a message of the client, and with the bump of its vault.\<close>

definition ex_own_proposal :: "client_message \<Rightarrow> transaction" where
  "ex_own_proposal m = (ex_proposal Approved 2 0)\<lparr>tx_message_len := of_nat (length (message_encode m)),
     tx_vault_bump := 255\<rparr>"

definition ex_pay :: client_message where
  "ex_pay = transfer_message (fst (vault_address ex_derive (key 10) 0)) (key 41) 5"

lemma ex_own_lengths: "length (message_encode ex_change) = 79" "length (message_encode ex_pay) = 120"
  by (simp_all add: ex_change_def ex_pay_def config_action_message_def transfer_message_def
      message_encode_def Let_def foldl_append u32_payload_def)

lemma ex_own_proposal_ok:
  assumes "length (message_encode m) \<in> {1..4096}"
  shows "tx_wf (ex_own_proposal m) (ex_votes 3 0) (message_encode m)"
    and "tx_load 0 (tx_bytes (ex_own_proposal m) (ex_votes 3 0) (message_encode m))
     = Inr (ex_own_proposal m, ex_votes 3 0, message_encode m)"
  using assms by (simp_all add: tx_load_Inr tx_wf_def tx_invariant_iff votes_fit_def ex_own_proposal_def
      len_for_def MAX_OWNER_def MAX_MESSAGE_SIZE_def MAX_EPHEMERAL_SIGNERS_def
      bitmap_count_Cons ex_bits bitmap_count_def ex_status unat_of_nat)

lemma client_messages_execute_instance:
  "submit (sim_runtime 160) (execute (key 2) (key 10) (key 11) (execute_accounts ex_change []))
       (ex_client_store (tx_bytes (ex_own_proposal ex_change) (ex_votes 3 0) (message_encode ex_change)))
     = apply_config_action (sim_runtime 160) (passed (key 10) True) (signing (key 2) True)
         (action_CHANGE_THRESHOLD # u32_payload 3) True
         (set_data (passed (key 11) True)
            (tx_bytes ((ex_own_proposal ex_change)\<lparr>tx_status := status_to_u8 Executed\<rparr>) (ex_votes 3 0)
              (message_encode ex_change))
            (ex_client_store (tx_bytes (ex_own_proposal ex_change) (ex_votes 3 0) (message_encode ex_change)))) \<and>
   (\<exists>signers. rt_pda (sim_runtime 160) (hd signers) ID = Some (fst (vault_address ex_derive (key 10) 0)) \<and>
     submit (sim_runtime 160) (execute (key 2) (key 10) (key 11) (execute_accounts ex_pay []))
       (ex_client_store (tx_bytes (ex_own_proposal ex_pay) (ex_votes 3 0) (message_encode ex_pay)))
     = rt_invoke (sim_runtime 160) \<lparr>cpi_program = system_program,
           cpi_metas = [(fst (vault_address ex_derive (key 10) 0), True, True), (key 41, True, False)],
           cpi_data = to_le_bytes 4 (2 :: u32) @ to_le_bytes 8 (5 :: u64)\<rparr>
         [passed (fst (vault_address ex_derive (key 10) 0)) True, passed (key 41) True] signers
         (set_data (passed (key 11) True)
            (tx_bytes ((ex_own_proposal ex_pay)\<lparr>tx_status := status_to_u8 Executed\<rparr>) (ex_votes 3 0)
              (message_encode ex_pay))
            (ex_client_store (tx_bytes (ex_own_proposal ex_pay) (ex_votes 3 0) (message_encode ex_pay)))))"
proof -
  let ?s = "\<lambda>m. ex_client_store (tx_bytes (ex_own_proposal m) (ex_votes 3 0) (message_encode m))"
  have own: "acc_owner (?s m (key 10)) = ID" "acc_owner (?s m (key 11)) = ID" for m by simp_all
  have ms: "ms_load (data_ptr (?s m (key 10))) (acc_data (?s m (key 10))) = Inr (ex_config, ex_owners, ex_masks)" for m
    by (simp add: ex_config_load)
  have tx: "tx_load (data_ptr (?s m (key 11))) (acc_data (?s m (key 11)))
      = Inr (ex_own_proposal m, ex_votes 3 0, message_encode m)" if "length (message_encode m) \<in> {1..4096}" for m
    using ex_own_proposal_ok(2) [OF that] by simp
  have of_this: "tx_multisig (ex_own_proposal m) = key 10" "tx_status (ex_own_proposal m) = status_to_u8 Approved" for m
    by (simp_all add: ex_own_proposal_def)
  have mask: "ex_masks ! 1 = 0 \<or> ex_masks ! 1 AND EXECUTE \<noteq> 0" by (simp add: ex_masks_def)
  have lock: "ms_time_lock ex_config = 0 \<or> (\<exists>now. rt_clock (sim_runtime 160) = Inr now \<and>
      int (unat (ms_time_lock ex_config)) \<le> sint now - sint (tx_approved_at (ex_own_proposal m)) \<and>
      sint now - sint (tx_approved_at (ex_own_proposal m)) < 2 ^ 63)" for m
    by (simp add: sim_runtime_def ex_own_proposal_def)
  have sizes: "length (message_encode ex_change) \<in> {1..4096}" "length (message_encode ex_pay) \<in> {1..4096}"
    by (simp_all add: ex_own_lengths)
  note apply_to = client_messages_execute [OF own ms tx ex_own_proposal_ok(1) of_this ex_is_owner(2) mask lock]
  have vault: "tx_vault_index (ex_own_proposal ex_pay) = 0" "tx_vault_bump (ex_own_proposal ex_pay)
      = snd (vault_address ex_derive (key 10) 0)"
    by (simp_all add: ex_own_proposal_def ex_proposal_def vault_address_def ex_derive_def)
  show ?thesis
    using conjunct1 [OF apply_to [OF sizes(1) sizes(1)], of action_CHANGE_THRESHOLD "u32_payload 3"]
      conjunct2 [OF apply_to [OF sizes(2) sizes(2)], of "fst (vault_address ex_derive (key 10) 0)" "key 41" 5 ex_derive]
      ex_derive_spec [of 160] vault
    unfolding ex_change_def [symmetric] ex_pay_def [symmetric] by (simp add: u32_payload_def)
qed


section \<open>An approved proposal after a change of the threshold\<close>

theorem approved_outlives_change_witness:
  "\<exists>s' c' os' ps'. apply_config_action (sim_runtime 100) (passed (key 10) True) (signing (key 5) True)
       (2 # u32_payload 3) False
       (ex_client_store (tx_bytes (ex_own_proposal ex_pay) (ex_votes 3 0) (message_encode ex_pay))) = Inr s' \<and>
     ms_load (data_ptr (s' (key 10))) (acc_data (s' (key 10))) = Inr (c', os', ps') \<and>
     (\<forall>signer remaining instr s''.
        process_cancel ID (signer # passed (key 10) True # passed (key 11) True # remaining) instr s' \<noteq> Inr s'') \<and>
     (\<forall>owner i. is_owner os' owner = Some i \<longrightarrow>
        submit (sim_runtime 100) (cancel owner (key 10) (key 11)) s' = fail StaleTransaction) \<and>
     (\<forall>owner i rt' now. is_owner os' owner = Some i \<longrightarrow> ps' ! i = 0 \<or> ps' ! i AND EXECUTE \<noteq> 0 \<longrightarrow>
        rt_clock rt' = Inr now \<longrightarrow>
        int (unat (ms_time_lock c')) \<le> sint now - sint (tx_approved_at (ex_own_proposal ex_pay)) \<longrightarrow>
        sint now - sint (tx_approved_at (ex_own_proposal ex_pay)) < 2 ^ 63 \<longrightarrow>
        begin_execution rt' ID (signing owner True) (passed (key 10) True) (passed (key 11) True) [] s'
          = Inr (marked_executed (key 11) (ex_own_proposal ex_pay) (ex_votes 3 0) (message_encode ex_pay) s',
                 (ex_own_proposal ex_pay)\<lparr>tx_status := status_to_u8 Executed\<rparr>))"
proof -
  let ?s = "ex_client_store (tx_bytes (ex_own_proposal ex_pay) (ex_votes 3 0) (message_encode ex_pay))"
  let ?M = "passed (key 10) True"
  have len: "length (message_encode ex_pay) \<in> {1..4096}" by (simp add: ex_own_lengths)
  have own: "acc_owner (account_of ?s ?M) = ID" "acc_owner (?s (key 11)) = ID" by simp_all
  have ms: "ms_load (ptr_of ?s ?M) (data_of ?s ?M) = Inr (ex_config, ex_owners, ex_masks)" by (simp add: ex_config_load)
  have tx: "tx_load (data_ptr (?s (key 11))) (acc_data (?s (key 11)))
      = Inr (ex_own_proposal ex_pay, ex_votes 3 0, message_encode ex_pay)"
    using ex_own_proposal_ok(2) [OF len] by simp
  have of_this: "tx_multisig (ex_own_proposal ex_pay) = v_address ?M"
    "tx_status (ex_own_proposal ex_pay) = status_to_u8 Approved" "tx_index (ex_own_proposal ex_pay) \<le> ms_transaction_index ex_config"
    by (simp_all add: ex_own_proposal_def ex_config_def)
  have "edit_config ChangeThreshold ex_config ex_owners ex_masks (u32_payload 3) = Inr (ex_config\<lparr>ms_threshold := 3\<rparr>, ex_masks)"
    "ms_invariant (invalidate_prior_transactions (ex_config\<lparr>ms_threshold := 3\<rparr>)) = Inr ()"
    by (simp_all add: edit_config_def change_threshold_def u32_payload_def ms_invariant_iff
        invalidate_prior_transactions_def MAX_OWNER_def MAX_TIME_LOCK_def from_to_le_bytes)
  then obtain s' where run: "apply_config_action (sim_runtime 100) ?M (signing (key 5) True) (2 # u32_payload 3) False ?s = Inr s'"
    using apply_in_place [where s = ?s and multisig = ?M and tag = 2 and action = ChangeThreshold, OF _ _ ms, THEN iffD2]
    by (auto simp: config_action_from_u8_def)
  have "(2 :: u8) \<noteq> 6" "key 11 \<noteq> v_address ?M" by simp_all
  from approved_outlives_change [OF sim_runtime_specs(2,1,3) this(2) own(1) ms ex_wf own(2) tx ex_own_proposal_ok(1) [OF len]
      of_this run this(1)]
  show ?thesis using run by (simp only: view.simps) blast
qed

section \<open>The instructions of a message\<close>

theorem inner_instruction_correct_witness:
  "\<exists>s'. process_execute (sim_runtime 160) ex_pid [ex_view 2, ex_view 10, ex_view 11, ex_view 30] []
       (ex_store ex_config_bytes (ex_proposal_bytes Approved 2 0 3 0)) = Inr s' \<and>
     (\<exists>hd keys ixs lks. ex_message = encode_message hd keys ixs lks \<and> message_ok hd keys ixs lks \<and>
        (\<forall>ix \<in> set ixs. length (ci_account_indexes ix) \<le> 32))"
proof -
  obtain s' where run: "process_execute (sim_runtime 160) ex_pid [ex_view 2, ex_view 10, ex_view 11, ex_view 30] []
     (ex_store ex_config_bytes (ex_proposal_bytes Approved 2 0 3 0)) = Inr s'"
    by (rule ex_execute_obtain)
  from inner_instruction_correct [OF run ex_loads(2)] run show ?thesis by blast
qed

section \<open>A buffer closed as a proposal\<close>

definition ex_disguise :: buffer where
  "ex_disguise = \<lparr>buf_multisig = key 10, buf_creator = key 1,
     buf_final_hash = new_from_array (replicate 16 7 @ replicate 16 0), buf_final_size = 4, buf_written = 3,
     buf_buffer_index = 0, buf_vault_index = 0, buf_bump = 252, buf_pad = 0\<rparr>"

theorem buffer_closes_as_transaction_witness:
  "\<exists>s'. process_close_transaction (sim_runtime 0) ex_pid [ex_view 13, ex_view 10, ex_view 1] []
      ((ex_store ex_config_bytes [])(key 13 := ex_account (buf_bytes ex_disguise [1, 2, 3, 0]) ex_pid)) = Inr s' \<and>
    ms_load 0 (acc_data (s' (key 10))) = Inr (ex_config\<lparr>ms_closed_transaction_count := 1\<rparr>, ex_owners, ex_masks) \<and>
    unat (lamports (s' (key 1))) = 200000 \<and> lamports (s' (key 13)) = 0 \<and> acc_data (s' (key 13)) = []"
proof -
  let ?s = "(ex_store ex_config_bytes [])(key 13 := ex_account (buf_bytes ex_disguise [1, 2, 3, 0]) ex_pid)"
  have load: "buf_load (ptr_of ?s (ex_view 13)) (data_of ?s (ex_view 13)) = Inr (ex_disguise, [1, 2, 3, 0])"
    "8 dvd ptr_of ?s (ex_view 13)" "buf_multisig ex_disguise = v_address (ex_view 10)"
    "buf_creator ex_disguise = v_address (ex_view 1)"
    by (simp_all add: buf_load_Inr ex_disguise_def)
  have config: "ms_load (ptr_of ?s (ex_view 10)) (data_of ?s (ex_view 10)) = Inr (ex_config, ex_owners, ex_masks)"
    by (simp add: ex_config_load)
  have chosen: "drop 16 (as_array (buf_final_hash ex_disguise)) = replicate 16 0"
    "ucast (buf_written ex_disguise) \<in> {status_to_u8 Executed, status_to_u8 Rejected, status_to_u8 Cancelled}"
    by (simp_all add: ex_disguise_def as_array_new_from_array)
  have own: "acc_owner (account_of ?s (ex_view 13)) = ex_pid" "acc_owner (account_of ?s (ex_view 10)) = ex_pid"
    and count: "ms_rent_collector ex_config = default_address"
      "ms_closed_transaction_count ex_config < ms_transaction_index ex_config"
    and room: "unat (lamports (account_of ?s (ex_view 1))) + unat (lamports (account_of ?s (ex_view 13))) < 2 ^ 64"
    and apart: "v_address (ex_view 13) \<noteq> v_address (ex_view 10)" "v_address (ex_view 13) \<noteq> v_address (ex_view 1)"
    by simp_all
  have close: "\<exists>t'. rt_close (sim_runtime 0) v t = Inr t'" for v t by (simp add: sim_runtime_def)
  from buffer_closes_as_transaction [where remaining = "[]", OF own config ex_wf count load chosen room apart sim_runtime_specs(3) close]
  obtain s' where "process_close_transaction (sim_runtime 0) ex_pid [ex_view 13, ex_view 10, ex_view 1] [] ?s = Inr s'"
    "ms_load (ptr_of s' (ex_view 10)) (data_of s' (ex_view 10))
      = Inr (ex_config\<lparr>ms_closed_transaction_count := ms_closed_transaction_count ex_config + 1\<rparr>, ex_owners, ex_masks)"
    "unat (lamports (account_of s' (ex_view 1)))
      = unat (lamports (account_of ?s (ex_view 1))) + unat (lamports (account_of ?s (ex_view 13)))"
    "lamports (account_of s' (ex_view 13)) = 0" "data_of s' (ex_view 13) = []"
    by blast
  moreover have "ms_load p d = Inr x \<Longrightarrow> ms_load 0 d = Inr x" for p d x
    by (cases x) (simp add: ms_load_Inr)
  ultimately show ?thesis by fastforce
qed

section \<open>A whole history\<close>

lemma ex_any_load:
  assumes "tx_owners_count h = 3" "tx_message_len h = 43"
    "length (v_approved v) = 1" "length (v_rejected v) = 1" "length (v_cancelled v) = 1"
  shows "tx_load 0 (tx_bytes h v ex_message) = Inr (h, v, ex_message)"
  using assms by (simp add: tx_load_Inr votes_fit_def len_for_def ex_length)

lemma two_one: "\<not> (2 :: u32) \<le> 1" by (simp add: word_le_nat_alt)

lemma ex_whole_run:
  "\<exists>s0 s1 s2 s3. process_create_transaction (sim_runtime 100) ex_pid [ex_view 1, ex_view 10, ex_view 12, ex_view 0]
       ex_create_data (ex_unused 12 (ex_store ex_config_bytes [])) = Inr s0 \<and>
     process_approve (sim_runtime 100) ex_pid [ex_view 2, ex_view 10, ex_view 12] [] s0 = Inr s1 \<and>
     process_approve (sim_runtime 100) ex_pid [ex_view 3, ex_view 10, ex_view 12] [] s1 = Inr s2 \<and>
     process_execute (sim_runtime 160) ex_pid [ex_view 2, ex_view 10, ex_view 12, ex_view 30] [] s2 = Inr s3"
    by (simp add: process_create_transaction_def ex_create_data_def CREATE_LEN_def create_transaction_header_of_def
      init_proposal_def ex_parse reserve_index_def ex_eval Let_def checked_add_def tx_space_def TX_LEN_def len_for_def
      sim_create_def sim_rent_def ex_zero_split split_at_mut_def copy_from_slice_def set_lamports_def
      process_approve_def prepare_def ex_new_load ex_new_config_load check_votable_def cutoff_def saturating_sub_def
      ex_any_load two_one 
      process_execute_def begin_execution_def has_permission_def check_time_lock_def checked_sub_signed_def
     check_accounts_def message_of_def ex_message_header_def execute_signers_def
     ex_ixs ex_no_lookups execute_instruction_def lookup_keys_def writable_lookup_keys_def MAX_CPI_ACCOUNTS_def
     map_replicate_const views_at_first)

lemma ex_calls:
  obtains s0 s1 s2 s3 where
    "process_instruction (sim_runtime 100) ID [ex_view 1, ex_view 10, ex_view 12, ex_view 0] (1 # ex_create_data)
       (ex_unused 12 (ex_store ex_config_bytes [])) = Inr s0"
    "process_instruction (sim_runtime 100) ID [ex_view 2, ex_view 10, ex_view 12] [2] s0 = Inr s1"
    "process_instruction (sim_runtime 100) ID [ex_view 3, ex_view 10, ex_view 12] [2] s1 = Inr s2"
    "process_instruction (sim_runtime 160) ID [ex_view 2, ex_view 10, ex_view 12, ex_view 30] [4] s2 = Inr s3"
  using ex_whole_run by (auto simp: process_instruction_def ex_pid_def)

lemma ex_regular:
  "regular (v_address (ex_view 10)) (v_address (ex_view 12)) [ex_view 1, ex_view 10, ex_view 12, ex_view 0] (1 # d) s"
  "regular (v_address (ex_view 10)) (v_address (ex_view 12)) [ex_view n, ex_view 10, ex_view 12] [2] s"
  by (simp_all add: places)

lemma ex_history:
  assumes "process_instruction (sim_runtime 100) ID [ex_view n, ex_view 10, ex_view 12] [2] s = Inr s'"
  shows "history (v_address (ex_view 10)) (v_address (ex_view 12)) [([ex_view n, ex_view 10, ex_view 12], [2])] s s'"
  using history.call [OF history.start ex_runtime_ok assms ex_regular(2)] by simp

lemma ex_created: "(1 :: u8) = 1 \<or> (1 :: u8) = 10" "(2 :: u8) = 2 \<or> (2 :: u8) = 3" "(3 :: u8) = 2 \<or> (3 :: u8) = 3"
  by simp_all

theorem execution_needs_signatures_witness:
  "\<exists>s0 s2 s3 A. process_instruction (sim_runtime 100) ID [ex_view 1, ex_view 10, ex_view 12, ex_view 0]
       (1 # ex_create_data) (ex_unused 12 (ex_store ex_config_bytes [])) = Inr s0 \<and>
     history (key 10) (key 12) [([ex_view 2, ex_view 10, ex_view 12], [2]), ([ex_view 3, ex_view 10, ex_view 12], [2])]
       s0 s2 \<and>
     process_instruction (sim_runtime 160) ID [ex_view 2, ex_view 10, ex_view 12, ex_view 30] [4] s2 = Inr s3 \<and>
     A \<subseteq> voter_set ex_owners ex_masks \<and> 2 \<le> card A \<and> A \<subseteq> {key 2, key 3}"
proof -
  obtain s0 s1 s2 s3 where call:
    "process_instruction (sim_runtime 100) ID [ex_view 1, ex_view 10, ex_view 12, ex_view 0] (1 # ex_create_data)
       (ex_unused 12 (ex_store ex_config_bytes [])) = Inr s0"
    "process_instruction (sim_runtime 100) ID [ex_view 2, ex_view 10, ex_view 12] [2] s0 = Inr s1"
    "process_instruction (sim_runtime 100) ID [ex_view 3, ex_view 10, ex_view 12] [2] s1 = Inr s2"
    "process_instruction (sim_runtime 160) ID [ex_view 2, ex_view 10, ex_view 12, ex_view 30] [4] s2 = Inr s3"
    by (rule ex_calls)
  let ?T = "ex_view 12" and ?M = "ex_view 10"
  let ?calls = "[([ex_view 2, ?M, ?T], [2 :: u8]), ([ex_view 3, ?M, ?T], [2])]"
  from history.call [OF ex_history [OF call(2)] ex_runtime_ok call(3) ex_regular(2)]
  have h: "history (v_address ?M) (v_address ?T) ?calls s0 s2" by simp
  note signatures = execution_needs_signatures [OF ex_runtime_ok call(1) ex_created(1) ex_regular(1) ex_unused_loads ex_wf h call(4) refl]
  obtain A where A: "A \<subseteq> voter_set ex_owners ex_masks" "unat (ms_threshold ex_config) \<le> card A"
    and signed: "\<forall>a \<in> A. \<exists>signer w x rest p. (signer # w # x # rest, 2 # p) \<in> set ?calls \<and> v_signer signer \<and>
        v_address signer = a \<and> v_address w = v_address ?M \<and> v_address x = v_address ?T"
    using signatures by (elim exE conjE) (rule that)
  have "A \<subseteq> {key 2, key 3}"
  proof
    fix a
    assume "a \<in> A"
    then obtain signer w x r p where "(signer # w # x # r, 2 # p) \<in> set ?calls" "v_address signer = a"
      using signed by metis
    then show "a \<in> {key 2, key 3}" by auto
  qed
  moreover have "2 \<le> card A" using A(2) by simp
  ultimately show ?thesis using call(1,4) h A(1) by (simp only: ex_store_simps(8)) blast
qed

theorem execute_once_witness:
  "\<exists>s2 s3. process_instruction (sim_runtime 160) ID [ex_view 2, ex_view 10, ex_view 12, ex_view 30] [4] s2 = Inr s3 \<and>
     (\<forall>calls later now t. history (key 10) (key 12) calls s3 later \<longrightarrow>
        process_instruction (sim_runtime now) ID [ex_view 1, ex_view 10, ex_view 12, ex_view 30] [4] later \<noteq> Inr t)"
proof -
  obtain s2 s3 where run:
    "process_instruction (sim_runtime 160) ID [ex_view 2, ex_view 10, ex_view 12, ex_view 30] [4] s2 = Inr s3"
    by (rule ex_calls)
  have "v_address (ex_view 12) \<noteq> v_address (ex_view 10)" by simp
  from execute_once [OF ex_runtime_ok run this] run show ?thesis by fastforce
qed

theorem no_second_vote_witness:
  "\<exists>s0 s1 s2. process_instruction (sim_runtime 100) ID [ex_view 2, ex_view 10, ex_view 12] [2] s0 = Inr s1 \<and>
     process_instruction (sim_runtime 100) ID [ex_view 3, ex_view 10, ex_view 12] [2] s1 = Inr s2 \<and>
     (\<forall>now t. process_instruction (sim_runtime now) ID [ex_view 2, ex_view 10, ex_view 12] [3] s2 \<noteq> Inr t)"
proof -
  obtain s0 s1 s2 where call:
    "process_instruction (sim_runtime 100) ID [ex_view 1, ex_view 10, ex_view 12, ex_view 0] (1 # ex_create_data)
       (ex_unused 12 (ex_store ex_config_bytes [])) = Inr s0"
    "process_instruction (sim_runtime 100) ID [ex_view 2, ex_view 10, ex_view 12] [2] s0 = Inr s1"
    "process_instruction (sim_runtime 100) ID [ex_view 3, ex_view 10, ex_view 12] [2] s1 = Inr s2"
    by (rule ex_calls)
  have "process_instruction (sim_runtime now) ID [ex_view 2, ex_view 10, ex_view 12] [3] s2 \<noteq> Inr t" for now t
    by (rule no_second_vote [OF ex_runtime_ok call(1) ex_created(1) ex_regular(1) ex_unused_loads ex_wf history.start
          ex_runtime_ok ex_created(2) refl call(2) ex_history [OF call(3)] ex_created(3) refl refl])
  with call(2,3) show ?thesis by blast
qed

theorem proposal_settles_witness:
  "\<exists>s0 s1 signers s2 h v. process_instruction (sim_runtime 100) ID [ex_view 1, ex_view 10, ex_view 12, ex_view 0]
       (1 # ex_create_data) (ex_unused 12 (ex_store ex_config_bytes [])) = Inr s0 \<and>
     history (key 10) (key 12) [([ex_view 2, ex_view 10, ex_view 12], [2])] s0 s1 \<and>
     length (filter (decides (key 12)) [([ex_view 2, ex_view 10, ex_view 12], [2])]) = 1 \<and> 1 \<le> 2 * voters ex_masks + 2 \<and>
     length signers = 2 \<and>
     fold_result (\<lambda>a. submit (sim_runtime 100) (approve a (key 10) (key 12))) signers s0 = Inr s2 \<and>
     tx_load (data_ptr (s2 (key 12))) (acc_data (s2 (key 12))) = Inr (h, v, ex_message) \<and> tx_status h = status_to_u8 Approved"
proof -
  let ?T = "ex_view 12" and ?M = "ex_view 10"
  obtain s0 s1 where call:
    "process_instruction (sim_runtime 100) ID [ex_view 1, ?M, ?T, ex_view 0] (1 # ex_create_data)
       (ex_unused 12 (ex_store ex_config_bytes [])) = Inr s0"
    "process_instruction (sim_runtime 100) ID [ex_view 2, ?M, ?T] [2] s0 = Inr s1"
    by (rule ex_calls)
  note settles = proposal_settles [OF ex_runtime_ok call(1) ex_created(1) ex_regular(1) ex_unused_loads ex_wf]
  have count: "1 \<le> 2 * voters ex_masks + 2" "length (filter (decides (key 12)) [([ex_view 2, ?M, ?T], [2])]) = 1"
    using settles [OF ex_history [OF call(2)]] by (simp_all add: decides_def)
  have "process_create_transaction (sim_runtime 100) ID [ex_view 1, ?M, ?T, ex_view 0] ex_create_data
      (ex_unused 12 (ex_store ex_config_bytes [])) = Inr s0"
    using call(1) by (simp add: process_instruction_def)
  from create_transaction_effect [OF sim_runtime_create_spec this] ex_unused_loads obtain t where
      t: "tx_load (ptr_of s0 ?T) (data_of s0 ?T) = Inr (t, clear_votes (ms_owners_count ex_config), drop CREATE_LEN ex_create_data)"
        "tx_status t = status_to_u8 Active" "unat (tx_index t) = Suc (unat (ms_transaction_index ex_config))"
    and c: "ms_load (ptr_of s0 ?M) (data_of s0 ?M) = Inr (ex_config\<lparr>ms_transaction_index := tx_index t\<rparr>, ex_owners, ex_masks)"
    by auto
  have fresh: "ms_stale_transaction_index (ex_config\<lparr>ms_transaction_index := tx_index t\<rparr>) < tx_index t"
    using t(3) by (simp add: ex_config_def word_less_nat_alt)
  have clock: "rt_clock (sim_runtime 100) = Inr 100" by (simp add: sim_runtime_def)
  obtain signers s2 h v where
      "card (cast_by ex_owners (v_approved (clear_votes (ms_owners_count ex_config)))) + length signers = unat (ms_threshold ex_config)"
    and run: "fold_result (\<lambda>a. submit (sim_runtime 100) (approve a (v_address ?M) (v_address ?T))) signers s0 = Inr s2"
      "tx_load (ptr_of s2 ?T) (data_of s2 ?T) = Inr (h, v, drop CREATE_LEN ex_create_data)"
      "tx_status h = status_to_u8 Approved"
    using settles [OF history.start, THEN conjunct2, rule_format, OF t(1,2) c fresh clock] by blast
  moreover have "drop CREATE_LEN ex_create_data = ex_message" by (simp add: ex_create_data_def CREATE_LEN_def)
  moreover have "cast_by ex_owners (v_approved (clear_votes (ms_owners_count ex_config))) = {}"
    by (simp add: clear_votes_def)
  ultimately show ?thesis using call(1) ex_history [OF call(2)] count by fastforce
qed

end
