(* ===== verification/Ledger.thy ===== *)
theory Ledger
  imports Address
begin

text \<open>
  What the counters of a configuration promise, without bytes. A ledger holds, for each configuration, how
  many proposals were made under it and how many of them are closed, and, for each proposal that exists,
  the configuration it names and its index. The steps are what the program may do to it; the invariant
  says that the counts are true: made less closed is the number of proposals that exist, their indexes
  are distinct and within what was made, and a configuration that goes leaves nothing behind but
  the proposal that dissolved it.
\<close>

section \<open>Ledgers\<close>

record ledger =
  l_configs :: "address \<Rightarrow> (nat \<times> nat) option"
  l_proposals :: "address \<Rightarrow> (address \<times> nat) option"

text \<open>The proposals of a configuration that exist, and the index of each.\<close>

definition open_of :: "ledger \<Rightarrow> address \<Rightarrow> address set" where
  "open_of L M = {T. \<exists>i. l_proposals L T = Some (M, i)}"

definition index_of_proposal :: "ledger \<Rightarrow> address \<Rightarrow> nat" where
  "index_of_proposal L T = (case l_proposals L T of Some (_, i) \<Rightarrow> i | None \<Rightarrow> 0)"

text \<open>What may happen: a configuration is established where no proposal names its address, makes a proposal with the next index,
  counts one that goes, and goes itself when all are gone or when only the one that dissolves it is left.\<close>

inductive ledger_step :: "ledger \<Rightarrow> ledger \<Rightarrow> bool" where
  idle: "ledger_step L L"
| establish: "l_configs L M = None \<Longrightarrow> open_of L M = {} \<Longrightarrow>
    ledger_step L (L\<lparr>l_configs := (l_configs L)(M \<mapsto> (0, 0))\<rparr>)"
| propose: "l_configs L M = Some (n, c) \<Longrightarrow> l_proposals L T = None \<Longrightarrow>
    ledger_step L (L\<lparr>l_configs := (l_configs L)(M \<mapsto> (n + 1, c)),
                     l_proposals := (l_proposals L)(T \<mapsto> (M, n + 1))\<rparr>)"
| finish: "l_configs L M = Some (n, c) \<Longrightarrow> l_proposals L T = Some (M, i) \<Longrightarrow>
    ledger_step L (L\<lparr>l_configs := (l_configs L)(M \<mapsto> (n, c + 1)),
                     l_proposals := (l_proposals L)(T := None)\<rparr>)"
| dissolve: "l_configs L M = Some (n, n) \<Longrightarrow> ledger_step L (L\<lparr>l_configs := (l_configs L)(M := None)\<rparr>)"
| dissolve_by: "l_configs L M = Some (c + 1, c) \<Longrightarrow> l_proposals L T = Some (M, i) \<Longrightarrow>
    ledger_step L (L\<lparr>l_configs := (l_configs L)(M := None)\<rparr>)"

text \<open>The page of one configuration: its counts, the open proposals that name it and their indexes. A configuration that is gone
  leaves at most the proposal that dissolved it.\<close>

definition page_ok :: "(nat \<times> nat) option \<Rightarrow> address set \<Rightarrow> (address \<Rightarrow> nat) \<Rightarrow> bool" where
  "page_ok entry S index \<longleftrightarrow> finite S \<and> inj_on index S \<and>
     (case entry of Some (n, c) \<Rightarrow> card S + c = n \<and> index ` S \<subseteq> {1..n} | None \<Rightarrow> card S \<le> 1)"

definition balanced :: "ledger \<Rightarrow> bool" where
  "balanced L \<longleftrightarrow> (\<forall>M. page_ok (l_configs L M) (open_of L M) (index_of_proposal L))"

lemma page_ok_cong:
  "(\<And>T. T \<in> S \<Longrightarrow> index T = index' T) \<Longrightarrow> page_ok entry S index = page_ok entry S index'"
  by (simp add: page_ok_def image_subset_iff cong: inj_on_cong split: option.splits)

lemma page_ok_upd [simp]: "T \<notin> S \<Longrightarrow> page_ok entry S (index(T := i)) = page_ok entry S index"
  by (rule page_ok_cong) auto

lemma page_ok_new: "page_ok (Some (0, 0)) {} index"
  by (simp add: page_ok_def)

lemma page_ok_add:
  assumes "page_ok (Some (n, c)) S index" "T \<notin> S"
  shows "page_ok (Some (n + 1, c)) (insert T S) (index(T := n + 1))"
proof -
  have p: "finite S" "inj_on index S" "card S + c = n" "index ` S \<subseteq> {1..n}"
    using assms(1) by (simp_all add: page_ok_def)
  have same: "(index(T := n + 1)) ` S = index ` S" using assms(2) by auto
  have "inj_on (index(T := n + 1)) S" using p(2) assms(2) by (auto simp: inj_on_def)
  moreover have "n + 1 \<notin> index ` S" using p(4) by auto
  ultimately have "inj_on (index(T := n + 1)) (insert T S)" using assms(2) same by simp
  then show ?thesis using p assms(2) same by (auto simp: page_ok_def simp del: fun_upd_apply) auto
qed

lemma page_ok_remove:
  assumes "page_ok (Some (n, c)) S index" "T \<in> S"
  shows "page_ok (Some (n, c + 1)) (S - {T}) index"
proof -
  have p: "finite S" "inj_on index S" "card S + c = n" "index ` S \<subseteq> {1..n}"
    using assms(1) by (simp_all add: page_ok_def)
  have "Suc (card (S - {T})) = card S" using p(1) assms(2) by (rule card_Suc_Diff1)
  moreover have "inj_on index (S - {T})" using p(2) by (rule inj_on_subset) blast
  ultimately show ?thesis using p by (auto simp: page_ok_def)
qed

lemma page_ok_gone: "page_ok (Some (n, c)) S index \<Longrightarrow> n \<le> c + 1 \<Longrightarrow> page_ok None S index"
  by (auto simp: page_ok_def)

lemma open_of_simps [simp]:
  "open_of (L\<lparr>l_configs := cs\<rparr>) M = open_of L M"
  "l_proposals L T = None \<Longrightarrow> open_of (L\<lparr>l_configs := cs, l_proposals := (l_proposals L)(T \<mapsto> (N, i))\<rparr>) M
     = (if M = N then insert T (open_of L M) else open_of L M)"
  "open_of (L\<lparr>l_configs := cs, l_proposals := (l_proposals L)(T := None)\<rparr>) M = open_of L M - {T}"
  by (auto simp: open_of_def)

lemma index_of_proposal_simps [simp]:
  "index_of_proposal (L\<lparr>l_configs := cs\<rparr>) = index_of_proposal L"
  "index_of_proposal (L\<lparr>l_configs := cs, l_proposals := (l_proposals L)(T \<mapsto> (N, i))\<rparr>)
     = (index_of_proposal L)(T := i)"
  "index_of_proposal (L\<lparr>l_configs := cs, l_proposals := (l_proposals L)(T := None)\<rparr>)
     = (index_of_proposal L)(T := 0)"
  by (auto simp: index_of_proposal_def)

lemma balanced_empty: "balanced \<lparr>l_configs = Map.empty, l_proposals = Map.empty\<rparr>"
  by (simp add: balanced_def page_ok_def open_of_def)

lemma balanced_step:
  assumes "ledger_step L L'" "balanced L"
  shows "balanced L'"
  unfolding balanced_def
proof
  fix M
  have page: "page_ok (l_configs L M) (open_of L M) (index_of_proposal L)" for M
    using assms(2) by (simp add: balanced_def)
  show "page_ok (l_configs L' M) (open_of L' M) (index_of_proposal L')"
    using assms(1)
  proof cases
    case idle
    with page show ?thesis by simp
  next
    case (establish N)
    with page page_ok_new show ?thesis by simp
  next
    case (propose N n c T)
    have "T \<notin> open_of L M" using propose(3) by (simp add: open_of_def)
    then show ?thesis
      using page [of M] page_ok_add [of n c "open_of L M" "index_of_proposal L" T] propose(2)
      by (auto simp: propose(1,3))
  next
    case (finish N n c T i)
    have T: "T \<in> open_of L N" "M \<noteq> N \<Longrightarrow> T \<notin> open_of L M" using finish(3) by (auto simp: open_of_def)
    have "page_ok (l_configs L' M) (open_of L M - {T}) (index_of_proposal L)"
      using page [of M] page_ok_remove [of n c "open_of L N" "index_of_proposal L" T] T finish(2)
      by (cases "M = N") (simp_all add: finish(1))
    then show ?thesis by (simp add: finish(1))
  next
    case (dissolve N n)
    then show ?thesis using page [of M] page_ok_gone [of n n "open_of L N"] by auto
  next
    case (dissolve_by N c T i)
    then show ?thesis using page [of M] page_ok_gone [of "c + 1" c "open_of L N"] by auto
  qed
qed

text \<open>Where a configuration goes, nothing of it is left open but the proposal that dissolved it.\<close>

lemma dissolved:
  assumes "balanced L"
  shows "l_configs L M = Some (n, n) \<Longrightarrow> open_of L M = {}"
    and "l_configs L M = Some (c + 1, c) \<Longrightarrow> T \<in> open_of L M \<Longrightarrow> open_of L M = {T}"
proof -
  have page: "page_ok (l_configs L M) (open_of L M) (index_of_proposal L)" using assms by (simp add: balanced_def)
  show "l_configs L M = Some (n, n) \<Longrightarrow> open_of L M = {}" using page by (auto simp: page_ok_def)
  assume "l_configs L M = Some (c + 1, c)" "T \<in> open_of L M"
  with page have "card (open_of L M) = 1" "T \<in> open_of L M" by (simp_all add: page_ok_def)
  then show "open_of L M = {T}" by (auto simp: card_1_singleton_iff)
qed

end
