(* ===== verification/Account_Kinds.thy ===== *)
theory Account_Kinds
  imports History Ledger
begin

text \<open>
  The kinds of the program's accounts. The accounts carry no tag, so the kind an account was created with is kept
  beside the store: \<open>typed \<Gamma> s\<close> says that every account is well formed for the kind \<open>\<Gamma>\<close> gives it,
  \<open>respects_kinds\<close> that a call passes accounts where their kinds are expected, \<open>retyped\<close> what the kinds are after
  the call. \<open>ledger_of\<close> reads the ledger of \<open>Ledger\<close> off a typed store; \<open>touches_only\<close> is the frame of a call.
\<close>

section \<open>Kinds\<close>

datatype kind = Configuration | Proposal | Upload

type_synonym kinds = "address \<Rightarrow> kind option"

text \<open>An account that loads as its kind and is well formed.\<close>

fun has_kind :: "kind \<Rightarrow> account \<Rightarrow> bool" where
  "has_kind Configuration a = (case ms_load (data_ptr a) (acc_data a) of
     Inr (c, os, ps) \<Rightarrow> ms_wf c os ps | Inl _ \<Rightarrow> False)"
| "has_kind Proposal a = (case tx_load (data_ptr a) (acc_data a) of
     Inr (h, v, m) \<Rightarrow> tx_wf h v m | Inl _ \<Rightarrow> False)"
| "has_kind Upload a = (case buf_load (data_ptr a) (acc_data a) of
     Inr (b, region) \<Rightarrow> buf_wf b region | Inl _ \<Rightarrow> False)"

text \<open>The accounts to which a kind is given are the program's and well formed for it; nothing is said of others.\<close>

definition typed :: "kinds \<Rightarrow> store \<Rightarrow> bool" where
  "typed \<Gamma> s \<longleftrightarrow> (\<forall>a k. \<Gamma> a = Some k \<longrightarrow> acc_owner (s a) = ID \<and> has_kind k (s a))"

text \<open>Where an instruction expects an account of each kind, and which it creates.\<close>

fun place :: "kind \<Rightarrow> u8 \<Rightarrow> nat option" where
  "place Configuration tag = config_at tag"
| "place Proposal tag = proposal_at tag"
| "place Upload tag = buffer_at tag"

definition creates :: "u8 \<Rightarrow> kind option" where
  "creates tag = (if tag = 0 then Some Configuration else if tag \<in> {1, 10} then Some Proposal
     else if tag = 7 then Some Upload else None)"

text \<open>A call passes, wherever its instruction expects an existing account of some kind, an account of this kind.\<close>

definition respects_kinds :: "kinds \<Rightarrow> view list \<Rightarrow> bytes \<Rightarrow> bool" where
  "respects_kinds \<Gamma> accounts data = (case data of [] \<Rightarrow> True
     | tag # payload \<Rightarrow> \<forall>k i. place k tag = Some i \<longrightarrow> creates tag \<noteq> Some k \<longrightarrow> i < length accounts \<longrightarrow>
         \<Gamma> (v_address (accounts ! i)) = Some k)"

text \<open>The kinds after a call: the account it creates has one, the account it closes has none.\<close>

definition retyped :: "store \<Rightarrow> view list \<Rightarrow> bytes \<Rightarrow> kinds \<Rightarrow> kinds" where
  "retyped s accounts data \<Gamma> = (case data of [] \<Rightarrow> \<Gamma>
     | tag # payload \<Rightarrow>
         let at = (\<lambda>i. v_address (accounts ! i)) in
         if tag = 0 then \<Gamma>(at 2 \<mapsto> Configuration)
         else if tag = 1 then \<Gamma>(at 2 \<mapsto> Proposal)
         else if tag = 4 \<and> carries_close ID s (accounts ! 2) (drop 3 accounts) then \<Gamma>(at 1 := None)
         else if tag = 6 then \<Gamma>(at 0 := None)
         else if tag = 7 then \<Gamma>(at 2 \<mapsto> Upload)
         else if tag = 9 then \<Gamma>(at 1 := None)
         else if tag = 10 then \<Gamma>(at 2 \<mapsto> Proposal, at 3 := None)
         else if tag = 11 \<and> take 1 payload = [6] then \<Gamma>(at 1 := None)
         else \<Gamma>)"

lemma has_kind_iff:
  "has_kind Configuration a \<longleftrightarrow>
     (\<exists>c os ps. ms_load (data_ptr a) (acc_data a) = Inr (c, os, ps) \<and> ms_wf c os ps)"
  "has_kind Proposal a \<longleftrightarrow>
     (\<exists>h v m. tx_load (data_ptr a) (acc_data a) = Inr (h, v, m) \<and> tx_wf h v m)"
  "has_kind Upload a \<longleftrightarrow>
     (\<exists>b region. buf_load (data_ptr a) (acc_data a) = Inr (b, region) \<and> buf_wf b region)"
  by (auto split: sum.splits prod.splits)

declare has_kind.simps [simp del]

lemma has_kind_nonempty: "has_kind k a \<Longrightarrow> acc_data a \<noteq> []"
  by (cases k) (auto simp: has_kind_iff ms_load_Inr tx_load_Inr buf_load_Inr ms_bytes_def tx_bytes_def buf_bytes_def
      dest: arg_cong [of _ _ length])

lemma has_kind_kept: "kept a s s' \<Longrightarrow> has_kind k (s a) \<Longrightarrow> has_kind k (s' a)"
  by (cases k) (auto simp: has_kind_iff kept_def ms_load_Inr tx_load_Inr buf_load_Inr)

lemma typedD:
  assumes "typed \<Gamma> s" "\<Gamma> a = Some k"
  shows "acc_owner (s a) = ID" "has_kind k (s a)" "acc_data (s a) \<noteq> []"
    and "k = Configuration \<Longrightarrow> configured ID a s"
  using assms has_kind_nonempty by (auto simp: typed_def configured_def has_kind_iff(1) [symmetric])

lemma typed_config:
  assumes "typed \<Gamma> s" "\<Gamma> M = Some Configuration"
  obtains c os ps where "acc_owner (s M) = ID" "ms_load (data_ptr (s M)) (acc_data (s M)) = Inr (c, os, ps)" "ms_wf c os ps"
  using typedD [OF assms] by (auto simp: has_kind_iff)

lemma typed_proposal:
  assumes "typed \<Gamma> s" "\<Gamma> T = Some Proposal"
  obtains h v m where "acc_owner (s T) = ID" "tx_load (data_ptr (s T)) (acc_data (s T)) = Inr (h, v, m)" "tx_wf h v m"
  using typedD [OF assms] by (auto simp: has_kind_iff)

section \<open>The ledger of a store\<close>

definition config_entry :: "kinds \<Rightarrow> store \<Rightarrow> address \<Rightarrow> (nat \<times> nat) option" where
  "config_entry \<Gamma> s M = (if \<Gamma> M \<noteq> Some Configuration then None
     else case ms_load (data_ptr (s M)) (acc_data (s M)) of
       Inr (c, _) \<Rightarrow> Some (unat (ms_transaction_index c), unat (ms_closed_transaction_count c))
     | Inl _ \<Rightarrow> None)"

definition proposal_entry :: "kinds \<Rightarrow> store \<Rightarrow> address \<Rightarrow> (address \<times> nat) option" where
  "proposal_entry \<Gamma> s T = (if \<Gamma> T \<noteq> Some Proposal then None
     else case tx_load (data_ptr (s T)) (acc_data (s T)) of
       Inr (h, _) \<Rightarrow> Some (tx_multisig h, unat (tx_index h))
     | Inl _ \<Rightarrow> None)"

definition ledger_of :: "kinds \<Rightarrow> store \<Rightarrow> ledger" where
  "ledger_of \<Gamma> s = \<lparr>l_configs = config_entry \<Gamma> s, l_proposals = proposal_entry \<Gamma> s\<rparr>"

lemma ledger_of_simps [simp]:
  "l_configs (ledger_of \<Gamma> s) = config_entry \<Gamma> s" "l_proposals (ledger_of \<Gamma> s) = proposal_entry \<Gamma> s"
  by (simp_all add: ledger_of_def)

lemma entry_simps [simp]:
  "\<Gamma> M \<noteq> Some Configuration \<Longrightarrow> config_entry \<Gamma> s M = None"
  "\<Gamma> T \<noteq> Some Proposal \<Longrightarrow> proposal_entry \<Gamma> s T = None"
  "\<Gamma> M = Some Configuration \<Longrightarrow> ms_load (data_ptr (s M)) (acc_data (s M)) = Inr (c, os, ps) \<Longrightarrow>
     config_entry \<Gamma> s M = Some (unat (ms_transaction_index c), unat (ms_closed_transaction_count c))"
  "\<Gamma> T = Some Proposal \<Longrightarrow> tx_load (data_ptr (s T)) (acc_data (s T)) = Inr (h, v, m) \<Longrightarrow>
     proposal_entry \<Gamma> s T = Some (tx_multisig h, unat (tx_index h))"
  by (simp_all add: config_entry_def proposal_entry_def)

lemma entries_kept:
  assumes "typed \<Gamma> s" "\<Gamma>' a = \<Gamma> a" "\<Gamma> a \<noteq> None \<Longrightarrow> kept a s s'"
  shows "config_entry \<Gamma>' s' a = config_entry \<Gamma> s a" "proposal_entry \<Gamma>' s' a = proposal_entry \<Gamma> s a"
proof -
  show "config_entry \<Gamma>' s' a = config_entry \<Gamma> s a"
  proof (cases "\<Gamma> a = Some Configuration")
    case True
    then obtain c os ps where "ms_load (data_ptr (s a)) (acc_data (s a)) = Inr (c, os, ps)"
      using typed_config [OF assms(1)] by blast
    with True assms(2,3) kept_loads(1) show ?thesis by fastforce
  qed (simp add: assms(2))
  show "proposal_entry \<Gamma>' s' a = proposal_entry \<Gamma> s a"
  proof (cases "\<Gamma> a = Some Proposal")
    case True
    then obtain h v m where "tx_load (data_ptr (s a)) (acc_data (s a)) = Inr (h, v, m)"
      using typed_proposal [OF assms(1)] by blast
    with True assms(2,3) kept_loads(2) show ?thesis by fastforce
  qed (simp add: assms(2))
qed

text \<open>A call touches_only the accounts in \<open>W\<close> and keeps the other typed ones.\<close>

definition touches_only :: "address set \<Rightarrow> kinds \<Rightarrow> store \<Rightarrow> kinds \<Rightarrow> store \<Rightarrow> bool" where
  "touches_only W \<Gamma> s \<Gamma>' s' \<longleftrightarrow>
     (\<forall>a. a \<notin> W \<longrightarrow> \<Gamma>' a = \<Gamma> a \<and> (\<Gamma> a \<noteq> None \<longrightarrow> kept a s s')) \<and>
     (\<forall>a k. a \<in> W \<longrightarrow> \<Gamma>' a = Some k \<longrightarrow> acc_owner (s' a) = ID \<and> has_kind k (s' a))"

lemma touches_typed:
  assumes "touches_only W \<Gamma> s \<Gamma>' s'" "typed \<Gamma> s"
  shows "typed \<Gamma>' s'"
  unfolding typed_def
proof (intro allI impI)
  fix a k
  assume a: "\<Gamma>' a = Some k"
  show "acc_owner (s' a) = ID \<and> has_kind k (s' a)"
  proof (cases "a \<in> W")
    case False
    with assms(1) a have "\<Gamma> a = Some k" "kept a s s'" by (auto simp: touches_only_def)
    moreover have "acc_owner (s' a) = acc_owner (s a)" using \<open>kept a s s'\<close> by (simp add: kept_def)
    ultimately show ?thesis using typedD(1,2) [OF assms(2)] has_kind_kept by metis
  qed (use assms(1) a in \<open>simp add: touches_only_def\<close>)
qed

lemma touches_ledger:
  assumes "touches_only W \<Gamma> s \<Gamma>' s'" "typed \<Gamma> s"
    and "\<And>a. a \<in> W \<Longrightarrow> config_entry \<Gamma>' s' a = cs a \<and> proposal_entry \<Gamma>' s' a = ps a"
    and "\<And>a. a \<notin> W \<Longrightarrow> cs a = config_entry \<Gamma> s a \<and> ps a = proposal_entry \<Gamma> s a"
  shows "ledger_of \<Gamma>' s' = (ledger_of \<Gamma> s)\<lparr>l_configs := cs, l_proposals := ps\<rparr>"
proof -
  have "config_entry \<Gamma>' s' a = cs a \<and> proposal_entry \<Gamma>' s' a = ps a" for a
  proof (cases "a \<in> W")
    case False
    then have a: "\<Gamma>' a = \<Gamma> a" "\<Gamma> a \<noteq> None \<Longrightarrow> kept a s s'" using assms(1) by (simp_all add: touches_only_def)
    show ?thesis using entries_kept [where \<Gamma>' = \<Gamma>' and a = a, OF assms(2) a] assms(4) [OF False] by simp
  qed (rule assms(3))
  then have "config_entry \<Gamma>' s' = cs" "proposal_entry \<Gamma>' s' = ps" by auto
  then show ?thesis by (simp add: ledger_of_def)
qed

lemma touches_same:
  assumes "touches_only W \<Gamma> s \<Gamma>' s'" "typed \<Gamma> s"
    and "\<And>a. a \<in> W \<Longrightarrow> config_entry \<Gamma>' s' a = config_entry \<Gamma> s a \<and> proposal_entry \<Gamma>' s' a = proposal_entry \<Gamma> s a"
  shows "ledger_of \<Gamma>' s' = ledger_of \<Gamma> s"
  using touches_ledger [OF assms(1,2), of "config_entry \<Gamma> s" "proposal_entry \<Gamma> s"] assms(3) by (simp add: ledger_of_def)

lemma touches_idle:
  assumes "touches_only W \<Gamma> s \<Gamma>' s'" "typed \<Gamma> s"
    and "\<And>a. a \<in> W \<Longrightarrow> config_entry \<Gamma>' s' a = config_entry \<Gamma> s a \<and> proposal_entry \<Gamma>' s' a = proposal_entry \<Gamma> s a"
  shows "ledger_step (ledger_of \<Gamma> s) (ledger_of \<Gamma>' s')"
proof -
  have "ledger_of \<Gamma>' s' = ledger_of \<Gamma> s" by (rule touches_same [OF assms(1,2)]) (rule assms(3))
  then show ?thesis by (simp add: ledger_step.idle)
qed

end
