(* ===== verification/Bookkeeping.thy ===== *)
theory Bookkeeping
  imports Account_Kinds
begin

text \<open>
  What each instruction does to the kinds and to the ledger: a call that respects the kinds leaves a typed store
  typed and is one step of the ledger. So, in any sequence of calls since nothing of the program's existed
  that respects the kinds and establishes no configuration at an address an existing proposal names (\<open>operates\<close>), the
  counts of its configurations are true and closing one strands nothing.
\<close>

section \<open>What each instruction does to the kinds and the ledger\<close>

text \<open>The kinds hold after the call, and the call is one step of the ledger.\<close>

definition accounts_for :: "kinds \<Rightarrow> store \<Rightarrow> kinds \<Rightarrow> store \<Rightarrow> bool" where
  "accounts_for \<Gamma> s \<Gamma>' s' \<longleftrightarrow> typed \<Gamma>' s' \<and> ledger_step (ledger_of \<Gamma> s) (ledger_of \<Gamma>' s')"

lemma init_multisig_accounts:
  assumes spec: "create_account_spec ID rt" and \<Gamma>: "typed \<Gamma> s"
    and run: "process_init_multisig rt ID (creator # create_key # multisig # sp # remaining) instr s = Inr s'"
  shows "typed (\<Gamma>(v_address multisig \<mapsto> Configuration)) s'"
    and "open_of (ledger_of \<Gamma> s) (v_address multisig) = {} \<Longrightarrow>
      accounts_for \<Gamma> s (\<Gamma>(v_address multisig \<mapsto> Configuration)) s'"
proof -
  let ?M = "v_address multisig" and ?c = "fresh_multisig (v_address create_key) (init_multisig_data_of instr)"
  let ?\<Gamma> = "\<Gamma>(?M \<mapsto> Configuration)"
  obtain d s1 where "ms_split_uninitialized (ptr_of s1 multisig) (data_of s1 multisig) = Inr d"
    "\<exists>e. s' = set_data multisig e s1"
    using run unfolding process_init_multisig_def list.case handler_steps by (elim exE conjE) blast
  then have aligned: "8 dvd ptr_of s' multisig"
    by (auto simp: ms_split_uninitialized_def dvd_eq_mod_eq_0 split: if_splits)
  obtain os ps where new: "data_of s multisig = []" "ms_wf ?c os ps" "data_of s' multisig = ms_bytes ?c os ps"
      "acc_owner (account_of s' multisig) = ID"
    using init_multisig_effect [OF spec run] by blast
  have load: "ms_load (ptr_of s' multisig) (data_of s' multisig) = Inr (?c, os, ps)"
    using new(2,3) aligned by (simp add: ms_load_Inr ms_wf_def)
  have free: "\<Gamma> ?M = None" using typedD(3) [OF \<Gamma>] new(1) by (cases "\<Gamma> ?M") auto
  have touch: "touches_only {?M} \<Gamma> s ?\<Gamma> s'"
    using init_multisig_kept [OF spec run] typedD(3) [OF \<Gamma>] load new(2,4)
    by (auto simp: touches_only_def has_kind_iff)
  have "ledger_of ?\<Gamma> s' = (ledger_of \<Gamma> s)\<lparr>l_configs := (config_entry \<Gamma> s)(?M \<mapsto> (0, 0)),
      l_proposals := proposal_entry \<Gamma> s\<rparr>"
    using load free by (intro touches_ledger [OF touch \<Gamma>]) (simp_all add: fresh_multisig_def)
  also have "\<dots> = (ledger_of \<Gamma> s)\<lparr>l_configs := (config_entry \<Gamma> s)(?M \<mapsto> (0, 0))\<rparr>" by (simp add: ledger_of_def)
  finally show "open_of (ledger_of \<Gamma> s) ?M = {} \<Longrightarrow> accounts_for \<Gamma> s ?\<Gamma> s'"
    using touches_typed [OF touch \<Gamma>] ledger_step.establish [of "ledger_of \<Gamma> s" ?M] free
    by (simp add: accounts_for_def)
  show "typed ?\<Gamma> s'" by (rule touches_typed [OF touch \<Gamma>])
qed

lemma init_proposal_accounts:
  assumes spec: "create_account_spec ID rt" and \<Gamma>: "typed \<Gamma> s" and M: "\<Gamma> (v_address multisig) = Some Configuration"
    and run: "init_proposal rt ID creator multisig transaction m vi vb bump ec eb s = Inr s'"
    and unused: "data_of s transaction = []"
  shows "accounts_for \<Gamma> s (\<Gamma>(v_address transaction \<mapsto> Proposal)) s'"
proof -
  let ?M = "v_address multisig" and ?T = "v_address transaction" and ?\<Gamma> = "\<Gamma>(v_address transaction \<mapsto> Proposal)"
  obtain c os ps where own: "acc_owner (account_of s multisig) = ID"
    and ms: "ms_load (ptr_of s multisig) (data_of s multisig) = Inr (c, os, ps)" "ms_wf c os ps"
    by (rule typed_config [OF \<Gamma> M])
  obtain t where life: "life_inv ?M ?T (c, os, ps) t m {} s'" and differ: "?M \<noteq> ?T"
    and t: "tx_multisig t = ?M" "unat (tx_index t) = Suc (unat (ms_transaction_index c))"
    and ms': "ms_load (ptr_of s' multisig) (data_of s' multisig) = Inr (c\<lparr>ms_transaction_index := tx_index t\<rparr>, os, ps)"
      "ms_wf (c\<lparr>ms_transaction_index := tx_index t\<rparr>) os ps"
    and own': "acc_owner (account_of s' transaction) = ID"
      "acc_owner (account_of s' multisig) = acc_owner (account_of s multisig)"
    by (rule created_life_inv [OF spec run unused ms])
  from life obtain h v where h: "tx_load (ptr_of s' transaction) (data_of s' transaction) = Inr (h, v, m)" "tx_wf h v m"
    "proposal_kept t h" unfolding life_inv_def prod.case by blast
  then have idx: "tx_multisig h = ?M" "unat (tx_index h) = Suc (unat (ms_transaction_index c))"
    using t by (simp_all add: proposal_kept_def)
  have free: "\<Gamma> ?T = None" using typedD(3) [OF \<Gamma>] unused by (cases "\<Gamma> ?T") auto
  have touch: "touches_only {?M, ?T} \<Gamma> s ?\<Gamma> s'"
    using init_proposal_kept [OF spec run] ms' h own own' M differ
    by (auto simp: touches_only_def has_kind_iff)
  let ?n = "unat (ms_transaction_index c)" and ?k = "unat (ms_closed_transaction_count c)"
  have "ledger_of ?\<Gamma> s' = (ledger_of \<Gamma> s)\<lparr>l_configs := (config_entry \<Gamma> s)(?M \<mapsto> (?n + 1, ?k)),
      l_proposals := (proposal_entry \<Gamma> s)(?T \<mapsto> (?M, ?n + 1))\<rparr>"
    using ms' h(1) M free differ t(2) idx by (intro touches_ledger [OF touch \<Gamma>]) auto
  then show ?thesis
    using touches_typed [OF touch \<Gamma>] ledger_step.propose [of "ledger_of \<Gamma> s" ?M ?n ?k ?T] ms(1) M free
    by (simp add: accounts_for_def)
qed

lemma close_upload_accounts:
  assumes spec: "close_spec rt" and \<Gamma>: "typed \<Gamma> s" and B: "\<Gamma> (v_address buf) = Some Upload"
    and close: "close_buffer rt buf destination s = Inr s'"
  shows "accounts_for \<Gamma> s (\<Gamma>(v_address buf := None)) s'"
proof -
  have touch: "touches_only {v_address buf} \<Gamma> s (\<Gamma>(v_address buf := None)) s'"
    using kept_close_buffer [OF spec close] by (simp add: touches_only_def)
  have "ledger_step (ledger_of \<Gamma> s) (ledger_of (\<Gamma>(v_address buf := None)) s')"
    by (rule touches_idle [OF touch \<Gamma>]) (simp add: B)
  with touches_typed [OF touch \<Gamma>] show ?thesis by (simp add: accounts_for_def)
qed

lemma vote_accounts:
  assumes rt: "runtime_ok ID rt" and \<Gamma>: "typed \<Gamma> s"
    and kinds: "\<Gamma> (v_address multisig) = Some Configuration" "\<Gamma> (v_address transaction) = Some Proposal"
    and run: "process_approve rt ID (signer # multisig # transaction # remaining) instr s = Inr s' \<or>
       process_reject ID (signer # multisig # transaction # remaining) instr s = Inr s' \<or>
       process_cancel ID (signer # multisig # transaction # remaining) instr s = Inr s'"
  shows "accounts_for \<Gamma> s \<Gamma> s'"
proof -
  let ?T = "v_address transaction"
  have differ: "?T \<noteq> v_address multisig" using kinds by auto
  obtain d where s': "s' = set_data transaction d s" using votes_write [OF run] by blast
  obtain c os ps where ms: "ms_load (ptr_of s multisig) (data_of s multisig) = Inr (c, os, ps)" "ms_wf c os ps"
    by (rule typed_config [OF \<Gamma> kinds(1)])
  obtain h v m where own: "acc_owner (account_of s transaction) = ID"
    and tx: "tx_load (ptr_of s transaction) (data_of s transaction) = Inr (h, v, m)" "tx_wf h v m"
    by (rule typed_proposal [OF \<Gamma> kinds(2)])
  obtain h' v' where h': "tx_load (ptr_of s' transaction) (data_of s' transaction) = Inr (h', v', m)"
    "tx_wf h' v' m" "proposal_kept h h'"
    using vote_or_execute_refines [OF rt differ ms tx] run by blast
  have "acc_owner (account_of s' transaction) = ID" using own by (simp add: s')
  with h' have touch: "touches_only {?T} \<Gamma> s \<Gamma> s'"
    by (auto simp: touches_only_def kinds has_kind_iff s')
  have "ledger_step (ledger_of \<Gamma> s) (ledger_of \<Gamma> s')"
    using h' tx(1) by (intro touches_idle [OF touch \<Gamma>]) (simp add: kinds proposal_kept_def)
  with touches_typed [OF touch \<Gamma>] show ?thesis by (simp add: accounts_for_def)
qed

lemma close_transaction_accounts:
  assumes spec: "close_spec rt" and \<Gamma>: "typed \<Gamma> s"
    and kinds: "\<Gamma> (v_address multisig) = Some Configuration" "\<Gamma> (v_address transaction) = Some Proposal"
    and run: "process_close_transaction rt ID (transaction # multisig # destination # remaining) instr s = Inr s'"
  shows "accounts_for \<Gamma> s (\<Gamma>(v_address transaction := None)) s'"
proof -
  let ?M = "v_address multisig" and ?T = "v_address transaction" and ?\<Gamma> = "\<Gamma>(v_address transaction := None)"
  have differ: "?M \<noteq> ?T" using kinds by auto
  obtain c os ps where own: "acc_owner (account_of s multisig) = ID"
    and ms: "ms_load (ptr_of s multisig) (data_of s multisig) = Inr (c, os, ps)" "ms_wf c os ps"
    by (rule typed_config [OF \<Gamma> kinds(1)])
  obtain s1 collector h v m where closure: "count_closure multisig s = Inr (s1, collector)"
    and load: "tx_load (ptr_of s1 transaction) (data_of s1 transaction) = Inr (h, v, m)" "tx_multisig h = ?M"
    and close: "close_buffer rt transaction destination s1 = Inr s'"
    by (rule close_transaction_run [OF run])
  let ?c = "\<lambda>n. c\<lparr>ms_closed_transaction_count := n\<rparr>"
  obtain n where n: "checked_add (ms_closed_transaction_count c) 1 = Some n" "ms_invariant (?c n) = Inr ()"
    and s1: "s1 = set_data multisig (ms_bytes (?c n) os ps) s"
    using closure ms(1) by (auto simp: count_closure_Inr)
  have k: "kept ?M s1 s'" by (rule kept_close_buffer [OF spec close differ])
  have wf: "ms_wf (?c n) os ps" using ms(2) n by (simp add: ms_wf_def)
  have ms': "ms_load (ptr_of s' multisig) (data_of s' multisig) = Inr (?c n, os, ps)"
    using ms(1) by (intro kept_loads(1) [OF k]) (simp add: s1 ms_load_Inr)
  have own': "acc_owner (account_of s' multisig) = ID" using k own by (simp add: kept_def s1)
  have touch: "touches_only {?M, ?T} \<Gamma> s ?\<Gamma> s'"
    using close_transaction_kept [OF spec run] ms' wf own' kinds(1) differ
    by (auto simp: touches_only_def has_kind_iff)
  have tx: "proposal_entry \<Gamma> s ?T = Some (?M, unat (tx_index h))" using load differ kinds(2) by (simp add: s1)
  have count: "unat n = unat (ms_closed_transaction_count c) + 1" using checked_add_Some [OF n(1)] by simp
  let ?n = "unat (ms_transaction_index c)" and ?k = "unat (ms_closed_transaction_count c)"
  have "ledger_of ?\<Gamma> s' = (ledger_of \<Gamma> s)\<lparr>l_configs := (config_entry \<Gamma> s)(?M \<mapsto> (?n, ?k + 1)),
      l_proposals := (proposal_entry \<Gamma> s)(?T := None)\<rparr>"
    using ms' kinds differ count by (intro touches_ledger [OF touch \<Gamma>]) auto
  then show ?thesis
    using touches_typed [OF touch \<Gamma>] ledger_step.finish [of "ledger_of \<Gamma> s" ?M ?n ?k ?T] ms(1) kinds(1) tx
    by (simp add: accounts_for_def)
qed

lemma buffer_create_accounts:
  assumes spec: "create_account_spec ID rt" and \<Gamma>: "typed \<Gamma> s"
    and run: "process_buffer_create rt ID (creator # multisig # buf # sp # remaining) instr s = Inr s'"
  shows "accounts_for \<Gamma> s (\<Gamma>(v_address buf \<mapsto> Upload)) s'"
proof -
  let ?B = "v_address buf" and ?\<Gamma> = "\<Gamma>(v_address buf \<mapsto> Upload)"
  obtain d s1 where "buf_split_uninitialized (ptr_of s1 buf) (data_of s1 buf) = Inr d"
    "\<exists>e. s' = set_data buf e s1" and unused: "data_of s buf = []"
    using run unfolding process_buffer_create_def list.case handler_steps by (elim exE conjE) blast
  then have aligned: "4 dvd ptr_of s' buf"
    by (auto simp: buf_split_uninitialized_def dvd_eq_mod_eq_0 split: if_splits)
  obtain b region where new: "buf_wf b region" "data_of s' buf = buf_bytes b region" "acc_owner (account_of s' buf) = ID"
    using buffer_create_effect [OF spec run] unfolding Let_def by blast
  have load: "buf_load (ptr_of s' buf) (data_of s' buf) = Inr (b, region)"
    using new(1,2) aligned by (simp add: buf_load_Inr buf_wf_def)
  have free: "\<Gamma> ?B = None" using typedD(3) [OF \<Gamma>] unused by (cases "\<Gamma> ?B") auto
  have touch: "touches_only {?B} \<Gamma> s ?\<Gamma> s'"
    using buffer_create_kept [OF spec run] typedD(3) [OF \<Gamma>] load new(1,3)
    by (auto simp: touches_only_def has_kind_iff)
  have "ledger_step (ledger_of \<Gamma> s) (ledger_of ?\<Gamma> s')"
    by (rule touches_idle [OF touch \<Gamma>]) (simp add: free)
  with touches_typed [OF touch \<Gamma>] show ?thesis by (simp add: accounts_for_def)
qed

lemma buffer_extend_accounts:
  assumes \<Gamma>: "typed \<Gamma> s" and B: "\<Gamma> (v_address buf) = Some Upload"
    and run: "process_buffer_extend rt ID (creator # buf # remaining) instr s = Inr s'"
  shows "accounts_for \<Gamma> s \<Gamma> s'"
proof -
  obtain b region where own: "acc_owner (account_of s buf) = ID"
    and load: "buf_load (ptr_of s buf) (data_of s buf) = Inr (b, region)" "buf_wf b region"
    using typedD [OF \<Gamma> B] by (auto simp: has_kind_iff)
  obtain b' region' where new: "buf_load (ptr_of s' buf) (data_of s' buf) = Inr (b', region')" "buf_wf b' region'"
    and s': "s' = set_data buf (buf_bytes b' region') s"
    using buffer_extend_effect [OF run load] by blast
  have "acc_owner (account_of s' buf) = ID" using own by (simp add: s')
  with new have touch: "touches_only {v_address buf} \<Gamma> s \<Gamma> s'"
    by (auto simp: touches_only_def has_kind_iff B s')
  have "ledger_step (ledger_of \<Gamma> s) (ledger_of \<Gamma> s')"
    by (rule touches_idle [OF touch \<Gamma>]) (simp add: B)
  with touches_typed [OF touch \<Gamma>] show ?thesis by (simp add: accounts_for_def)
qed

lemma authority_closing_counts:
  assumes run: "process_set_config rt pid (authority # multisig # remaining) instr s = Inr s'"
    and ms: "ms_load (ptr_of s multisig) (data_of s multisig) = Inr (c, os, ps)" and closes: "take 1 instr = [6]"
  shows "ms_closed_transaction_count c = ms_transaction_index c"
proof -
  obtain payload where "instr = 6 # payload" using closes by (cases instr) auto
  moreover have "apply_config_action rt multisig authority instr False s = Inr s'"
    using run unfolding process_set_config_def list.case handler_steps by blast
  ultimately have "close_multisig rt multisig authority payload False s = Inr s'"
    by (simp add: apply_config_action_def config_action_from_u8_def)
  then show ?thesis
    unfolding close_multisig_def ms
    by (auto simp: and_then_Inr if_fail_eq_Inr Let_def all_transactions_closed_def split: if_splits)
qed

lemma set_config_accounts:
  assumes rt: "runtime_ok ID rt" and \<Gamma>: "typed \<Gamma> s" and M: "\<Gamma> (v_address multisig) = Some Configuration"
    and run: "process_set_config rt ID (authority # multisig # remaining) instr s = Inr s'"
  shows "accounts_for \<Gamma> s (if take 1 instr = [6] then \<Gamma>(v_address multisig := None) else \<Gamma>) s'"
proof -
  note spec = rt [unfolded runtime_ok_def]
  let ?M = "v_address multisig"
  obtain c os ps where own: "acc_owner (account_of s multisig) = ID"
    and ms: "ms_load (ptr_of s multisig) (data_of s multisig) = Inr (c, os, ps)" "ms_wf c os ps"
    by (rule typed_config [OF \<Gamma> M])
  have action: "apply_config_action rt multisig authority instr False s = Inr s'"
    using run unfolding process_set_config_def list.case handler_steps by blast
  have kept: "kept a s s'" if "a \<noteq> ?M" for a using set_config_kept [OF _ _ _ run that] spec by blast
  show ?thesis
  proof (cases "take 1 instr = [6]")
    case True
    note clear = authority_closing_counts [OF run ms(1) True]
    let ?\<Gamma> = "\<Gamma>(?M := None)"
    have touch: "touches_only {?M} \<Gamma> s ?\<Gamma> s'" using kept by (simp add: touches_only_def)
    have "ledger_of ?\<Gamma> s' = (ledger_of \<Gamma> s)\<lparr>l_configs := (config_entry \<Gamma> s)(?M := None),
        l_proposals := proposal_entry \<Gamma> s\<rparr>"
      using M by (intro touches_ledger [OF touch \<Gamma>]) simp_all
    also have "\<dots> = (ledger_of \<Gamma> s)\<lparr>l_configs := (config_entry \<Gamma> s)(?M := None)\<rparr>" by (simp add: ledger_of_def)
    finally show ?thesis
      using touches_typed [OF touch \<Gamma>] True M ms(1) clear
        ledger_step.dissolve [of "ledger_of \<Gamma> s" ?M "unat (ms_transaction_index c)"]
      by (simp add: accounts_for_def)
  next
    case False
    have "counts_stay ?M s s'"
      using counts.changed [OF _ _ typedD(4) [OF \<Gamma> M refl] action False] spec by blast
    then obtain c' os' ps' where ms': "acc_owner (account_of s' multisig) = ID"
      "ms_load (ptr_of s' multisig) (data_of s' multisig) = Inr (c', os', ps')" "ms_wf c' os' ps'"
      "ms_transaction_index c' = ms_transaction_index c" "ms_closed_transaction_count c' = ms_closed_transaction_count c"
      unfolding counts_stay_def using ms own by metis
    have touch: "touches_only {?M} \<Gamma> s \<Gamma> s'" using kept ms' M by (auto simp: touches_only_def has_kind_iff)
    have "ledger_step (ledger_of \<Gamma> s) (ledger_of \<Gamma> s')"
      using ms' ms(1) M by (intro touches_idle [OF touch \<Gamma>]) simp
    with touches_typed [OF touch \<Gamma>] False show ?thesis by (simp add: accounts_for_def)
  qed
qed

lemma execute_accounts_for:
  assumes rt: "runtime_ok ID rt" and \<Gamma>: "typed \<Gamma> s"
    and kinds: "\<Gamma> (v_address multisig) = Some Configuration" "\<Gamma> (v_address transaction) = Some Proposal"
    and run: "process_execute rt ID (executor # multisig # transaction # remaining) instr s = Inr s'"
  shows "accounts_for \<Gamma> s (if carries_close ID s transaction remaining
    then \<Gamma>(v_address multisig := None) else \<Gamma>) s'"
proof -
  have spec: "resize_spec rt" "transfer_spec rt" "close_spec rt" "invoke_spec ID rt"
    using rt by (simp_all add: runtime_ok_def)
  let ?M = "v_address multisig" and ?T = "v_address transaction"
  have differ: "?T \<noteq> ?M" "?M \<noteq> ?T" using kinds by auto
  obtain c os ps where own: "acc_owner (account_of s multisig) = ID"
    and ms: "ms_load (ptr_of s multisig) (data_of s multisig) = Inr (c, os, ps)" "ms_wf c os ps"
    by (rule typed_config [OF \<Gamma> kinds(1)])
  obtain h v m where ownT: "acc_owner (account_of s transaction) = ID"
    and tx: "tx_load (ptr_of s transaction) (data_of s transaction) = Inr (h, v, m)" "tx_wf h v m"
    by (rule typed_proposal [OF \<Gamma> kinds(2)])
  obtain h' where h': "tx_load (ptr_of s' transaction) (data_of s' transaction) = Inr (h', v, m)"
      "tx_wf h' v m" "proposal_kept h h'"
    using execute_refines [OF rt run tx differ(1)] by blast
  have names: "tx_multisig h = ?M"
    by (rule execute_run [OF run]) (use tx(1) in simp)
  have ownT': "acc_owner (account_of s' transaction) = ID" by (rule execute_owner [OF rt run differ(1) ownT])
  have kept: "kept a s s'" if "\<Gamma> a \<noteq> None" "a \<noteq> ?M" "a \<noteq> ?T" for a
    using execute_kept [OF spec run that(2,3)] typedD(1) [OF \<Gamma>] that(1) by blast
  have entryT: "proposal_entry \<Gamma> s ?T = Some (?M, unat (tx_index h))" using tx(1) kinds(2) names by simp
  show ?thesis
  proof (cases "carries_close ID s transaction remaining")
    case True
    let ?\<Gamma> = "\<Gamma>(?M := None)" and ?k = "unat (ms_closed_transaction_count c)"
    have count: "unat (ms_transaction_index c) = ?k + 1"
      using closing_execution_counts [OF rt run ms differ(2) True] by simp
    have touch: "touches_only {?M, ?T} \<Gamma> s ?\<Gamma> s'"
      using kept h' ownT' kinds(2) by (auto simp: touches_only_def has_kind_iff)
    have "ledger_of ?\<Gamma> s' = (ledger_of \<Gamma> s)\<lparr>l_configs := (config_entry \<Gamma> s)(?M := None),
        l_proposals := proposal_entry \<Gamma> s\<rparr>"
      using h' tx(1) kinds differ by (intro touches_ledger [OF touch \<Gamma>]) (auto simp: proposal_kept_def)
    also have "\<dots> = (ledger_of \<Gamma> s)\<lparr>l_configs := (config_entry \<Gamma> s)(?M := None)\<rparr>" by (simp add: ledger_of_def)
    finally show ?thesis
      using touches_typed [OF touch \<Gamma>] True kinds(1) ms(1) count entryT
        ledger_step.dissolve_by [of "ledger_of \<Gamma> s" ?M ?k ?T]
      by (simp add: accounts_for_def)
  next
    case False
    have "counts_stay ?M s s'"
      by (rule counts.execution [OF spec(1,2,4) run typedD(4) [OF \<Gamma> kinds(1) refl] differ(2) False])
    then obtain c' os' ps' where ms': "acc_owner (account_of s' multisig) = ID"
      "ms_load (ptr_of s' multisig) (data_of s' multisig) = Inr (c', os', ps')" "ms_wf c' os' ps'"
      "ms_transaction_index c' = ms_transaction_index c" "ms_closed_transaction_count c' = ms_closed_transaction_count c"
      unfolding counts_stay_def using ms own by metis
    have touch: "touches_only {?M, ?T} \<Gamma> s \<Gamma> s'"
      using kept h' ownT' ms' kinds by (auto simp: touches_only_def has_kind_iff)
    have "ledger_step (ledger_of \<Gamma> s) (ledger_of \<Gamma> s')"
      using ms' ms(1) h' tx(1) kinds by (intro touches_idle [OF touch \<Gamma>]) (auto simp: proposal_kept_def)
    with touches_typed [OF touch \<Gamma>] False show ?thesis by (simp add: accounts_for_def)
  qed
qed

section \<open>Every call\<close>

text \<open>The proposals that exist under a configuration.\<close>

definition proposals_naming :: "kinds \<Rightarrow> store \<Rightarrow> address \<Rightarrow> address set" where
  "proposals_naming \<Gamma> s M = {T. \<Gamma> T = Some Proposal \<and>
     (case tx_load (data_ptr (s T)) (acc_data (s T)) of Inr (h, _) \<Rightarrow> tx_multisig h = M | Inl _ \<Rightarrow> False)}"

lemma open_of_ledger_of: "open_of (ledger_of \<Gamma> s) M = proposals_naming \<Gamma> s M"
  by (auto simp: open_of_def proposals_naming_def proposal_entry_def split: sum.splits if_splits)

text \<open>A configuration is established only where no proposal names its address. The program does not check this:
  after a configuration has been closed by one of its proposals, that proposal still names its address, and
  the holder of the create key may establish a new configuration there. Closing the old proposal then counts
  against the new configuration, whose counts are no longer true.\<close>

definition unnamed :: "kinds \<Rightarrow> store \<Rightarrow> view list \<Rightarrow> bytes \<Rightarrow> bool" where
  "unnamed \<Gamma> s accounts data \<longleftrightarrow>
     (take 1 data = [0] \<longrightarrow> proposals_naming \<Gamma> s (v_address (accounts ! 2)) = {})"

lemma respects_kindsD:
  assumes "respects_kinds \<Gamma> accounts (tag # payload)"
  shows "config_at tag = Some i \<Longrightarrow> tag \<noteq> 0 \<Longrightarrow> i < length accounts \<Longrightarrow> \<Gamma> (v_address (accounts ! i)) = Some Configuration"
    and "proposal_at tag = Some i \<Longrightarrow> tag \<notin> {1, 10} \<Longrightarrow> i < length accounts \<Longrightarrow> \<Gamma> (v_address (accounts ! i)) = Some Proposal"
    and "buffer_at tag = Some i \<Longrightarrow> tag \<noteq> 7 \<Longrightarrow> i < length accounts \<Longrightarrow> \<Gamma> (v_address (accounts ! i)) = Some Upload"
  using assms by (simp_all add: respects_kinds_def creates_def split: if_splits)

lemma create_from_buffer_accounts:
  assumes spec: "create_account_spec ID rt" "close_spec rt" and \<Gamma>: "typed \<Gamma> s"
    and M: "\<Gamma> (v_address multisig) = Some Configuration" and B: "\<Gamma> (v_address buf) = Some Upload"
    and run: "process_create_from_buffer rt ID (creator # multisig # transaction # buf # sp # r) payload s = Inr s'"
  shows "accounts_for \<Gamma> s (\<Gamma>(v_address transaction \<mapsto> Proposal, v_address buf := None)) s'"
proof -
  obtain b :: buffer and region s1 where unused: "data_of s transaction = []"
    and init: "init_proposal rt ID creator multisig transaction region (buf_vault_index b)
       (cb_vault_bump (create_from_buffer_data_of payload)) (cb_bump (create_from_buffer_data_of payload))
       (cb_ephemeral_count (create_from_buffer_data_of payload))
       (cb_ephemeral_bumps (create_from_buffer_data_of payload)) s = Inr s1"
    and close: "close_buffer rt buf creator s1 = Inr s'"
    by (rule create_from_buffer_steps [OF run])
  let ?\<Gamma> = "\<Gamma>(v_address transaction \<mapsto> Proposal)"
  from init_proposal_accounts [OF spec(1) \<Gamma> M init unused]
  have 1: "typed ?\<Gamma> s1" "ledger_step (ledger_of \<Gamma> s) (ledger_of ?\<Gamma> s1)" by (simp_all add: accounts_for_def)
  have differ: "v_address buf \<noteq> v_address transaction" using typedD(3) [OF \<Gamma> B] unused by auto
  have touch: "touches_only {v_address buf} ?\<Gamma> s1 (?\<Gamma>(v_address buf := None)) s'"
    using kept_close_buffer [OF spec(2) close] by (simp add: touches_only_def)
  have "ledger_of (?\<Gamma>(v_address buf := None)) s' = ledger_of ?\<Gamma> s1"
    by (rule touches_same [OF touch 1(1)]) (simp add: B differ)
  with 1(2) touches_typed [OF touch 1(1)] show ?thesis by (simp add: accounts_for_def)
qed

lemma buffer_close_accounts:
  assumes spec: "close_spec rt" and \<Gamma>: "typed \<Gamma> s" and B: "\<Gamma> (v_address buf) = Some Upload"
    and run: "process_buffer_close rt ID (creator # buf # r) payload s = Inr s'"
  shows "accounts_for \<Gamma> s (\<Gamma>(v_address buf := None)) s'"
proof -
  have "close_buffer rt buf creator s = Inr s'"
    using run unfolding process_buffer_close_def list.case handler_steps by blast
  from close_upload_accounts [OF spec \<Gamma> B this] show ?thesis .
qed

lemma call_accounts:
  assumes rt: "runtime_ok ID rt" and \<Gamma>: "typed \<Gamma> s" and kinds: "respects_kinds \<Gamma> accounts data"
    and run: "process_instruction rt ID accounts data s = Inr s'"
  shows "typed (retyped s accounts data \<Gamma>) s'"
    and "unnamed \<Gamma> s accounts data \<Longrightarrow> ledger_step (ledger_of \<Gamma> s) (ledger_of (retyped s accounts data \<Gamma>) s')"
proof -
  let ?\<Gamma> = "retyped s accounts data \<Gamma>"
  have spec: "create_account_spec ID rt" "close_spec rt" using rt by (simp_all add: runtime_ok_def)
  obtain tag payload where data: "data = tag # payload" using run by (cases data) (auto simp: process_instruction_def)
  note kinds' = respects_kindsD [OF kinds [unfolded data]]
  from run [unfolded data]
  have "typed ?\<Gamma> s' \<and> (unnamed \<Gamma> s accounts data \<longrightarrow> ledger_step (ledger_of \<Gamma> s) (ledger_of ?\<Gamma> s'))"
  proof (cases rule: call_cases)
    case (init creator create_key multisig sp r)
    from init_multisig_accounts [OF spec(1) \<Gamma> init(3)] show ?thesis
      by (simp add: retyped_def data init(1,2) unnamed_def open_of_ledger_of accounts_for_def)
  next
    case (create creator multisig transaction sp r)
    have "\<Gamma> (v_address multisig) = Some Configuration" using kinds'(1) [of 1] create(1,2) by (simp add: places)
    from init_proposal_accounts [OF spec(1) \<Gamma> this] create_transaction_init(3,4) [OF create(3)]
    show ?thesis by (simp add: retyped_def data create(1,2) Let_def accounts_for_def)
  next
    case (approve signer multisig transaction r)
    have "\<Gamma> (v_address multisig) = Some Configuration" "\<Gamma> (v_address transaction) = Some Proposal"
      using kinds'(1) [of 1] kinds'(2) [of 2] approve(1,2) by (simp_all add: places)
    from vote_accounts [OF rt \<Gamma> this disjI1 [OF approve(3)]] show ?thesis
      by (simp add: data retyped_def accounts_for_def approve(1))
  next
    case (reject signer multisig transaction r)
    have "\<Gamma> (v_address multisig) = Some Configuration" "\<Gamma> (v_address transaction) = Some Proposal"
      using kinds'(1) [of 1] kinds'(2) [of 2] reject(1,2) by (simp_all add: places)
    from vote_accounts [OF rt \<Gamma> this disjI2 [OF disjI1 [OF reject(3)]]] show ?thesis
      by (simp add: data retyped_def accounts_for_def reject(1))
  next
    case (execute executor multisig transaction r)
    have "\<Gamma> (v_address multisig) = Some Configuration" "\<Gamma> (v_address transaction) = Some Proposal"
      using kinds'(1) [of 1] kinds'(2) [of 2] execute(1,2) by (simp_all add: places)
    from execute_accounts_for [OF rt \<Gamma> this execute(3)] show ?thesis
      by (simp add: data retyped_def execute(1,2) accounts_for_def split: if_splits)
  next
    case (cancel signer multisig transaction r)
    have "\<Gamma> (v_address multisig) = Some Configuration" "\<Gamma> (v_address transaction) = Some Proposal"
      using kinds'(1) [of 1] kinds'(2) [of 2] cancel(1,2) by (simp_all add: places)
    from vote_accounts [OF rt \<Gamma> this disjI2 [OF disjI2 [OF cancel(3)]]] show ?thesis
      by (simp add: data retyped_def accounts_for_def cancel(1))
  next
    case (close transaction multisig destination r)
    have "\<Gamma> (v_address multisig) = Some Configuration" "\<Gamma> (v_address transaction) = Some Proposal"
      using kinds'(1) [of 1] kinds'(2) [of 0] close(1,2) by (simp_all add: places)
    from close_transaction_accounts [OF spec(2) \<Gamma> this close(3)] show ?thesis
      by (simp add: data retyped_def close(1,2) accounts_for_def)
  next
    case (upload creator multisig buf sp r)
    from buffer_create_accounts [OF spec(1) \<Gamma> upload(3)] show ?thesis
      by (simp add: data retyped_def upload(1,2) accounts_for_def)
  next
    case (extend creator buf r)
    have "\<Gamma> (v_address buf) = Some Upload" using kinds'(3) [of 1] extend(1,2) by (simp add: places)
    from buffer_extend_accounts [OF \<Gamma> this extend(3)] show ?thesis
      by (simp add: data retyped_def extend(1,2) accounts_for_def)
  next
    case (discard creator buf r)
    have "\<Gamma> (v_address buf) = Some Upload" using kinds'(3) [of 1] discard(1,2) by (simp add: places)
    from buffer_close_accounts [OF spec(2) \<Gamma> this discard(3)] show ?thesis
      by (simp add: data retyped_def discard(1,2) accounts_for_def)
  next
    case (from_buffer creator multisig transaction buf sp r)
    have "\<Gamma> (v_address multisig) = Some Configuration" "\<Gamma> (v_address buf) = Some Upload"
      using kinds'(1) [of 1] kinds'(3) [of 3] from_buffer(1,2) by (simp_all add: places)
    from create_from_buffer_accounts [OF spec \<Gamma> this from_buffer(3)] show ?thesis
      by (simp add: data retyped_def from_buffer(1,2) accounts_for_def Let_def)
  next
    case (config authority multisig r)
    have "\<Gamma> (v_address multisig) = Some Configuration" using kinds'(1) [of 1] config(1,2) by (simp add: places)
    from set_config_accounts [OF rt \<Gamma> this config(3)] show ?thesis
      by (simp add: data retyped_def config(1,2) accounts_for_def split: if_splits)
  qed
  then show "typed ?\<Gamma> s'" "unnamed \<Gamma> s accounts data \<Longrightarrow> ledger_step (ledger_of \<Gamma> s) (ledger_of ?\<Gamma> s')"
    by blast+
qed

section \<open>The program at work\<close>

text \<open>The program's life from when nothing of its existed: any sequence of successful calls that respect the kinds and establish
  no configuration at an address that is still named, with other
  programs between them, and the log of the calls. A failing call changes nothing and need not be listed.\<close>

inductive operates :: "(view list \<times> bytes) list \<Rightarrow> kinds \<Rightarrow> store \<Rightarrow> bool" where
  start: "operates [] Map.empty s"
| call: "operates log \<Gamma> s \<Longrightarrow> runtime_ok ID rt \<Longrightarrow> respects_kinds \<Gamma> accounts data \<Longrightarrow>
    unnamed \<Gamma> s accounts data \<Longrightarrow> process_instruction rt ID accounts data s = Inr s' \<Longrightarrow>
    operates (log @ [(accounts, data)]) (retyped s accounts data \<Gamma>) s'"
| outside: "operates log \<Gamma> s \<Longrightarrow> foreign s s' \<Longrightarrow> operates log \<Gamma> s'"

lemma foreign_accounts:
  assumes "foreign s s'" "typed \<Gamma> s"
  shows "typed \<Gamma> s'" "ledger_of \<Gamma> s' = ledger_of \<Gamma> s"
proof -
  have "kept a s s'" if "\<Gamma> a \<noteq> None" for a
    using assms that typedD(1) [OF assms(2)] by (auto simp: foreign_def)
  then have touch: "touches_only {} \<Gamma> s \<Gamma> s'" by (simp add: touches_only_def)
  show "typed \<Gamma> s'" by (rule touches_typed [OF touch assms(2)])
  show "ledger_of \<Gamma> s' = ledger_of \<Gamma> s" by (rule touches_same [OF touch assms(2)]) simp
qed

lemma operates_sound:
  assumes "operates log \<Gamma> s"
  shows "typed \<Gamma> s \<and> balanced (ledger_of \<Gamma> s)"
  using assms
proof (induction rule: operates.induct)
  case (start s)
  have "ledger_of Map.empty s = \<lparr>l_configs = Map.empty, l_proposals = Map.empty\<rparr>"
    by (simp add: ledger_of_def fun_eq_iff)
  then show ?case by (simp add: typed_def balanced_empty)
next
  case (call log \<Gamma> s rt accounts data s')
  then show ?case using call_accounts [OF call.hyps(2) _ call.hyps(3,5)] balanced_step by blast
next
  case (outside log \<Gamma> s s')
  then show ?case using foreign_accounts [OF outside.hyps(2)] by simp
qed

text \<open>A call that succeeds was passed every account its instruction expects.\<close>

lemma expected_accounts:
  assumes "process_instruction rt ID accounts (tag # payload) s = Inr s'"
    and "config_at tag = Some i \<or> proposal_at tag = Some i \<or> buffer_at tag = Some i"
  shows "i < length accounts"
  using assms by (cases rule: call_cases) (auto simp: places)

lemma proposals_namingE:
  assumes "T \<in> proposals_naming \<Gamma> s M" "typed \<Gamma> s"
  obtains h v m where "\<Gamma> T = Some Proposal" "tx_load (data_ptr (s T)) (acc_data (s T)) = Inr (h, v, m)"
    "tx_wf h v m" "tx_multisig h = M" "index_of_proposal (ledger_of \<Gamma> s) T = unat (tx_index h)"
proof -
  have T: "\<Gamma> T = Some Proposal" using assms(1) by (simp add: proposals_naming_def)
  obtain h v m where "tx_load (data_ptr (s T)) (acc_data (s T)) = Inr (h, v, m)" "tx_wf h v m"
    by (rule typed_proposal [OF assms(2) T])
  with T assms(1) show thesis
    by (intro that [of h v m]) (simp_all add: proposals_naming_def index_of_proposal_def)
qed

lemma operates_page:
  assumes "operates log \<Gamma> s" "\<Gamma> M = Some Configuration"
    and "ms_load (data_ptr (s M)) (acc_data (s M)) = Inr (c, os, ps)"
  shows "page_ok (Some (unat (ms_transaction_index c), unat (ms_closed_transaction_count c)))
     (proposals_naming \<Gamma> s M) (index_of_proposal (ledger_of \<Gamma> s))"
proof -
  have "page_ok (l_configs (ledger_of \<Gamma> s) M) (open_of (ledger_of \<Gamma> s) M) (index_of_proposal (ledger_of \<Gamma> s))"
    using operates_sound [OF assms(1)] by (simp add: balanced_def)
  then show ?thesis using assms(2,3) by (simp add: open_of_ledger_of)
qed

text \<open>C11: every kind of account stays what it is: a successful call that passes each account of the program's
  where its kind is expected leaves every account of the program's well formed for its kind; those it
  created have the kind of their instruction, and only the proposal, the upload or the configuration that the
  call closes loses its kind.\<close>

theorem calls_keep_kinds:
  assumes "runtime_ok ID rt" "typed \<Gamma> s" "respects_kinds \<Gamma> accounts data"
    and "process_instruction rt ID accounts data s = Inr s'"
  shows "typed (retyped s accounts data \<Gamma>) s'"
  by (rule call_accounts(1) [OF assms])

text \<open>C8: the counts a configuration keeps are true, as long as no account is passed for one of another kind and no configuration is
  established at an address that an existing proposal still names. In any sequence of successful calls of the program, from
  when nothing of its existed, under these two restrictions, a configuration has made exactly as many proposals as it has closed and as exist
  under its address, and those that exist carry distinct indexes between one and the number made. The program checks neither
  restriction, and without them the counts can be wrong: a buffer closed as a proposal is counted as one (C37),
  and a proposal left over from a closed configuration is counted by the one established at the same address
  (\<open>leftover_is_counted\<close>).\<close>

theorem counts_are_true:
  assumes "operates log \<Gamma> s" "\<Gamma> M = Some Configuration"
  shows "\<exists>c os ps index. ms_load (data_ptr (s M)) (acc_data (s M)) = Inr (c, os, ps) \<and> ms_wf c os ps \<and>
     finite (proposals_naming \<Gamma> s M) \<and>
     card (proposals_naming \<Gamma> s M) + unat (ms_closed_transaction_count c) = unat (ms_transaction_index c) \<and>
     inj_on index (proposals_naming \<Gamma> s M) \<and>
     (\<forall>T \<in> proposals_naming \<Gamma> s M. \<exists>h v m.
        tx_load (data_ptr (s T)) (acc_data (s T)) = Inr (h, v, m) \<and> tx_wf h v m \<and> index T = tx_index h \<and>
        1 \<le> tx_index h \<and> tx_index h \<le> ms_transaction_index c)"
proof -
  have \<Gamma>: "typed \<Gamma> s" using operates_sound [OF assms(1)] by simp
  let ?P = "proposals_naming \<Gamma> s M" and ?i = "index_of_proposal (ledger_of \<Gamma> s)"
  obtain c os ps where ms: "ms_load (data_ptr (s M)) (acc_data (s M)) = Inr (c, os, ps)" "ms_wf c os ps"
    by (rule typed_config [OF \<Gamma> assms(2)])
  have page: "finite ?P" "inj_on ?i ?P" "card ?P + unat (ms_closed_transaction_count c) = unat (ms_transaction_index c)"
    "?i ` ?P \<subseteq> {1..unat (ms_transaction_index c)}"
    using operates_page [OF assms ms(1)] by (simp_all add: page_ok_def)
  define index :: "address \<Rightarrow> u64" where "index T = of_nat (?i T)" for T
  have T: "\<exists>h v m. tx_load (data_ptr (s T)) (acc_data (s T)) = Inr (h, v, m) \<and> tx_wf h v m \<and> index T = tx_index h \<and>
        ?i T = unat (index T) \<and> 1 \<le> tx_index h \<and> tx_index h \<le> ms_transaction_index c" if named: "T \<in> ?P" for T
  proof -
    obtain h v m where h: "tx_load (data_ptr (s T)) (acc_data (s T)) = Inr (h, v, m)" "tx_wf h v m"
      "?i T = unat (tx_index h)" using proposals_namingE [OF named \<Gamma>] by metis
    moreover have "unat (tx_index h) \<in> {1..unat (ms_transaction_index c)}" using page(4) named h(3) by auto
    ultimately show ?thesis by (auto simp: index_def word_le_nat_alt)
  qed
  have "inj_on index ?P" using page(2) T unfolding inj_on_def by metis
  with page(1,3) ms T show ?thesis by blast
qed

text \<open>C7: closing a configuration strands nothing, as long as no account is passed for one of another kind and no configuration is
  established at an address that an existing proposal still names. After any sequence of successful calls of the program, from
  when nothing of its existed, under these two restrictions, when a call that respects the kinds closes a configuration,
  either no proposal under it exists, or the call executes a proposal under it and this proposal is the only one
  that exists. The program checks neither restriction: it compares two counters (C32), and without the restrictions
  the counters can agree while a proposal is open (C37).\<close>

theorem closing_strands_nothing:
  assumes op: "operates log \<Gamma> s" and kinds: "respects_kinds \<Gamma> accounts data"
    and run: "runtime_ok ID rt" "process_instruction rt ID accounts data s = Inr s'"
    and closes: "\<Gamma> M = Some Configuration" "retyped s accounts data \<Gamma> M = None"
  shows "if take 1 data = [4] then proposals_naming \<Gamma> s M = {v_address (accounts ! 2)}
     else proposals_naming \<Gamma> s M = {}"
proof -
  have \<Gamma>: "typed \<Gamma> s" using operates_sound [OF op] by simp
  obtain tag payload where data: "data = tag # payload" using run(2) by (cases data) (auto simp: process_instruction_def)
  note kinds' = respects_kindsD [OF kinds [unfolded data]]
  obtain c os ps where ms: "ms_load (data_ptr (s M)) (acc_data (s M)) = Inr (c, os, ps)" "ms_wf c os ps"
    by (rule typed_config [OF \<Gamma> closes(1)])
  let ?P = "proposals_naming \<Gamma> s M"
  have page: "finite ?P" "card ?P + unat (ms_closed_transaction_count c) = unat (ms_transaction_index c)"
    using operates_page [OF op closes(1) ms(1)] by (simp_all add: page_ok_def)
  have shape: "i < length accounts" if "config_at tag = Some i \<or> proposal_at tag = Some i \<or> buffer_at tag = Some i" for i
    using that run(2) expected_accounts unfolding data by blast
  from closes kinds'(2) [of 0] kinds'(3) [of 1] kinds'(3) [of 3] shape
  consider (execute) "tag = 4" "carries_close ID s (accounts ! 2) (drop 3 accounts)" "M = v_address (accounts ! 1)"
    | (config) "tag = 11" "take 1 payload = [6]" "M = v_address (accounts ! 1)"
    unfolding data retyped_def Let_def list.case
    by (auto simp: proposal_at_def buffer_at_def split: if_splits)
  then show ?thesis
  proof cases
    case execute
    then have exec: "process_execute rt ID accounts payload s = Inr s'"
      using run(2) by (simp add: data process_instruction_def)
    obtain executor multisig transaction r where acc: "accounts = executor # multisig # transaction # r"
      using exec by (metis vote_shape)
    note exec = exec [unfolded acc]
    have T: "\<Gamma> (v_address transaction) = Some Proposal"
      using kinds'(2) [of 2] execute(1) by (simp add: acc proposal_at_def)
    have "v_address multisig \<noteq> v_address transaction" using T closes(1) execute(3) by (auto simp: acc)
    then have "card ?P = 1"
      using closing_execution_counts [OF run(1) exec] ms execute(2,3) page(2) by (simp add: acc)
    moreover have "v_address transaction \<in> ?P"
      by (rule execute_run [OF exec]) (use T execute(3) in \<open>simp add: proposals_naming_def acc\<close>)
    ultimately have "?P = {v_address transaction}" by (auto simp: card_1_singleton_iff)
    then show ?thesis by (simp add: data execute(1) acc)
  next
    case config
    then have set: "process_set_config rt ID accounts payload s = Inr s'"
      using run(2) by (simp add: data process_instruction_def)
    then obtain authority multisig r where acc: "accounts = authority # multisig # r"
      by (auto simp: process_set_config_def split: list.splits)
    have "ms_closed_transaction_count c = ms_transaction_index c"
      using authority_closing_counts [OF set [unfolded acc]] ms(1) config(2,3) by (simp add: acc)
    with page have "?P = {}" by simp
    then show ?thesis by (simp add: data config(1))
  qed
qed

section \<open>Respecting kinds is enough for a history\<close>

lemma created_unused:
  assumes "process_instruction rt ID accounts (tag # payload) s = Inr s'"
    and "creates tag = Some k" "place k tag = Some i"
  shows "acc_data (s (v_address (accounts ! i))) = []"
  using assms
proof (cases rule: call_cases)
  case (init creator create_key multisig sp r)
  then have "data_of s multisig = []" unfolding process_init_multisig_def list.case handler_steps by blast
  with init assms(2,3) show ?thesis by (auto simp: creates_def places)
next
  case (upload creator multisig buf sp r)
  then have "data_of s buf = []" unfolding process_buffer_create_def list.case handler_steps by blast
  with upload assms(2,3) show ?thesis by (auto simp: creates_def places)
next
  case (create creator multisig transaction sp r)
  with create_transaction_init(3) [OF create(3)] assms(2,3) show ?thesis by (auto simp: creates_def places)
next
  case (from_buffer creator multisig transaction buf sp r)
  have "data_of s transaction = []" by (rule create_from_buffer_steps [OF from_buffer(3)])
  with from_buffer assms(2,3) show ?thesis by (auto simp: creates_def places)
qed (simp_all add: creates_def)

text \<open>A call that respects the kinds and takes neither the configuration nor the proposal away is regular.\<close>

lemma respects_regular:
  assumes \<Gamma>: "typed \<Gamma> s" and kinds: "respects_kinds \<Gamma> accounts data"
    and run: "process_instruction rt ID accounts data s = Inr s'"
    and M: "\<Gamma> M = Some Configuration" "retyped s accounts data \<Gamma> M = Some Configuration"
    and T: "\<Gamma> T = Some Proposal" "retyped s accounts data \<Gamma> T = Some Proposal"
  shows "regular M T accounts data s"
proof (cases data)
  case (Cons tag payload)
  note run' = run [unfolded Cons]
  have stands: "place k tag = Some i \<Longrightarrow> stands_at a (place k tag) accounts \<Longrightarrow> \<Gamma> a = Some k' \<Longrightarrow> k' = k" for k k' i a
  proof (cases "creates tag = Some k")
    case True
    assume "place k tag = Some i" "stands_at a (place k tag) accounts" "\<Gamma> a = Some k'"
    with created_unused [OF run' True] typedD(3) [OF \<Gamma>] show "k' = k" by (auto simp: stands_at_def)
  next
    case False
    assume "place k tag = Some i" "stands_at a (place k tag) accounts" "\<Gamma> a = Some k'"
    with kinds False show "k' = k" unfolding Cons respects_kinds_def stands_at_def by fastforce
  qed
  have kinds_apart: "\<not> stands_at M (proposal_at tag) accounts" "\<not> stands_at M (buffer_at tag) accounts"
    "\<not> stands_at T (config_at tag) accounts" "\<not> stands_at T (buffer_at tag) accounts"
    using stands [of Proposal _ M] stands [of Upload _ M] stands [of Configuration _ T] stands [of Upload _ T] M(1) T(1)
    by (force simp: stands_at_def split: option.splits)+
  moreover have "\<not> (tag = 6 \<and> stands_at T (proposal_at tag) accounts)"
    using T(2) by (auto simp: Cons retyped_def places)
  moreover have "\<not> (tag = 11 \<and> stands_at M (config_at tag) accounts \<and> take 1 payload = [6])"
    "\<not> (tag = 4 \<and> stands_at M (config_at tag) accounts \<and> carries_close ID s (accounts ! 2) (drop 3 accounts))"
    using M(2) by (auto simp: Cons retyped_def places)
  ultimately show ?thesis unfolding regular_def Cons list.case by blast
qed (simp add: regular_def)

section \<open>Why the address of a new configuration must not be named\<close>

text \<open>A configuration closed by its first proposal leaves that proposal behind. When a new configuration is established
  at its address and has made one proposal, closing the old one is counted as closing the new one: the new
  configuration takes itself to be clear, and can be closed, while its only proposal is open.\<close>

lemma leftover_is_counted:
  assumes own: "acc_owner (account_of s old) = pid" "acc_owner (account_of s multisig) = pid"
    and ms: "ms_load (ptr_of s multisig) (data_of s multisig) = Inr (c, os, ps)" "ms_wf c os ps"
      "ms_closed_transaction_count c = 0" "ms_transaction_index c = 1" "ms_rent_collector c = default_address"
    and old: "tx_load (ptr_of s old) (data_of s old) = Inr (h, v, m)" "tx_multisig h = v_address multisig"
      "tx_status h = status_to_u8 Executed" "tx_creator h = v_address destination"
    and new: "tx_load (ptr_of s transaction) (data_of s transaction) = Inr (h', v', m')" "tx_multisig h' = v_address multisig"
    and room: "unat (lamports (account_of s destination)) + unat (lamports (account_of s old)) < 2 ^ 64"
    and differ: "v_address old \<noteq> v_address multisig" "v_address transaction \<noteq> v_address old"
      "v_address transaction \<noteq> v_address multisig"
    and rt: "close_spec rt" "\<And>v t. \<exists>t'. rt_close rt v t = Inr t'"
  shows "\<exists>s' c'. process_close_transaction rt pid [old, multisig, destination] [] s = Inr s' \<and>
     ms_load (ptr_of s' multisig) (data_of s' multisig) = Inr (c', os, ps) \<and> all_transactions_closed c' \<and>
     tx_load (ptr_of s' transaction) (data_of s' transaction) = Inr (h', v', m')"
proof -
  have less: "ms_closed_transaction_count c < ms_transaction_index c" using ms(3,4) by simp
  have fin: "tx_status h \<in> {status_to_u8 Executed, status_to_u8 Rejected, status_to_u8 Cancelled}" using old(3) by simp
  have receiver: "v_address destination
      = (if ms_rent_collector c = default_address then tx_creator h else ms_rent_collector c)" using old(4) ms(5) by simp
  show ?thesis
    by (rule close_transaction_accepts [OF own ms(1,2) less old(1,2) fin receiver room differ(1) rt])
       (use ms(3,4) new differ(2,3) in \<open>fastforce simp: all_transactions_closed_def\<close>)
qed

end
