(* ===== verification/Authority.thy ===== *)
theory Authority
  imports Bookkeeping
begin

text \<open>
  Who may change a configuration: of the twelve instructions only an approved proposal's execution and a configuration
  action of the config authority reach a multisig's owners, permissions, threshold, time lock and authority. All the
  others leave them, and move at most the two counts of proposals.
\<close>

section \<open>Settings\<close>

text \<open>Owners, permissions and every setting stay; only the two counts of proposals may differ.\<close>

definition settings_stay :: "address \<Rightarrow> store \<Rightarrow> store \<Rightarrow> bool" where
  "settings_stay M s s' \<longleftrightarrow>
     (\<forall>c os ps. ms_load (data_ptr (s M)) (acc_data (s M)) = Inr (c, os, ps) \<longrightarrow> ms_wf c os ps \<longrightarrow>
       (\<exists>n k. ms_load (data_ptr (s' M)) (acc_data (s' M))
          = Inr (c\<lparr>ms_transaction_index := n, ms_closed_transaction_count := k\<rparr>, os, ps)))"

lemma settings_stayI:
  assumes "ms_load (data_ptr (s M)) (acc_data (s M)) = Inr (c, os, ps)"
    and "ms_load (data_ptr (s' M)) (acc_data (s' M)) = Inr (c', os, ps)"
    and "c' = c\<lparr>ms_transaction_index := ms_transaction_index c',
       ms_closed_transaction_count := ms_closed_transaction_count c'\<rparr>"
  shows "settings_stay M s s'"
proof -
  obtain n k where "c' = c\<lparr>ms_transaction_index := n, ms_closed_transaction_count := k\<rparr>" using assms(3) by blast
  with assms(1,2) show ?thesis by (simp add: settings_stay_def) blast
qed

lemma kept_settings:
  assumes "kept M s s'" shows "settings_stay M s s'"
proof -
  have "c = c\<lparr>ms_transaction_index := ms_transaction_index c, ms_closed_transaction_count := ms_closed_transaction_count c\<rparr>"
    for c :: multisig by simp
  then show ?thesis using kept_loads(1) [OF assms] unfolding settings_stay_def by metis
qed

lemma settings_then_kept:
  assumes "settings_stay M s s'" "kept M s' s''" shows "settings_stay M s s''"
  using assms kept_loads(1) [OF assms(2)] unfolding settings_stay_def by blast

lemma init_proposal_settings:
  assumes create: "create_account_spec pid rt"
      "init_proposal rt pid creator multisig transaction m vi vb bump ec eb s = Inr s'" "data_of s transaction = []"
    and ms: "ms_load (ptr_of s multisig) (data_of s multisig) = Inr (c, os, ps)" "ms_wf c os ps"
  shows "settings_stay (v_address multisig) s s'"
proof -
  obtain t :: transaction where
      "ms_load (ptr_of s' multisig) (data_of s' multisig) = Inr (c\<lparr>ms_transaction_index := tx_index t\<rparr>, os, ps)"
    by (rule created_life_inv [OF create ms])
  then show ?thesis
    by (rule settings_stayI [where M = "v_address multisig" and s = s, OF ms(1)]) simp
qed

lemma count_closure_settings:
  assumes "count_closure multisig s = Inr (s', collector)"
  shows "settings_stay (v_address multisig) s s'"
proof -
  obtain c os ps n where ms: "ms_load (ptr_of s multisig) (data_of s multisig) = Inr (c, os, ps)"
    and s': "s' = set_data multisig (ms_bytes (c\<lparr>ms_closed_transaction_count := n\<rparr>) os ps) s"
    using assms by (auto simp: count_closure_Inr)
  have "ms_load (ptr_of s' multisig) (data_of s' multisig) = Inr (c\<lparr>ms_closed_transaction_count := n\<rparr>, os, ps)"
    using ms by (simp add: s' ms_load_Inr)
  then show ?thesis
    by (rule settings_stayI [where M = "v_address multisig" and s = s, OF ms]) simp
qed

lemma create_from_buffer_settings:
  assumes spec: "create_account_spec pid rt" "close_spec rt"
    and run: "process_create_from_buffer rt pid (creator # multisig # transaction # buf # sp # r) instr s = Inr s'"
    and ms: "ms_load (ptr_of s multisig) (data_of s multisig) = Inr (c, os, ps)" "ms_wf c os ps"
    and differ: "v_address multisig \<noteq> v_address buf"
  shows "settings_stay (v_address multisig) s s'"
proof -
  obtain b :: buffer and region s1 where unused: "data_of s transaction = []"
    and init: "init_proposal rt pid creator multisig transaction region (buf_vault_index b)
       (cb_vault_bump (create_from_buffer_data_of instr)) (cb_bump (create_from_buffer_data_of instr))
       (cb_ephemeral_count (create_from_buffer_data_of instr))
       (cb_ephemeral_bumps (create_from_buffer_data_of instr)) s = Inr s1"
    and close: "close_buffer rt buf creator s1 = Inr s'"
    by (rule create_from_buffer_steps [OF run])
  from init_proposal_settings [OF spec(1) init unused ms] kept_close_buffer [OF spec(2) close differ]
  show ?thesis by (rule settings_then_kept)
qed

text \<open>What authorises a call to change the settings at \<open>M\<close>: the signature of the config authority it names, or an approved
  proposal of it, executed by an owner.\<close>

definition authorised :: "address \<Rightarrow> store \<Rightarrow> view list \<Rightarrow> bytes \<Rightarrow> bool" where
  "authorised M s accounts data \<longleftrightarrow>
     (\<exists>c os ps. ms_load (data_ptr (s M)) (acc_data (s M)) = Inr (c, os, ps) \<and>
       (case (accounts, data) of
          (signer # multisig # r, tag # payload) \<Rightarrow> v_address multisig = M \<and> v_signer signer \<and>
            (tag = 11 \<and> ms_config_authority c \<noteq> default_address \<and> v_address signer = ms_config_authority c \<or>
             tag = 4 \<and> (\<exists>transaction r' h v m. r = transaction # r' \<and>
               has_permission os ps (v_address signer) EXECUTE = Inr True \<and>
               tx_load (ptr_of s transaction) (data_of s transaction) = Inr (h, v, m) \<and>
               tx_multisig h = M \<and> tx_status h = status_to_u8 Approved))
        | _ \<Rightarrow> False))"

text \<open>Where kinds are respected, a configuration is written only by the instructions that expect it.\<close>

lemma config_written:
  assumes "respects_kinds \<Gamma> accounts (tag # payload)" "\<Gamma> M = Some Configuration" "M \<in> written accounts (tag # payload)"
    and "process_instruction rt ID accounts (tag # payload) s = Inr s'"
  shows "tag \<in> {1, 4, 6, 10, 11} \<and> M = v_address (accounts ! 1) \<and>
    (tag = 10 \<longrightarrow> M \<noteq> v_address (accounts ! 3)) \<and> (tag = 6 \<longrightarrow> M \<noteq> v_address (accounts ! 0))"
proof -
  note kinds = respects_kindsD(2,3) [OF assms(1)]
  from assms(4) show ?thesis
    by (cases rule: call_cases)
       (use assms(2,3) kinds(1) [of 0] kinds(1) [of 2] kinds(2) [of 1] kinds(2) [of 3] in
         \<open>auto simp: written_def places\<close>)
qed

lemma unauthorised_settings:
  assumes rt: "runtime_ok ID rt" and \<Gamma>: "typed \<Gamma> s" and kinds: "respects_kinds \<Gamma> accounts data"
    and run: "process_instruction rt ID accounts data s = Inr s'" and M: "\<Gamma> M = Some Configuration"
  shows "settings_stay M s s' \<or> authorised M s accounts data"
proof (cases "M \<in> written accounts data")
  case False
  with call_kept [OF rt run] typedD(1,3) [OF \<Gamma> M] kept_settings show ?thesis by blast
next
  case True
  have spec: "create_account_spec ID rt" "close_spec rt" using rt by (simp_all add: runtime_ok_def)
  obtain c os ps where ms: "ms_load (data_ptr (s M)) (acc_data (s M)) = Inr (c, os, ps)" "ms_wf c os ps"
    by (rule typed_config [OF \<Gamma> M])
  obtain tag payload where data: "data = tag # payload" using run by (cases data) (auto simp: process_instruction_def)
  note w = config_written [OF kinds [unfolded data] M True [unfolded data] run [unfolded data]]
  from run [unfolded data] show ?thesis
  proof (cases rule: call_cases)
    case (create creator multisig transaction sp r)
    with init_proposal_settings [OF spec(1) create_transaction_init(4,3) [OF create(3)]] ms w show ?thesis by simp
  next
    case (from_buffer creator multisig transaction buf sp r)
    with create_from_buffer_settings [OF spec from_buffer(3)] ms w show ?thesis by auto
  next
    case (execute executor multisig transaction r)
    have "authorised M s accounts data"
      by (rule execute_run [OF execute(3)])
         (use ms w in \<open>simp add: authorised_def data execute(1,2) tx_load_mut_eq\<close>)
    then show ?thesis ..
  next
    case (close transaction multisig destination r)
    obtain s1 collector where c: "count_closure multisig s = Inr (s1, collector)"
      and cl: "close_buffer rt transaction destination s1 = Inr s'"
      by (rule close_transaction_run [OF close(3)])
    from settings_then_kept [OF count_closure_settings [OF c] kept_close_buffer [OF spec(2) cl]] w
    show ?thesis by (auto simp: close(1,2))
  next
    case (config authority multisig r)
    then have "v_signer authority \<and> is_controlled c \<and> v_address authority = ms_config_authority c"
      using config(3) ms(1) w unfolding process_set_config_def list.case handler_steps by auto
    with ms(1) w show ?thesis by (simp add: authorised_def data config(1,2) is_controlled_def)
  qed (use w in simp_all)
qed

end
