(* ===== verification/Governance.thy ===== *)
theory Governance
  imports Authority
begin

text \<open>
  The program's promise as a whole, for calls under the restrictions of \<open>operates\<close>. Every proposal that exists under a configuration was created under it by a call of
  the log, and what the log holds since then is a history in the sense of \<open>History\<close>; so a call that changes the
  configuration is the config authority's, or was signed for by enough of the owners.
\<close>

section \<open>Where a proposal comes from\<close>

text \<open>A proposal that exists under a configuration that exists was made under it before or by the step.\<close>

lemma ledger_step_named:
  assumes "ledger_step L L'" "l_proposals L' T = Some (M, i)" "l_configs L' M \<noteq> None"
  shows "l_proposals L T = Some (M, i) \<and> l_configs L M \<noteq> None \<or> l_proposals L T = None"
  using assms by cases (auto simp: open_of_def split: if_splits)

lemma named_entry:
  "T \<in> proposals_naming \<Gamma> s M \<longleftrightarrow> (\<exists>i. proposal_entry \<Gamma> s T = Some (M, i))"
  by (auto simp: proposals_naming_def proposal_entry_def split: sum.splits if_splits)

lemma typed_entries:
  assumes "typed \<Gamma> s"
  shows "config_entry \<Gamma> s M \<noteq> None \<longleftrightarrow> \<Gamma> M = Some Configuration"
    and "proposal_entry \<Gamma> s T \<noteq> None \<longleftrightarrow> \<Gamma> T = Some Proposal"
proof -
  show "config_entry \<Gamma> s M \<noteq> None \<longleftrightarrow> \<Gamma> M = Some Configuration"
  proof (cases "\<Gamma> M = Some Configuration")
    case True
    show ?thesis by (rule typed_config [OF assms True]) (simp add: True)
  qed simp
  show "proposal_entry \<Gamma> s T \<noteq> None \<longleftrightarrow> \<Gamma> T = Some Proposal"
  proof (cases "\<Gamma> T = Some Proposal")
    case True
    show ?thesis by (rule typed_proposal [OF assms True]) (simp add: True)
  qed simp
qed

text \<open>Only the two instructions that create a proposal give an account that kind.\<close>

lemma retyped_proposal:
  assumes "retyped s accounts (tag # payload) \<Gamma> T = Some Proposal" "\<Gamma> T \<noteq> Some Proposal"
  shows "(tag = 1 \<or> tag = 10) \<and> T = v_address (accounts ! 2)"
  using assms by (auto simp: retyped_def Let_def split: if_splits)

section \<open>The call that created a proposal\<close>

lemma creation_regular:
  assumes \<Gamma>: "typed \<Gamma> s" and kinds: "respects_kinds \<Gamma> accounts (tag # payload)"
    and run: "process_instruction rt ID accounts (tag # payload) s = Inr s'" and tag: "tag = 1 \<or> tag = 10"
  obtains creator multisig transaction remaining where "accounts = creator # multisig # transaction # remaining"
    "\<Gamma> (v_address multisig) = Some Configuration"
    "regular (v_address multisig) (v_address transaction) accounts (tag # payload) s"
proof -
  note kinds' = respects_kindsD [OF kinds]
  have unused: "acc_data (s (v_address (accounts ! 2))) = []"
    using created_unused [OF run, of Proposal 2] tag by (auto simp: creates_def places)
  from run have "(\<exists>creator multisig transaction sp r. accounts = creator # multisig # transaction # sp # r)"
    by (cases rule: call_cases) (use tag in auto)
  then obtain creator multisig transaction sp r where acc: "accounts = creator # multisig # transaction # sp # r" by blast
  have M: "\<Gamma> (v_address multisig) = Some Configuration" using kinds'(1) [of 1] tag by (auto simp: acc places)
  have B: "tag = 10 \<Longrightarrow> \<Gamma> (v_address sp) = Some Upload" using kinds'(3) [of 3] by (simp add: acc places)
  have "v_address multisig \<noteq> v_address transaction" "tag = 10 \<Longrightarrow> v_address transaction \<noteq> v_address sp"
    "tag = 10 \<Longrightarrow> v_address multisig \<noteq> v_address sp"
    using unused typedD(3) [OF \<Gamma> M] typedD(3) [OF \<Gamma> B] M B by (auto simp: acc)
  then have "regular (v_address multisig) (v_address transaction) accounts (tag # payload) s"
    using tag by (auto simp: places acc)
  with acc M that show thesis by blast
qed

text \<open>What the log says of the proposal at \<open>T\<close> under the configuration at \<open>M\<close>: after some calls it was created, under the
  configuration \<open>cfg\<close>, and everything since then is a history of the two.\<close>

definition proposed_under :: "address \<Rightarrow> address \<Rightarrow> (view list \<times> bytes) list \<Rightarrow> store \<Rightarrow>
    (view list \<times> bytes) list \<Rightarrow> (multisig \<times> address list \<times> bytes) \<Rightarrow> (view list \<times> bytes) list \<Rightarrow> bool" where
  "proposed_under M T log s before cfg calls \<longleftrightarrow>
     (\<exists>rt creator multisig transaction remaining tag payload \<Gamma>b sb s0. case cfg of (c, os, ps) \<Rightarrow>
        log = before @ (creator # multisig # transaction # remaining, tag # payload) # calls \<and>
        operates before \<Gamma>b sb \<and> \<Gamma>b M = Some Configuration \<and>
        v_address multisig = M \<and> v_address transaction = T \<and> runtime_ok ID rt \<and> (tag = 1 \<or> tag = 10) \<and>
        process_instruction rt ID (creator # multisig # transaction # remaining) (tag # payload) sb = Inr s0 \<and>
        regular M T (creator # multisig # transaction # remaining) (tag # payload) sb \<and>
        ms_load (data_ptr (sb M)) (acc_data (sb M)) = Inr (c, os, ps) \<and> ms_wf c os ps \<and> history M T calls s0 s)"

lemma proposed_history:
  assumes "proposed_under M T log s before cfg calls"
    and "\<And>s0. history M T calls s0 s \<Longrightarrow> history M T (calls @ later) s0 s'"
  shows "proposed_under M T (log @ later) s' before cfg (calls @ later)"
  using assms unfolding proposed_under_def by (fastforce split: prod.splits)

lemma newly_proposed:
  assumes op: "operates log \<Gamma> s" and rt: "runtime_ok ID rt" and kinds: "respects_kinds \<Gamma> accounts data"
    and run: "process_instruction rt ID accounts data s = Inr s'"
    and T: "\<Gamma> T \<noteq> Some Proposal" "T \<in> proposals_naming (retyped s accounts data \<Gamma>) s' M"
  shows "\<exists>cfg. proposed_under M T (log @ [(accounts, data)]) s' log cfg []"
proof -
  have \<Gamma>: "typed \<Gamma> s" using operates_sound [OF op] by simp
  obtain tag payload where data: "data = tag # payload" using run by (cases data) (auto simp: process_instruction_def)
  have "retyped s accounts (tag # payload) \<Gamma> T = Some Proposal" using T(2) by (simp add: proposals_naming_def data)
  from retyped_proposal [OF this T(1)] have new: "tag = 1 \<or> tag = 10" "T = v_address (accounts ! 2)" by blast+
  obtain creator multisig transaction remaining where acc: "accounts = creator # multisig # transaction # remaining"
    and M: "\<Gamma> (v_address multisig) = Some Configuration"
    and reg: "regular (v_address multisig) (v_address transaction) accounts (tag # payload) s"
    by (rule creation_regular [OF \<Gamma> kinds [unfolded data] run [unfolded data] new(1)])
  obtain c os ps where ms: "ms_load (ptr_of s multisig) (data_of s multisig) = Inr (c, os, ps)" "ms_wf c os ps"
    by (rule typed_config [OF \<Gamma> M])
  have "standing ID (v_address multisig) (v_address transaction) s'"
    by (rule created_standing [OF rt run [unfolded data acc] new(1) reg [unfolded acc] ms])
  then have "v_address multisig = M" using T(2) new(2) by (auto simp: standing_def proposals_naming_def acc)
  then show ?thesis
    unfolding proposed_under_def using op M rt new run reg ms history.start
    by (intro exI [of _ "(c, os, ps)"]) (fastforce simp: data acc)
qed

text \<open>Every proposal that exists under a configuration that exists was so created.\<close>

lemma operates_proposed:
  assumes "operates log \<Gamma> s" "T \<in> proposals_naming \<Gamma> s M" "\<Gamma> M = Some Configuration"
  shows "\<exists>before cfg calls. proposed_under M T log s before cfg calls"
  using assms
proof (induction rule: operates.induct)
  case (start s)
  then show ?case by simp
next
  case (call log \<Gamma> s rt accounts data s')
  let ?\<Gamma> = "retyped s accounts data \<Gamma>"
  have \<Gamma>: "typed \<Gamma> s" using operates_sound [OF call.hyps(1)] by simp
  have \<Gamma>': "typed ?\<Gamma> s'" and step: "ledger_step (ledger_of \<Gamma> s) (ledger_of ?\<Gamma> s')"
    using call_accounts [OF call.hyps(2) \<Gamma> call.hyps(3,5)] call.hyps(4) by blast+
  obtain i where i: "proposal_entry ?\<Gamma> s' T = Some (M, i)" using call.prems(1) named_entry by blast
  have "config_entry ?\<Gamma> s' M \<noteq> None" using typed_entries(1) [OF \<Gamma>'] call.prems(2) by blast
  then consider (old) "proposal_entry \<Gamma> s T = Some (M, i)" "config_entry \<Gamma> s M \<noteq> None" | (new) "proposal_entry \<Gamma> s T = None"
    using ledger_step_named [OF step, of T M i] i by auto
  then show ?case
  proof cases
    case old
    then have here: "T \<in> proposals_naming \<Gamma> s M" "\<Gamma> M = Some Configuration" "\<Gamma> T = Some Proposal"
      using named_entry typed_entries [OF \<Gamma>] by blast+
    obtain before cfg calls where p: "proposed_under M T log s before cfg calls" using call.IH here(1,2) by blast
    have "?\<Gamma> T = Some Proposal" using call.prems(1) by (simp add: proposals_naming_def)
    from respects_regular [OF \<Gamma> call.hyps(3,5) here(2) call.prems(2) here(3) this]
    have "regular M T accounts data s" .
    from proposed_history [OF p history.call [OF _ call.hyps(2,5) this]] show ?thesis by blast
  next
    case new
    then have "\<Gamma> T \<noteq> Some Proposal" using typed_entries(2) [OF \<Gamma>] by blast
    from newly_proposed [OF call.hyps(1-3,5) this call.prems(1)] show ?thesis by blast
  qed
next
  case (outside log \<Gamma> s s')
  have "typed \<Gamma> s" using operates_sound [OF outside.hyps(1)] by simp
  from foreign_accounts(2) [OF outside.hyps(2) this]
  have "T \<in> proposals_naming \<Gamma> s M" using outside.prems(1) by (metis open_of_ledger_of)
  then obtain before cfg calls where p: "proposed_under M T log s before cfg calls" using outside.IH outside.prems(2) by blast
  have "proposed_under M T (log @ []) s' before cfg (calls @ [])"
    using history.outside [OF _ outside.hyps(2)] by (intro proposed_history [OF p]) simp
  then show ?case unfolding append_Nil2 by blast
qed


section \<open>Property\<close>

lemma authorised_cases:
  assumes "authorised M s accounts data" "ms_load (data_ptr (s M)) (acc_data (s M)) = Inr (c, os, ps)"
  obtains (authority) signer multisig r payload where "accounts = signer # multisig # r" "data = 11 # payload"
      "v_address multisig = M" "v_signer signer" "v_address signer = ms_config_authority c" "ms_config_authority c \<noteq> default_address"
  | (proposal) executor multisig transaction r payload h v m where "accounts = executor # multisig # transaction # r"
      "data = 4 # payload" "v_address multisig = M"
      "tx_load (ptr_of s transaction) (data_of s transaction) = Inr (h, v, m)" "tx_multisig h = M"
  using assms by (auto simp: authorised_def split: list.splits)

text \<open>C1: nobody changes a configuration alone. Take the program's life from when nothing of its existed, its calls in
  whatever order, under two restrictions that the program itself does not check: every call passes, where an instruction
  expects an existing account of some kind, an account of this kind (C37 shows what happens otherwise), and no configuration
  is established at an address that an existing proposal still names (\<open>unnamed\<close>, see \<open>Bookkeeping\<close>). Take then a call, restricted in the same way as to kinds,
  that leaves a configuration with other owners, permissions or settings,
  or closes it. Then either the call is a configuration action signed by the config authority this
  configuration names, or it executes a proposal that was created under it at an earlier time and,
  since then, approved by enough: owners who could vote when it was created, at least threshold of them as
  the threshold then was, each of whom signed an approval of exactly this proposal that the log holds.\<close>

theorem changes_need_signatures:
  assumes op: "operates log \<Gamma> s" "\<Gamma> M = Some Configuration"
    and load: "ms_load (data_ptr (s M)) (acc_data (s M)) = Inr (c, os, ps)"
    and run: "runtime_ok ID rt" "respects_kinds \<Gamma> accounts data" "process_instruction rt ID accounts data s = Inr s'"
    and changed: "\<nexists>n k. ms_load (data_ptr (s' M)) (acc_data (s' M))
       = Inr (c\<lparr>ms_transaction_index := n, ms_closed_transaction_count := k\<rparr>, os, ps)"
  shows "(\<exists>signer multisig r payload. accounts = signer # multisig # r \<and> data = 11 # payload \<and> v_address multisig = M \<and>
      v_signer signer \<and> v_address signer = ms_config_authority c \<and> ms_config_authority c \<noteq> default_address) \<or>
    (\<exists>executor multisig transaction r payload before creator multisig0 transaction0 r0 tag payload0 calls \<Gamma>0 s0 c0 os0 ps0 A.
      accounts = executor # multisig # transaction # r \<and> data = 4 # payload \<and> v_address multisig = M \<and>
      log = before @ (creator # multisig0 # transaction0 # r0, tag # payload0) # calls \<and> (tag = 1 \<or> tag = 10) \<and>
      v_address multisig0 = M \<and> v_address transaction0 = v_address transaction \<and>
      operates before \<Gamma>0 s0 \<and> \<Gamma>0 M = Some Configuration \<and>
      ms_load (data_ptr (s0 M)) (acc_data (s0 M)) = Inr (c0, os0, ps0) \<and>
      A \<subseteq> voter_set os0 ps0 \<and> unat (ms_threshold c0) \<le> card A \<and>
      (\<forall>a \<in> A. \<exists>signer w x rest p. (signer # w # x # rest, 2 # p) \<in> set calls \<and> v_signer signer \<and>
         v_address signer = a \<and> v_address w = M \<and> v_address x = v_address transaction))"
proof -
  have \<Gamma>: "typed \<Gamma> s" using operates_sound [OF op(1)] by simp
  have "authorised M s accounts data"
    using unauthorised_settings [OF run(1) \<Gamma> run(2,3) op(2)] changed load typed_config [OF \<Gamma> op(2)]
    by (fastforce simp: settings_stay_def)
  then show ?thesis using load
  proof (cases rule: authorised_cases)
    case (authority signer multisig r payload)
    then show ?thesis by blast
  next
    case (proposal executor multisig transaction r payload h v m)
    let ?T = "v_address transaction"
    have "\<Gamma> ?T = Some Proposal"
      using respects_kindsD(2) [OF run(2) [unfolded proposal(2)], of 2] by (simp add: proposal(1) places)
    then have "?T \<in> proposals_naming \<Gamma> s M" using proposal(4,5) by (simp add: proposals_naming_def)
    then obtain before c0 os0 ps0 calls where "proposed_under M ?T log s before (c0, os0, ps0) calls"
      using operates_proposed [OF op(1) _ op(2)] by (metis prod_cases3)
    then obtain rt0 creator multisig0 transaction0 remaining tag payload0 \<Gamma>b sb s0 where
        log: "log = before @ (creator # multisig0 # transaction0 # remaining, tag # payload0) # calls"
      and b: "operates before \<Gamma>b sb" "\<Gamma>b M = Some Configuration"
      and at: "v_address multisig0 = M" "v_address transaction0 = ?T"
      and create: "runtime_ok ID rt0" "process_instruction rt0 ID (creator # multisig0 # transaction0 # remaining)
          (tag # payload0) sb = Inr s0" "tag = 1 \<or> tag = 10"
        "regular M ?T (creator # multisig0 # transaction0 # remaining) (tag # payload0) sb"
      and ms: "ms_load (data_ptr (sb M)) (acc_data (sb M)) = Inr (c0, os0, ps0)" "ms_wf c0 os0 ps0"
      and h: "history M ?T calls s0 s"
      unfolding proposed_under_def prod.case by blast
    from executed_signed [OF create(1-3) create(4) [folded at] ms [folded at(1)] h [folded at]
        run(3) [unfolded proposal(1,2)] at(2) [symmetric]]
    obtain A where A: "A \<subseteq> voter_set os0 ps0" "unat (ms_threshold c0) \<le> card A"
      "\<forall>a \<in> A. \<exists>signer w x rest p. (signer # w # x # rest, 2 # p) \<in> set calls \<and> v_signer signer \<and>
         v_address signer = a \<and> v_address w = M \<and> v_address x = ?T"
      unfolding at by (elim exE conjE) (rule that)
    show ?thesis
      by (rule disjI2, (rule exI)+, intro conjI) (rule proposal(1-3) log create(3) at b ms(1) A)+
  qed
qed

end
