(* ===== verification/Lamports.thy ===== *)
theory Lamports
  imports Frames
begin

text \<open>
  Lamports are moved, never made: what the program itself debits it credits, whatever mix of its own moves (closing an
  account, settling rent) and calls into other programs an instruction makes. The runtime fails an instruction that
  changes the sum over the accounts, so an instruction that reaches its return value with another sum could never
  take effect.
\<close>

section \<open>Moving lamports\<close>

text \<open>Outside some finite set of accounts nothing changes, and the sum over it is the same.\<close>

definition conserves :: "store \<Rightarrow> store \<Rightarrow> bool" where
  "conserves s s' \<longleftrightarrow> (\<exists>A. finite A \<and> (\<forall>a. a \<notin> A \<longrightarrow> lamports (s' a) = lamports (s a)) \<and>
     (\<Sum>a\<in>A. unat (lamports (s' a))) = (\<Sum>a\<in>A. unat (lamports (s a))))"

lemma conservesI:
  assumes "finite A" "\<And>a. a \<notin> A \<Longrightarrow> lamports (s' a) = lamports (s a)"
    and "(\<Sum>a\<in>A. unat (lamports (s' a))) = (\<Sum>a\<in>A. unat (lamports (s a)))"
  shows "conserves s s'"
  using assms unfolding conserves_def by blast

lemma conserves_same: "(\<And>a. lamports (s' a) = lamports (s a)) \<Longrightarrow> conserves s s'"
  by (rule conservesI [of "{}"]) simp_all

lemma conserves_set_data [simp]: "conserves s (set_data v d s)"
  by (rule conserves_same) (simp add: set_data_def)

text \<open>The sum does not depend on the set, as long as it holds every account that changed.\<close>

lemma conserves_over:
  assumes "conserves s s'" "finite B" "\<And>a. a \<notin> B \<Longrightarrow> lamports (s' a) = lamports (s a)"
  shows "(\<Sum>a\<in>B. unat (lamports (s' a))) = (\<Sum>a\<in>B. unat (lamports (s a)))"
proof -
  obtain A where A: "finite A" "\<And>a. a \<notin> A \<Longrightarrow> lamports (s' a) = lamports (s a)"
    "(\<Sum>a\<in>A. unat (lamports (s' a))) = (\<Sum>a\<in>A. unat (lamports (s a)))"
    using assms(1) unfolding conserves_def by blast
  have split: "(\<Sum>a\<in>C. f a) = (\<Sum>a\<in>C \<inter> D. f a) + (\<Sum>a\<in>C - D. f a)" if "finite C" for C D and f :: "address \<Rightarrow> nat"
    using that by (metis Diff_Diff_Int Diff_subset add.commute sum.subset_diff)
  have "(\<Sum>a\<in>A - B. unat (lamports (s' a))) = (\<Sum>a\<in>A - B. unat (lamports (s a)))"
    "(\<Sum>a\<in>B - A. unat (lamports (s' a))) = (\<Sum>a\<in>B - A. unat (lamports (s a)))"
    using A(2) assms(3) by (auto intro!: sum.cong)
  with A(3) split [OF A(1), of _ B] split [OF assms(2), of _ A] show ?thesis by (simp add: Int_commute)
qed

lemma conserves_trans [trans]:
  assumes "conserves s s'" "conserves s' s''" shows "conserves s s''"
proof -
  obtain A B where A: "finite A" "\<And>a. a \<notin> A \<Longrightarrow> lamports (s' a) = lamports (s a)"
    and B: "finite B" "\<And>a. a \<notin> B \<Longrightarrow> lamports (s'' a) = lamports (s' a)"
    using assms unfolding conserves_def by metis
  show ?thesis
  proof (rule conservesI [of "A \<union> B"])
    show "(\<Sum>a\<in>A \<union> B. unat (lamports (s'' a))) = (\<Sum>a\<in>A \<union> B. unat (lamports (s a)))"
      using conserves_over [OF assms(1), of "A \<union> B"] conserves_over [OF assms(2), of "A \<union> B"] A B by simp
  qed (use A B in auto)
qed

text \<open>Two accounts between which lamports move.\<close>

lemma conserves_move:
  assumes "a \<noteq> b" "\<And>x. x \<noteq> a \<Longrightarrow> x \<noteq> b \<Longrightarrow> lamports (s' x) = lamports (s x)"
    and "unat (lamports (s' a)) + unat (lamports (s' b)) = unat (lamports (s a)) + unat (lamports (s b))"
  shows "conserves s s'"
  by (rule conservesI [of "{a, b}"]) (use assms in auto)

section \<open>What the program relies on\<close>

text \<open>Calls into other programs create and destroy no lamports: the runtime checks the sum after each.\<close>

definition calls_balanced :: "runtime \<Rightarrow> bool" where
  "calls_balanced rt \<longleftrightarrow>
     (\<forall>ix views signers s s'. rt_invoke rt ix views signers s = Inr s' \<longrightarrow> conserves s s') \<and>
     (\<forall>from to n s s'. rt_transfer rt from to n s = Inr s' \<longrightarrow> conserves s s') \<and>
     (\<forall>from to space lam own seeds s s'.
        rt_create_account rt from to space lam own seeds s = Inr s' \<longrightarrow> conserves s s')"

lemma calls_balancedD:
  assumes "calls_balanced rt"
  shows "rt_invoke rt ix views signers s = Inr s' \<Longrightarrow> conserves s s'"
    and "rt_transfer rt from to n s = Inr s' \<Longrightarrow> conserves s s'"
    and "rt_create_account rt from to space lam own seeds s = Inr s' \<Longrightarrow> conserves s s'"
  using assms unfolding calls_balanced_def by blast+

section \<open>The steps\<close>

lemma close_buffer_conserves:
  assumes "close_spec rt" "close_buffer rt buffer destination s = Inr s'" "v_address buffer \<noteq> v_address destination"
  shows "conserves s s'"
proof (rule conserves_move [of "v_address destination" "v_address buffer"])
  note effect = close_buffer_effect [OF assms]
  show "v_address destination \<noteq> v_address buffer" using assms(3) by simp
  show "lamports (s' x) = lamports (s x)" if "x \<noteq> v_address destination" "x \<noteq> v_address buffer" for x
    using effect(6) [of x] that by simp
  show "unat (lamports (account_of s' destination)) + unat (lamports (account_of s' buffer))
      = unat (lamports (account_of s destination)) + unat (lamports (account_of s buffer))"
    using effect(1,2) by simp
qed

lemma settle_rent_lamports:
  assumes "calls_balanced rt" "settle_rent rt multisig payer n s = Inr s'" "v_address payer \<noteq> v_address multisig"
  shows "conserves s s'"
proof -
  from assms(2) obtain rent where r: "rt_rent rt = Inr rent" by (auto simp: settle_rent_def and_then_Inr)
  let ?held = "lamports (account_of s multisig)"
  consider (short) "?held < rent n" | (equal) "rent n = ?held" | (over) "rent n < ?held" by fastforce
  then show ?thesis
  proof cases
    case short
    then have "rt_transfer rt payer multisig (rent n - ?held) s = Inr s'"
      using assms(2) r by (simp add: settle_rent_def)
    with calls_balancedD(2) [OF assms(1)] show ?thesis .
  next
    case equal
    then show ?thesis using assms(2) r by (simp add: settle_rent_def conserves_same)
  next
    case over
    then have "\<not> ?held < rent n" by simp
    then obtain credited where c: "checked_add (lamports (account_of s payer)) (?held - rent n) = Some credited"
      and s': "s' = set_lamports multisig (rent n) (set_lamports payer credited s)"
      using assms(2) r over by (auto simp: settle_rent_def Let_def and_then_Inr ok_or_Inr)
    have "unat credited = unat (lamports (account_of s payer)) + unat (?held - rent n)"
      by (rule checked_add_Some [OF c])
    moreover have "unat (?held - rent n) + unat (rent n) = unat ?held"
      using over by (simp add: unat_sub word_less_nat_alt word_le_nat_alt)
    ultimately show ?thesis
      using assms(3) by (intro conserves_move [of "v_address payer" "v_address multisig"]) (auto simp: s' set_lamports_def)
  qed
qed

lemma config_action_conserves:
  assumes bal: "calls_balanced rt" and spec: "resize_spec rt" "close_spec rt"
    and run: "apply_config_action rt multisig payer instr via s = Inr s'"
    and differ: "v_address payer \<noteq> v_address multisig"
  shows "conserves s s'"
proof -
  have resized: "conserves t t'" if "rt_resize rt multisig n t = Inr t'" for n t t'
  proof -
    have "t' = set_data multisig (take n (data_of t multisig) @ replicate (n - length (data_of t multisig)) 0) t"
      using that spec(1) unfolding resize_spec_def by blast
    then show ?thesis by simp
  qed
  have settled: "conserves t t''" if "rt_resize rt multisig n t = Inr t'" "settle_rent rt multisig payer k t' = Inr t''"
    for n k t t' t''
    using resized [OF that(1)] settle_rent_lamports [OF bal that(2) differ] by (rule conserves_trans)
  from run show ?thesis
  proof (cases rule: config_action_cases)
    case (close payload)
    from close_buffer_conserves [OF spec(2) close_multisig_run [OF close(2)]] differ show ?thesis by simp
  next
    case (add payload)
    then obtain c os ps where load: "ms_load (ptr_of s multisig) (data_of s multisig) = Inr (c, os, ps)"
      by (auto simp: add_owner_def and_then_Inr)
    show ?thesis
      by (rule add_owner_steps [OF load add(2)]) (use settled conserves_trans conserves_set_data in blast)
  next
    case (remove payload)
    then obtain n d s2 where "rt_resize rt multisig n (set_data multisig d s) = Inr s2"
      "settle_rent rt multisig payer n s2 = Inr s'"
      unfolding remove_owner_def Let_def by (auto simp: and_then_Inr if_fail_eq_Inr split: if_splits)
    from settled [OF this] conserves_set_data conserves_trans show ?thesis by blast
  next
    case edit
    then show ?thesis by simp
  qed
qed

lemma execute_conserves:
  assumes bal: "calls_balanced rt" and spec: "resize_spec rt" "close_spec rt"
    and run: "process_execute rt pid (executor # multisig # transaction # remaining) instr s = Inr s'"
    and differ: "v_address executor \<noteq> v_address multisig"
  shows "conserves s s'"
proof -
  obtain s1 d m signers ixs where s1: "s1 = set_data transaction d s"
    and loop: "fold_result (execute_instruction rt pid executor multisig remaining m signers) ixs s1 = Inr s'"
    by (rule execute_run [OF run])
  show ?thesis
  proof (rule fold_result_invariant [OF loop, of "conserves s"])
    show "conserves s s1" by (simp add: s1)
    show "conserves s u" if "x \<in> set ixs" "conserves s t"
      "execute_instruction rt pid executor multisig remaining m signers x t = Inr u" for x t u
    proof -
      from that(3) consider (config) "apply_config_action rt multisig executor (ci_data x) True t = Inr u"
        | (cpi) ix vs where "rt_invoke rt ix vs signers t = Inr u"
        by (auto simp: execute_instruction_def Let_def and_then_Inr if_fail_eq_Inr split: if_splits)
      then have "conserves t u"
        by cases (use config_action_conserves [OF bal spec _ differ] calls_balancedD(1) [OF bal] in blast)+
      with that(2) show ?thesis by (rule conserves_trans)
    qed
  qed
qed

section \<open>The handlers\<close>

lemma create_then_write:
  assumes "calls_balanced rt" "rt_create_account rt giver taker space lam own seeds s = Inr s1"
  shows "conserves s (set_data v d s1)"
  using calls_balancedD(3) [OF assms] conserves_trans conserves_set_data by blast

lemma init_multisig_conserves:
  assumes "calls_balanced rt"
    and "process_init_multisig rt pid (creator # create_key # multisig # sp # remaining) instr s = Inr s'"
  shows "conserves s s'"
proof -
  from assms(2) obtain space rent seeds s1 d where
    "rt_create_account rt creator multisig space rent pid seeds s = Inr s1" "s' = set_data multisig d s1"
    unfolding process_init_multisig_def list.case handler_steps unit_eq by blast
  with create_then_write [OF assms(1)] show ?thesis by simp
qed

lemma buffer_create_conserves:
  assumes "calls_balanced rt"
    and "process_buffer_create rt pid (creator # multisig # buf # sp # remaining) instr s = Inr s'"
  shows "conserves s s'"
proof -
  from assms(2) obtain space rent seeds s1 d where
    "rt_create_account rt creator buf space rent pid seeds s = Inr s1" "s' = set_data buf d s1"
    unfolding process_buffer_create_def list.case handler_steps unit_eq by blast
  with create_then_write [OF assms(1)] show ?thesis by simp
qed

lemma init_proposal_conserves:
  assumes "calls_balanced rt"
    and run: "init_proposal rt pid creator multisig transaction message vi vb bump ec eb s = Inr s'"
  shows "conserves s s'"
proof (rule init_proposal_run [OF run])
  fix h :: multisig and os ps i index m minimum_balance s1
  assume create: "rt_create_account rt creator transaction
       (of_nat (tx_space (unat (ms_owners_count h)) (length message)))
       (minimum_balance (tx_space (unat (ms_owners_count h)) (length message))) pid
       [TRANSACTION_SEED, as_array (v_address multisig), to_le_bytes 8 index, [bump]]
       (set_data multisig (ms_bytes (h\<lparr>ms_transaction_index := index\<rparr>) os ps) s) = Inr s1"
    and s': "s' = set_data transaction (tx_bytes (fresh_transaction (v_address multisig) (v_address creator) index
       (ms_owners_count h) message vi vb bump ec eb) (clear_votes (ms_owners_count h)) message) s1"
  have "conserves s (set_data multisig (ms_bytes (h\<lparr>ms_transaction_index := index\<rparr>) os ps) s)" by simp
  also from create_then_write [OF assms(1) create] have "conserves \<dots> s'" by (simp add: s')
  finally show ?thesis .
qed

lemma create_from_buffer_conserves:
  assumes "calls_balanced rt" "close_spec rt"
    and run: "process_create_from_buffer rt pid (creator # multisig # transaction # buf # sp # remaining) instr s = Inr s'"
    and "v_address buf \<noteq> v_address creator"
  shows "conserves s s'"
proof -
  obtain b :: buffer and region s1 where init: "init_proposal rt pid creator multisig transaction region
       (buf_vault_index b) (cb_vault_bump (create_from_buffer_data_of instr))
       (cb_bump (create_from_buffer_data_of instr)) (cb_ephemeral_count (create_from_buffer_data_of instr))
       (cb_ephemeral_bumps (create_from_buffer_data_of instr)) s = Inr s1"
    and close: "close_buffer rt buf creator s1 = Inr s'"
    by (rule create_from_buffer_steps [OF run])
  from init_proposal_conserves [OF assms(1) init] have "conserves s s1" .
  also from close_buffer_conserves [OF assms(2) close assms(4)] have "conserves s1 s'" .
  finally show ?thesis .
qed

lemma close_transaction_conserves:
  assumes "close_spec rt"
    and run: "process_close_transaction rt pid (transaction # multisig # destination # remaining) instr s = Inr s'"
    and "v_address transaction \<noteq> v_address destination"
  shows "conserves s s'"
proof -
  obtain s1 collector where "count_closure multisig s = Inr (s1, collector)"
    and close: "close_buffer rt transaction destination s1 = Inr s'"
    by (rule close_transaction_run [OF run])
  then have "conserves s s1" by (auto simp: count_closure_Inr)
  also from close_buffer_conserves [OF assms(1) close assms(3)] have "conserves s1 s'" .
  finally show ?thesis .
qed

section \<open>Every call\<close>

text \<open>The account that gets lamports is not the one that gives them: the payer of a configuration action is not
  the multisig, and a closed account does not pay its rent out to itself.\<close>

definition receiver_differs :: "view list \<Rightarrow> bytes \<Rightarrow> bool" where
  "receiver_differs accounts data \<longleftrightarrow>
     (case (accounts, data) of
        (v0 # v1 # r, tag # payload) \<Rightarrow>
          (tag = 4 \<or> tag = 11 \<or> tag = 9 \<longrightarrow> v_address v0 \<noteq> v_address v1) \<and>
          (tag = 6 \<longrightarrow> (case r of v2 # _ \<Rightarrow> v_address v0 \<noteq> v_address v2 | _ \<Rightarrow> True)) \<and>
          (tag = 10 \<longrightarrow> (case r of _ # v3 # _ \<Rightarrow> v_address v0 \<noteq> v_address v3 | _ \<Rightarrow> True))
      | _ \<Rightarrow> True)"

section \<open>A runtime that keeps the promise\<close>

lemma sim_runtime_balanced: "calls_balanced (sim_runtime now)"
  unfolding calls_balanced_def
proof (intro conjI allI impI)
  fix giver taker :: view and n :: u64 and s s' :: store
  assume "rt_transfer (sim_runtime now) giver taker n s = Inr s'"
  then have le: "n \<le> lamports (account_of s giver)"
    and room: "n \<le> - 1 - lamports (account_of (set_lamports giver (lamports (account_of s giver) - n) s) taker)"
    and s': "s' = set_lamports taker (lamports (account_of (set_lamports giver (lamports (account_of s giver) - n) s) taker) + n)
        (set_lamports giver (lamports (account_of s giver) - n) s)"
    by (simp_all add: sim_runtime_def sim_transfer_def Let_def split: if_splits)
  show "conserves s s'"
  proof (cases "v_address giver = v_address taker")
    case True
    then show ?thesis by (intro conserves_same) (simp add: s')
  next
    case False
    let ?b = "lamports (account_of s taker)"
    have "unat (- 1 - ?b) = unat (- 1 :: u64) - unat ?b" by (rule unat_sub) simp
    moreover have "unat ?b \<le> unat (- 1 :: u64)" by (simp add: word_le_nat_alt [symmetric])
    ultimately have "unat ?b + unat n \<le> unat (- 1 :: u64)" using room False by (simp add: word_le_nat_alt)
    then have "unat (?b + n) = unat ?b + unat n" by (intro unat_add_lem [THEN iffD1]) (use unsigned_less [where 'a = nat and w = "- 1 :: u64"] in simp)
    with le False show ?thesis
      by (intro conserves_move [of "v_address giver" "v_address taker"]) (auto simp: s' unat_sub word_le_nat_alt)
  qed
next
  fix giver taker :: view and space lam :: u64 and own seeds and s s' :: store
  assume "rt_create_account (sim_runtime now) giver taker space lam own seeds s = Inr s'"
  then have "lam \<le> lamports (account_of s giver)" "v_address giver \<noteq> v_address taker" "lamports (account_of s taker) = 0"
    and s': "s' = s(v_address giver := (account_of s giver)\<lparr>lamports := lamports (account_of s giver) - lam\<rparr>,
               v_address taker := (account_of s taker)\<lparr>lamports := lam,
                   acc_data := replicate (unat space) 0, acc_owner := own\<rparr>)"
    by (auto simp: sim_runtime_def sim_create_def split: if_splits)
  then show "conserves s s'"
    by (intro conserves_move [of "v_address giver" "v_address taker"]) (auto simp: s' unat_sub word_le_nat_alt)
qed (auto simp: sim_runtime_def intro: conserves_same)

section \<open>Property\<close>

text \<open>C12: no instruction makes or destroys lamports: whatever it does, the lamports of all accounts add up to
  what they added up to before. The account that pays out must not be the one that receives.\<close>

theorem lamports_conserved:
  assumes rt: "runtime_ok ID rt" "calls_balanced rt"
    and run: "process_instruction rt ID accounts data s = Inr s'"
    and differ: "receiver_differs accounts data"
  shows "conserves s s'"
proof -
  have spec: "resize_spec rt" "close_spec rt" using rt by (simp_all add: runtime_ok_def)
  obtain tag payload where data: "data = tag # payload" using run by (cases data) (auto simp: process_instruction_def)
  note d = differ [unfolded receiver_differs_def data]
  from run [unfolded data] show ?thesis
  proof (cases rule: call_cases)
    case init
    from init_multisig_conserves [OF rt(2) init(3)] show ?thesis .
  next
    case create
    from init_proposal_conserves [OF rt(2) create_transaction_init(4) [OF create(3)]] show ?thesis .
  next
    case approve
    from votes_write [OF disjI1 [OF approve(3)]] show ?thesis by auto
  next
    case reject
    from votes_write [OF disjI2 [OF disjI1 [OF reject(3)]]] show ?thesis by auto
  next
    case cancel
    from votes_write [OF disjI2 [OF disjI2 [OF cancel(3)]]] show ?thesis by auto
  next
    case execute
    from execute_conserves [OF rt(2) spec execute(3)] d show ?thesis by (simp add: execute(1,2))
  next
    case close
    from close_transaction_conserves [OF spec(2) close(3)] d show ?thesis by (simp add: close(1,2))
  next
    case upload
    from buffer_create_conserves [OF rt(2) upload(3)] show ?thesis .
  next
    case extend
    then show ?thesis unfolding process_buffer_extend_def list.case handler_steps by auto
  next
    case (discard creator buf r)
    then have "close_buffer rt buf creator s = Inr s'"
      unfolding process_buffer_close_def list.case handler_steps by blast
    from close_buffer_conserves [OF spec(2) this] d show ?thesis by (simp add: discard(1,2))
  next
    case from_buffer
    from create_from_buffer_conserves [OF rt(2) spec(2) from_buffer(3)] d show ?thesis by (simp add: from_buffer(1,2))
  next
    case (config authority multisig r)
    then have "apply_config_action rt multisig authority payload False s = Inr s'"
      unfolding process_set_config_def list.case handler_steps by blast
    from config_action_conserves [OF rt(2) spec this] d show ?thesis by (simp add: config(1,2))
  qed
qed

end
