(* ===== verification/Winding_Up.thy ===== *)
theory Winding_Up
  imports Lamports Client
begin

text \<open>
  The end of a multisig's life: when its rent goes to its config authority, nothing it paid for is stuck. Finished proposals can be closed by anyone, one after
  another, and the configuration after the last of them; every lamport they held reaches the accounts the program
  names for it. Closing a configuration while proposals are left is what Bookkeeping rules out.
\<close>

section \<open>One proposal\<close>

text \<open>A finished proposal of the multisig, and who gets its rent.\<close>

definition finished :: "address \<Rightarrow> multisig \<Rightarrow> store \<Rightarrow> address \<Rightarrow> address \<Rightarrow> bool" where
  "finished ms c s t r \<longleftrightarrow> acc_owner (s t) = ID \<and>
     (\<exists>h v m. tx_load (data_ptr (s t)) (acc_data (s t)) = Inr (h, v, m) \<and> tx_multisig h = ms \<and>
        tx_status h \<in> {status_to_u8 Executed, status_to_u8 Rejected, status_to_u8 Cancelled} \<and>
        r = (if ms_rent_collector c = default_address then tx_creator h else ms_rent_collector c))"

definition emptied :: "store \<Rightarrow> address \<Rightarrow> bool" where
  "emptied s a \<longleftrightarrow> acc_data (s a) = [] \<and> lamports (s a) = 0 \<and> acc_owner (s a) = system_program"

abbreviation one_more_closed :: "multisig \<Rightarrow> multisig" where
  "one_more_closed c \<equiv> c\<lparr>ms_closed_transaction_count := ms_closed_transaction_count c + 1\<rparr>"

lemma one_more_closed_wf:
  assumes "ms_wf c os ps" "ms_closed_transaction_count c < ms_transaction_index c"
  shows "ms_wf (one_more_closed c) os ps"
    and "unat (ms_closed_transaction_count (one_more_closed c)) = Suc (unat (ms_closed_transaction_count c))"
proof -
  have "ms_closed_transaction_count c \<noteq> - 1" using assms(2) by (metis not_less word_n1_ge)
  then show n: "unat (ms_closed_transaction_count (one_more_closed c)) = Suc (unat (ms_closed_transaction_count c))"
    by (simp add: unat_add_1)
  then show "ms_wf (one_more_closed c) os ps"
    using assms by (auto simp: ms_wf_def ms_invariant_iff word_le_nat_alt word_less_nat_alt)
qed

lemma proposal_closes:
  assumes rt: "close_spec rt" "\<And>v t. \<exists>t'. rt_close rt v t = Inr t'"
    and ms: "ms_load (data_ptr (s ms)) (acc_data (s ms)) = Inr (c, os, ps)" "ms_wf c os ps" "acc_owner (s ms) = ID"
      "ms_closed_transaction_count c < ms_transaction_index c"
    and t: "finished ms c s t r" "t \<noteq> ms" "t \<noteq> r" and room: "unat (lamports (s r)) + unat (lamports (s t)) < 2 ^ 64"
  obtains s' where "submit rt (close_transaction t ms r) s = Inr s'"
    "ms_load (data_ptr (s' ms)) (acc_data (s' ms)) = Inr (one_more_closed c, os, ps)" "acc_owner (s' ms) = ID"
    "emptied s' t" "conserves s s'" "\<And>a. a \<notin> {t, r} \<Longrightarrow> lamports (s' a) = lamports (s a)"
    "\<And>a. a \<notin> {t, ms} \<Longrightarrow>
       acc_data (s' a) = acc_data (s a) \<and> acc_owner (s' a) = acc_owner (s a) \<and> data_ptr (s' a) = data_ptr (s a)"
proof -
  obtain h v m where own: "acc_owner (s t) = ID" and h: "tx_load (data_ptr (s t)) (acc_data (s t)) = Inr (h, v, m)"
      "tx_multisig h = ms" "tx_status h \<in> {status_to_u8 Executed, status_to_u8 Rejected, status_to_u8 Cancelled}"
      "r = (if ms_rent_collector c = default_address then tx_creator h else ms_rent_collector c)"
    using t(1) unfolding finished_def by blast
  obtain s' where run: "process_close_transaction rt ID [passed t True, passed ms True, passed r True] [] s = Inr s'"
    and ms': "ms_load (data_ptr (s' ms)) (acc_data (s' ms)) = Inr (one_more_closed c, os, ps)"
    and same: "\<And>a. a \<noteq> t \<Longrightarrow> a \<noteq> ms \<Longrightarrow>
       acc_data (s' a) = acc_data (s a) \<and> acc_owner (s' a) = acc_owner (s a) \<and> data_ptr (s' a) = data_ptr (s a)"
    by (rule close_transaction_accepts [where s = s and transaction = "passed t True" and multisig = "passed ms True"
        and destination = "passed r True" and remaining = "[]" and rt = rt and pid = ID and h = h and v = v and m = m
        and c = c and os = os and ps = ps]) (use own ms h t(2) room rt in auto)
  obtain s1 collector where count: "count_closure (passed ms True) s = Inr (s1, collector)"
    and close: "close_buffer rt (passed t True) (passed r True) s1 = Inr s'"
    by (rule close_transaction_run [OF run])
  have s1: "lamports (s1 a) = lamports (s a)" "acc_owner (s1 a) = acc_owner (s a)" for a
    using count by (auto simp: count_closure_Inr)
  have differ: "v_address (passed t True) \<noteq> v_address (passed r True)" using t(3) by simp
  note effect = close_buffer_effect [OF rt(1) close differ, unfolded view.simps]
  show thesis
  proof (rule that [of s'])
    show "submit rt (close_transaction t ms r) s = Inr s'" using run by (simp add: client_reaches_handlers)
    show "acc_owner (s' ms) = ID" using effect(5) [of ms] t(2) s1(2) ms(3) by simp
    show "emptied s' t" using effect(2-4) by (simp add: emptied_def)
    show "conserves s s'" using close_transaction_conserves [OF rt(1) run] t(3) by simp
    show "lamports (s' a) = lamports (s a)" if "a \<notin> {t, r}" for a using effect(6) [of a] that s1(1) by simp
  qed (use ms' same in auto)
qed

section \<open>All of them\<close>

lemma finished_kept:
  assumes "finished ms c s t r" "ms_rent_collector c' = ms_rent_collector c"
    and "acc_data (s' t) = acc_data (s t) \<and> acc_owner (s' t) = acc_owner (s t) \<and> data_ptr (s' t) = data_ptr (s t)"
  shows "finished ms c' s' t r"
  using assms by (simp only: finished_def)

lemma two_of_sum:
  assumes "finite A" "(\<Sum>a\<in>A. f a) < n" "a \<in> A" "b \<in> A" "a \<noteq> b" shows "f a + f b < (n :: nat)"
proof -
  have "(\<Sum>x\<in>{a, b}. f x) \<le> (\<Sum>x\<in>A. f x)" using assms by (intro sum_mono2) auto
  then show ?thesis using assms(2,5) by simp
qed

lemma proposals_close:
  assumes rt: "close_spec rt" "\<And>v t. \<exists>t'. rt_close rt v t = Inr t'"
    and A: "finite A" "fst ` set txs \<union> snd ` set txs \<subseteq> A"
  shows "ms_load (data_ptr (s ms)) (acc_data (s ms)) = Inr (c, os, ps) \<Longrightarrow> ms_wf c os ps \<Longrightarrow> acc_owner (s ms) = ID \<Longrightarrow>
    unat (ms_closed_transaction_count c) + length txs = unat (ms_transaction_index c) \<Longrightarrow>
    \<forall>(t, r) \<in> set txs. finished ms c s t r \<Longrightarrow> distinct (map fst txs) \<Longrightarrow> ms \<notin> fst ` set txs \<Longrightarrow>
    fst ` set txs \<inter> snd ` set txs = {} \<Longrightarrow> (\<Sum>a\<in>A. unat (lamports (s a))) < 2 ^ 64 \<Longrightarrow>
    \<exists>s'. fold_result (\<lambda>(t, r). submit rt (close_transaction t ms r)) txs s = Inr s' \<and>
      ms_load (data_ptr (s' ms)) (acc_data (s' ms))
        = Inr (c\<lparr>ms_closed_transaction_count := ms_transaction_index c\<rparr>, os, ps) \<and>
      acc_owner (s' ms) = ID \<and> (\<forall>t \<in> fst ` set txs. emptied s' t) \<and> conserves s s' \<and>
      (\<forall>a. a \<notin> fst ` set txs \<union> snd ` set txs \<longrightarrow> lamports (s' a) = lamports (s a)) \<and>
      (\<forall>a. a \<notin> insert ms (fst ` set txs) \<longrightarrow>
         acc_data (s' a) = acc_data (s a) \<and> acc_owner (s' a) = acc_owner (s a))"
  using A(2)
proof (induction txs arbitrary: s c)
  case Nil
  then have "c\<lparr>ms_closed_transaction_count := ms_transaction_index c\<rparr> = c" by (simp add: word_unat_eq_iff)
  with Nil show ?case by (simp add: conserves_same)
next
  case (Cons tr txs)
  obtain t r where tr: "tr = (t, r)" by force
  have less: "ms_closed_transaction_count c < ms_transaction_index c"
    using Cons.prems(4) by (simp add: word_less_nat_alt)
  have fin: "finished ms c s t r" "t \<noteq> ms" "t \<noteq> r" and "t \<in> A" "r \<in> A"
    using Cons.prems(5,7,8,10) by (auto simp: tr)
  then have room: "unat (lamports (s r)) + unat (lamports (s t)) < 2 ^ 64"
    using two_of_sum [OF A(1) Cons.prems(9)] by metis
  obtain s1 where run: "submit rt (close_transaction t ms r) s = Inr s1"
    and ms1: "ms_load (data_ptr (s1 ms)) (acc_data (s1 ms)) = Inr (one_more_closed c, os, ps)" "acc_owner (s1 ms) = ID"
    and gone: "emptied s1 t" and cons: "conserves s s1"
    and lam: "\<And>a. a \<notin> {t, r} \<Longrightarrow> lamports (s1 a) = lamports (s a)"
    and same: "\<And>a. a \<notin> {t, ms} \<Longrightarrow>
       acc_data (s1 a) = acc_data (s a) \<and> acc_owner (s1 a) = acc_owner (s a) \<and> data_ptr (s1 a) = data_ptr (s a)"
    by (rule proposal_closes [OF rt Cons.prems(1-3) less fin room]) (rule that; assumption)
  note more = one_more_closed_wf [OF Cons.prems(2) less]
  have total: "(\<Sum>a\<in>A. unat (lamports (s1 a))) < 2 ^ 64"
    using conserves_over [OF cons A(1)] lam Cons.prems(9) \<open>t \<in> A\<close> \<open>r \<in> A\<close> by force
  have others: "\<forall>(t', r') \<in> set txs. finished ms (one_more_closed c) s1 t' r'"
  proof (clarify)
    fix t' r' assume m: "(t', r') \<in> set txs"
    then have "t' \<in> fst ` set txs" by force
    then have away: "t' \<notin> {t, ms}" using Cons.prems(6,7) by (auto simp: tr)
    have "finished ms c s t' r'" using bspec [OF Cons.prems(5), of "(t', r')"] m by (simp add: tr)
    then show "finished ms (one_more_closed c) s1 t' r'"
      by (rule finished_kept) (use same [OF away] in simp_all)
  qed
  obtain s2 where IH: "fold_result (\<lambda>(t, r). submit rt (close_transaction t ms r)) txs s1 = Inr s2"
      "ms_load (data_ptr (s2 ms)) (acc_data (s2 ms)) = Inr (c\<lparr>ms_closed_transaction_count := ms_transaction_index c\<rparr>, os, ps)"
      "acc_owner (s2 ms) = ID" "\<forall>t \<in> fst ` set txs. emptied s2 t" "conserves s1 s2"
    and lam2: "\<forall>a. a \<notin> fst ` set txs \<union> snd ` set txs \<longrightarrow> lamports (s2 a) = lamports (s1 a)"
    and same2: "\<forall>a. a \<notin> insert ms (fst ` set txs) \<longrightarrow> acc_data (s2 a) = acc_data (s1 a) \<and> acc_owner (s2 a) = acc_owner (s1 a)"
    using Cons.IH [OF ms1(1) more(1) ms1(2) _ others _ _ _ total] Cons.prems(4,6-8,10) more(2) by (auto simp: tr)
  have "t \<notin> fst ` set txs \<union> snd ` set txs" "t \<notin> insert ms (fst ` set txs)"
    using Cons.prems(6-8) by (auto simp: tr)
  then have "emptied s2 t" using gone lam2 same2 by (simp add: emptied_def)
  then show ?case
    using IH run conserves_trans [OF cons IH(5)] lam lam2 same same2 by (simp add: tr)
qed

section \<open>And the configuration\<close>

lemma configuration_closes:
  assumes rt: "close_spec rt" "\<And>v t. \<exists>t'. rt_close rt v t = Inr t'"
    and ms: "ms_load (data_ptr (s ms)) (acc_data (s ms)) = Inr (c, os, ps)" "acc_owner (s ms) = ID"
      "ms_closed_transaction_count c = ms_transaction_index c"
    and authority: "ms_config_authority c = authority" "authority \<noteq> default_address" "authority \<noteq> ms"
      "ms_rent_collector c \<in> {default_address, authority}"
    and room: "unat (lamports (s authority)) + unat (lamports (s ms)) < 2 ^ 64"
  shows "\<exists>s'. submit rt (set_config authority ms action_CLOSE_MULTISIG []) s = Inr s' \<and> emptied s' ms \<and> conserves s s' \<and>
     (\<forall>a. a \<notin> {ms, authority} \<longrightarrow> s' a = s a)"
proof -
  obtain s' where close: "close_buffer rt (passed ms True) (signing authority True) s = Inr s'"
    by (rule close_buffer_accepts [of s "signing authority True" "passed ms True" rt]) (use room rt(2) in simp_all)
  have "close_multisig rt (passed ms True) (signing authority True) [] False s
      = close_buffer rt (passed ms True) (signing authority True) s"
    using ms authority(4) by (auto simp: close_multisig_def close_buffer_def all_transactions_closed_def)
  then have "submit rt (set_config authority ms action_CLOSE_MULTISIG []) s = Inr s'"
    using ms(1,2) authority(1,2) close
    by (simp add: client_reaches_handlers process_set_config_def is_controlled_def apply_config_action_def
        config_action_from_u8_def action_CLOSE_MULTISIG_def)
  moreover have differ: "v_address (passed ms True) \<noteq> v_address (signing authority True)" using authority(3) by simp
  note effect = close_buffer_effect [OF rt(1) close differ, unfolded view.simps]
  have "emptied s' ms" using effect(2-4) by (simp add: emptied_def)
  moreover have "conserves s s'" by (rule close_buffer_conserves [OF rt(1) close differ])
  ultimately show ?thesis using effect(6) by blast
qed

text \<open>C13: a multisig whose rent goes to its config authority can be wound up, and nothing is stuck in it. Take a controlled multisig with no
  rent collector set, or with the config authority as its rent collector, and all the proposals it has not
  closed, each Executed, Rejected or Cancelled, with the account the program names for its rent; none of the accounts to be closed
  receives rent, and the lamports of all of them together are below 2 to the 64. Anyone's client can
  close the proposals, one after another and in any order, and after the last one the config authority's client
  can close the configuration: every one of these calls succeeds. In the end all these accounts are empty and the
  system program's again, and the accounts that receive hold every lamport there was. With any other rent
  collector the authority cannot close the configuration, since closing pays the authority's own account (see C32).\<close>

theorem client_winds_up:
  assumes rt: "close_spec rt" "\<And>v t. \<exists>t'. rt_close rt v t = Inr t'"
    and ms: "ms_load (data_ptr (s ms)) (acc_data (s ms)) = Inr (c, os, ps)" "ms_wf c os ps" "acc_owner (s ms) = ID"
    and all: "unat (ms_closed_transaction_count c) + length proposals = unat (ms_transaction_index c)"
      "distinct (map fst proposals)" "\<forall>(tx, receiver) \<in> set proposals. finished ms c s tx receiver"
    and authority: "ms_config_authority c = authority" "authority \<noteq> default_address"
      "ms_rent_collector c \<in> {default_address, authority}"
    and apart: "insert ms (fst ` set proposals) \<inter> insert authority (snd ` set proposals) = {}" "ms \<notin> fst ` set proposals"
    and room: "(\<Sum>a \<in> {ms, authority} \<union> fst ` set proposals \<union> snd ` set proposals. unat (lamports (s a))) < 2 ^ 64"
  shows "\<exists>s1 s2. fold_result (\<lambda>(tx, receiver). submit rt (close_transaction tx ms receiver)) proposals s = Inr s1 \<and>
     submit rt (set_config authority ms action_CLOSE_MULTISIG []) s1 = Inr s2 \<and>
     (\<forall>a \<in> insert ms (fst ` set proposals).
        acc_data (s2 a) = [] \<and> lamports (s2 a) = 0 \<and> acc_owner (s2 a) = system_program) \<and>
     (\<Sum>a \<in> insert authority (snd ` set proposals). unat (lamports (s2 a)))
       = (\<Sum>a \<in> {ms, authority} \<union> fst ` set proposals \<union> snd ` set proposals. unat (lamports (s a)))"
proof -
  let ?T = "fst ` set proposals" and ?R = "snd ` set proposals"
  let ?A = "{ms, authority} \<union> ?T \<union> ?R" and ?c = "c\<lparr>ms_closed_transaction_count := ms_transaction_index c\<rparr>"
  have A: "finite ?A" "?T \<union> ?R \<subseteq> ?A" by auto
  have disjoint: "?T \<inter> ?R = {}" "authority \<noteq> ms" using apart(1) by auto
  obtain s1 where closed: "fold_result (\<lambda>(tx, receiver). submit rt (close_transaction tx ms receiver)) proposals s = Inr s1"
    and ms1: "ms_load (data_ptr (s1 ms)) (acc_data (s1 ms)) = Inr (?c, os, ps)" "acc_owner (s1 ms) = ID"
    and gone: "\<forall>t \<in> ?T. emptied s1 t" and cons: "conserves s s1"
    and others: "\<forall>a. a \<notin> ?T \<union> ?R \<longrightarrow> lamports (s1 a) = lamports (s a)"
    using proposals_close [OF rt A ms all(1,3,2) apart(2) disjoint(1) room] by blast
  have total: "(\<Sum>a\<in>?A. unat (lamports (s1 a))) = (\<Sum>a\<in>?A. unat (lamports (s a)))"
    using others by (intro conserves_over [OF cons A(1)]) auto
  then have room1: "unat (lamports (s1 authority)) + unat (lamports (s1 ms)) < 2 ^ 64"
    using room disjoint(2) by (intro two_of_sum [OF A(1)]) auto
  have "ms_closed_transaction_count ?c = ms_transaction_index ?c" "ms_config_authority ?c = authority"
    "ms_rent_collector ?c \<in> {default_address, authority}" using authority by simp_all
  then obtain s2 where last: "submit rt (set_config authority ms action_CLOSE_MULTISIG []) s1 = Inr s2"
    and gone2: "emptied s2 ms" and cons2: "conserves s1 s2" and same: "\<forall>a. a \<notin> {ms, authority} \<longrightarrow> s2 a = s1 a"
    using configuration_closes [OF rt ms1 _ _ authority(2) disjoint(2) _ room1] by blast
  have "s2 t = s1 t" if "t \<in> ?T" for t
  proof -
    have "t \<notin> {ms, authority}" using that apart by auto
    then show ?thesis using same by blast
  qed
  then have empty: "\<forall>a \<in> insert ms ?T. emptied s2 a" using gone gone2 by (simp add: emptied_def)
  have "(\<Sum>a\<in>insert authority ?R. unat (lamports (s2 a))) = (\<Sum>a\<in>?A. unat (lamports (s2 a)))"
    using empty by (intro sum.mono_neutral_left A(1)) (auto simp: emptied_def)
  also have "\<dots> = (\<Sum>a\<in>?A. unat (lamports (s1 a)))" using same by (intro conserves_over [OF cons2 A(1)]) auto
  also note total
  finally show ?thesis using closed last empty unfolding emptied_def by (intro exI conjI)
qed

end
