(* ===== verification/Kinds_Examples.thy ===== *)
theory Kinds_Examples
  imports Client_Examples Governance Winding_Up
begin

text \<open>
  The properties of \<open>Bookkeeping\<close> applied: from a store in which nothing of the program's exists, a multisig is
  established and makes a proposal, or is closed by its config authority.
\<close>

section \<open>From nothing\<close>

definition ex_empty :: store where "ex_empty = ex_unused 14 (ex_unused 12 (ex_store [] []))"

definition ex_fresh :: multisig where
  "ex_fresh = fresh_multisig (key 20) \<lparr>in_threshold = 2, in_owners_count = 3, in_bump = 255, in_pad = [0, 0, 0],
     in_config_authority = key 5\<rparr>"

lemma ex_fresh_bytes:
  "ms_encode (h\<lparr>ms_create_key := key 20, ms_config_authority := key 5, ms_rent_collector := key 0,
       ms_transaction_index := 0, ms_stale_transaction_index := 0, ms_closed_transaction_count := 0,
       ms_time_lock := 0, ms_owners_count := 3, ms_voter_count := 3, ms_threshold := 2, ms_bump := 255,
       ms_pad := 0\<rparr>) @ encode_array as_array ex_owners @ replicate 3 0 = ms_bytes ex_fresh ex_owners ex_masks"
  by (cases h) (simp add: ms_bytes_def ex_fresh_def fresh_multisig_def ex_masks_def numeral_3_eq_3)

definition ex_begun :: store where
  "ex_begun = set_data (ex_view 12) (ms_bytes ex_fresh ex_owners ex_masks)
     (ex_empty(key 1 := (ex_account [] (key 0))\<lparr>lamports := 99629\<rparr>,
       key 12 := \<lparr>lamports = 371, acc_data = replicate 243 0, acc_owner = ex_pid, data_ptr = 0\<rparr>))"

lemma ex_begun_simps [simp]:
  "ex_begun (key 12) = \<lparr>lamports = 371, acc_data = ms_bytes ex_fresh ex_owners ex_masks, acc_owner = ex_pid, data_ptr = 0\<rparr>"
  "ex_begun (key 1) = (ex_account [] (key 0))\<lparr>lamports := 99629\<rparr>"
  "ex_begun (key 5) = ex_account [] (key 0)"
  "ex_begun (key 14) = \<lparr>lamports = 0, acc_data = [], acc_owner = key 0, data_ptr = 0\<rparr>"
  by (simp_all add: ex_begun_def ex_empty_def set_data_def)

lemma ex_begin_run:
  "process_init_multisig (sim_runtime 100) ex_pid [ex_view 1, ex_view 20, ex_view 12, ex_view 0]
     ex_init_data ex_empty = Inr ex_begun"
  unfolding ex_begun_def ex_fresh_bytes [of "ms_decode (replicate 144 0)", symmetric]
  by (simp add: ex_empty_def process_init_multisig_def ex_init_fields ex_init_parts INIT_LEN_def MAX_OWNER_def Let_def ex_sorted
   ms_space_def MS_LEN_def sim_runtime_def sim_create_def sim_rent_def ex_zero_split split_at_mut_def copy_from_slice_def
   ms_invariant_def MAX_TIME_LOCK_def)

lemma ex_fresh_load [simp]:
  "ms_load 0 (ms_bytes ex_fresh ex_owners ex_masks) = Inr (ex_fresh, ex_owners, ex_masks)"
  by (simp add: ex_fresh_def ms_load_Inr ex_owners_def ex_masks_def fresh_multisig_def)

lemma ex_fresh_fields [simp]:
  "ms_transaction_index ex_fresh = 0" "ms_closed_transaction_count ex_fresh = 0" "ms_config_authority ex_fresh = key 5"
  "ms_owners_count ex_fresh = 3" "ms_rent_collector ex_fresh = key 0"
  by (simp_all add: ex_fresh_def fresh_multisig_def)

lemma ex_propose_run:
  "\<exists>s'. process_create_transaction (sim_runtime 100) ex_pid [ex_view 1, ex_view 12, ex_view 14, ex_view 0]
       ex_create_data ex_begun = Inr s'"
  by (simp add: process_create_transaction_def ex_create_data_def CREATE_LEN_def create_transaction_header_of_def
    init_proposal_def ex_parse reserve_index_def ex_eval Let_def checked_add_def tx_space_def TX_LEN_def len_for_def
    sim_create_def sim_rent_def ex_zero_split split_at_mut_def copy_from_slice_def set_lamports_def)

lemma ex_begun_close_run:
  "\<exists>s'. process_set_config (sim_runtime 100) ex_pid [ex_view 5, ex_view 12] [6] ex_begun = Inr s' \<and>
     acc_data (s' (key 12)) = []"
  by (simp add: process_set_config_def apply_config_action_def config_action_from_u8_def close_multisig_def Let_def
     ex_account_def is_controlled_def all_transactions_closed_def checked_add_def sim_runtime_def)

lemma ex_fresh_wf: "ms_wf ex_fresh ex_owners ex_masks"
  using ex_wf by (simp add: ms_wf_def ms_invariant_iff ex_fresh_def fresh_multisig_def)

lemma ex_begun_typed: "typed [key 12 \<mapsto> Configuration] ex_begun"
  by (simp add: typed_def has_kind_iff ex_fresh_wf ex_pid_def)

lemma ex_respects:
  "respects_kinds \<Gamma> [v1, v2, v3, v4] (0 # d)"
  "\<Gamma> (v_address v2) = Some Configuration \<Longrightarrow> respects_kinds \<Gamma> [v1, v2, v3, v4] (1 # d)"
  "\<Gamma> (v_address v2) = Some Configuration \<Longrightarrow> respects_kinds \<Gamma> [v1, v2] (11 # d)"
proof -
  have kinds: "(\<forall>k. P k) \<longleftrightarrow> P Configuration \<and> P Proposal \<and> P Upload" for P by (metis kind.exhaust)
  show "respects_kinds \<Gamma> [v1, v2, v3, v4] (0 # d)"
    "\<Gamma> (v_address v2) = Some Configuration \<Longrightarrow> respects_kinds \<Gamma> [v1, v2, v3, v4] (1 # d)"
    "\<Gamma> (v_address v2) = Some Configuration \<Longrightarrow> respects_kinds \<Gamma> [v1, v2] (11 # d)"
    by (simp_all add: respects_kinds_def kinds creates_def places)
qed

lemma ex_operates_begin: "operates [([ex_view 1, ex_view 20, ex_view 12, ex_view 0], 0 # ex_init_data)] [key 12 \<mapsto> Configuration] ex_begun"
proof -
  let ?acc = "[ex_view 1, ex_view 20, ex_view 12, ex_view 0]"
  have "process_instruction (sim_runtime 100) ID ?acc (0 # ex_init_data) ex_empty = Inr ex_begun"
    using ex_begin_run by (simp add: process_instruction_def ex_pid_def)
  moreover have "unnamed Map.empty ex_empty ?acc (0 # ex_init_data)"
    by (simp add: unnamed_def proposals_naming_def)
  ultimately have "operates ([] @ [(?acc, 0 # ex_init_data)]) (retyped ex_empty ?acc (0 # ex_init_data) Map.empty) ex_begun"
    by (intro operates.call [OF operates.start ex_runtime_ok ex_respects(1)])
  then show ?thesis by (simp add: retyped_def)
qed

lemma ex_propose_call:
  obtains s' where "process_instruction (sim_runtime 100) ID [ex_view 1, ex_view 12, ex_view 14, ex_view 0]
     (1 # ex_create_data) ex_begun = Inr s'"
  using ex_propose_run by (auto simp: process_instruction_def ex_pid_def)

theorem calls_keep_kinds_witness:
  "\<exists>s'. process_instruction (sim_runtime 100) ID [ex_view 1, ex_view 12, ex_view 14, ex_view 0]
       (1 # ex_create_data) ex_begun = Inr s' \<and>
     has_kind Configuration (s' (key 12)) \<and> has_kind Proposal (s' (key 14))"
proof -
  let ?acc = "[ex_view 1, ex_view 12, ex_view 14, ex_view 0]"
  obtain s' where run: "process_instruction (sim_runtime 100) ID ?acc (1 # ex_create_data) ex_begun = Inr s'"
    by (rule ex_propose_call)
  have "respects_kinds [key 12 \<mapsto> Configuration] ?acc (1 # ex_create_data)" by (rule ex_respects(2)) simp
  from calls_keep_kinds [OF ex_runtime_ok ex_begun_typed this run]
  have "typed [key 12 \<mapsto> Configuration, key 14 \<mapsto> Proposal] s'" by (simp add: retyped_def)
  with run show ?thesis by (simp add: typed_def)
qed

theorem counts_are_true_witness:
  "\<exists>log s' c os ps. operates log [key 12 \<mapsto> Configuration, key 14 \<mapsto> Proposal] s' \<and>
     ms_load (data_ptr (s' (key 12))) (acc_data (s' (key 12))) = Inr (c, os, ps) \<and>
     card (proposals_naming [key 12 \<mapsto> Configuration, key 14 \<mapsto> Proposal] s' (key 12)) +
       unat (ms_closed_transaction_count c) = unat (ms_transaction_index c)"
proof -
  let ?acc = "[ex_view 1, ex_view 12, ex_view 14, ex_view 0]"
  obtain s' where run: "process_instruction (sim_runtime 100) ID ?acc (1 # ex_create_data) ex_begun = Inr s'"
    by (rule ex_propose_call)
  have "respects_kinds [key 12 \<mapsto> Configuration] ?acc (1 # ex_create_data)" by (rule ex_respects(2)) simp
  moreover have "unnamed [key 12 \<mapsto> Configuration] ex_begun ?acc (1 # ex_create_data)" by (simp add: unnamed_def)
  ultimately have "operates ([([ex_view 1, ex_view 20, ex_view 12, ex_view 0], 0 # ex_init_data)] @ [(?acc, 1 # ex_create_data)])
      (retyped ex_begun ?acc (1 # ex_create_data) [key 12 \<mapsto> Configuration]) s'"
    by (rule operates.call [OF ex_operates_begin ex_runtime_ok _ _ run])
  then have op: "operates [([ex_view 1, ex_view 20, ex_view 12, ex_view 0], 0 # ex_init_data), (?acc, 1 # ex_create_data)] [key 12 \<mapsto> Configuration, key 14 \<mapsto> Proposal] s'"
    by (simp add: retyped_def)
  have "[key 12 \<mapsto> Configuration, key 14 \<mapsto> Proposal] (key 12) = Some Configuration" by simp
  from counts_are_true [OF op this] op show ?thesis by blast
qed

theorem closing_strands_nothing_witness:
  "\<exists>s'. process_instruction (sim_runtime 100) ID [ex_view 5, ex_view 12] [11, 6] ex_begun = Inr s' \<and>
     proposals_naming [key 12 \<mapsto> Configuration] ex_begun (key 12) = {}"
proof -
  obtain s' where run: "process_instruction (sim_runtime 100) ID [ex_view 5, ex_view 12] [11, 6] ex_begun = Inr s'"
    using ex_begun_close_run by (auto simp: process_instruction_def ex_pid_def)
  have "respects_kinds [key 12 \<mapsto> Configuration] [ex_view 5, ex_view 12] [11, 6]" by (rule ex_respects(3)) simp
  from closing_strands_nothing [OF ex_operates_begin this ex_runtime_ok run, of "key 12"] run show ?thesis
    by (simp add: retyped_def)
qed

theorem changes_need_signatures_witness:
  "\<exists>s'. process_instruction (sim_runtime 100) ID [ex_view 5, ex_view 12] [11, 6] ex_begun = Inr s' \<and>
     acc_data (s' (key 12)) = [] \<and> ms_config_authority ex_fresh = key 5"
proof -
  let ?acc = "[ex_view 5, ex_view 12]"
  obtain s' where run: "process_instruction (sim_runtime 100) ID ?acc [11, 6] ex_begun = Inr s'"
    and gone: "acc_data (s' (key 12)) = []"
    using ex_begun_close_run by (auto simp: process_instruction_def ex_pid_def)
  have "respects_kinds [key 12 \<mapsto> Configuration] ?acc [11, 6]" by (rule ex_respects(3)) simp
  moreover have "\<nexists>n k. ms_load (data_ptr (s' (key 12))) (acc_data (s' (key 12)))
       = Inr (ex_fresh\<lparr>ms_transaction_index := n, ms_closed_transaction_count := k\<rparr>, ex_owners, ex_masks)"
    using ms_load_nonempty gone by blast
  ultimately have "ms_config_authority ex_fresh = key 5"
    using changes_need_signatures [OF ex_operates_begin _ _ ex_runtime_ok _ run, of "key 12" ex_fresh ex_owners ex_masks]
    by auto
  with run gone show ?thesis by blast
qed

theorem lamports_conserved_witness:
  "\<exists>s'. process_instruction (sim_runtime 100) ID [ex_view 5, ex_view 12] [11, 6] ex_begun = Inr s' \<and>
     conserves ex_begun s'"
proof -
  obtain s' where run: "process_instruction (sim_runtime 100) ID [ex_view 5, ex_view 12] [11, 6] ex_begun = Inr s'"
    using ex_begun_close_run by (auto simp: process_instruction_def ex_pid_def)
  have "receiver_differs [ex_view 5, ex_view 12] [11, 6]" by (simp add: receiver_differs_def)
  from lamports_conserved [OF ex_runtime_ok sim_runtime_balanced run this] run show ?thesis by blast
qed

section \<open>Winding up\<close>

definition ex_last :: store where
  "ex_last = (ex_client_store (ex_proposal_bytes Executed 2 0 3 0))
     (key 10 := ex_account (ms_bytes (ex_config\<lparr>ms_transaction_index := 2\<rparr>) ex_owners ex_masks) ID,
      key 12 := ex_account (ex_proposal_bytes Rejected 0 2 0 3) ID)"

theorem client_winds_up_witness:
  "\<exists>s1 s2. fold_result (\<lambda>(tx, receiver). submit (sim_runtime 100) (close_transaction tx (key 10) receiver))
       [(key 11, key 1), (key 12, key 1)] ex_last = Inr s1 \<and>
     submit (sim_runtime 100) (set_config (key 5) (key 10) action_CLOSE_MULTISIG []) s1 = Inr s2 \<and>
     (\<forall>a \<in> insert (key 10) (fst ` set [(key 11, key 1), (key 12, key 1)]).
        acc_data (s2 a) = [] \<and> lamports (s2 a) = 0 \<and> acc_owner (s2 a) = system_program) \<and>
     (\<Sum>a \<in> insert (key 5) (snd ` set [(key 11, key 1), (key 12, key 1)]). unat (lamports (s2 a)))
       = (\<Sum>a \<in> {key 10, key 5} \<union> fst ` set [(key 11, key 1), (key 12, key 1)] \<union> snd ` set [(key 11, key 1), (key 12, key 1)].
            unat (lamports (ex_last a)))"
proof -
  let ?c = "ex_config\<lparr>ms_transaction_index := 2\<rparr>" and ?txs = "[(key 11, key 1), (key 12, key 1)]"
  have closes: "\<exists>t'. rt_close (sim_runtime 100) v t = Inr t'" for v t by (simp add: sim_runtime_def)
  have at: "ex_last (key 10) = ex_account (ms_bytes ?c ex_owners ex_masks) ID"
    "ex_last (key 11) = ex_account (ex_proposal_bytes Executed 2 0 3 0) ID"
    "ex_last (key 12) = ex_account (ex_proposal_bytes Rejected 0 2 0 3) ID"
    "lamports (ex_last (key 1)) = 100000" "lamports (ex_last (key 5)) = 0"
    by (simp_all add: ex_last_def ex_client_store_def ex_account_def)
  have ms: "ms_load (data_ptr (ex_last (key 10))) (acc_data (ex_last (key 10))) = Inr (?c, ex_owners, ex_masks)"
    "ms_wf ?c ex_owners ex_masks" "acc_owner (ex_last (key 10)) = ID"
    using ex_wf by (simp_all add: at ex_new_config_load) (auto simp: ms_wf_def ms_invariant_iff)
  have "finished (key 10) ?c ex_last (key 11) (key 1)" "finished (key 10) ?c ex_last (key 12) (key 1)"
    unfolding finished_def by (simp_all add: at ex_proposal_load)
  then have all: "unat (ms_closed_transaction_count ?c) + length ?txs = unat (ms_transaction_index ?c)"
    "distinct (map fst ?txs)" "\<forall>(tx, receiver) \<in> set ?txs. finished (key 10) ?c ex_last tx receiver"
    by simp_all
  have authority: "ms_config_authority ?c = key 5" "key 5 \<noteq> default_address"
    "ms_rent_collector ?c \<in> {default_address, key 5}"
    by simp_all
  have apart: "insert (key 10) (fst ` set ?txs) \<inter> insert (key 5) (snd ` set ?txs) = {}" "key 10 \<notin> fst ` set ?txs"
    by simp_all
  have room: "(\<Sum>a \<in> {key 10, key 5} \<union> fst ` set ?txs \<union> snd ` set ?txs. unat (lamports (ex_last a))) < 2 ^ 64"
    by (simp add: at)
  show ?thesis
    by (rule client_winds_up [OF sim_runtime_specs(3) closes ms all authority apart room])
qed

end
