(* ===== verification/Spec2Isabelle.thy ===== *)
theory Spec2Isabelle
  imports Client_Examples Kinds_Examples
begin

text \<open>
  A model of the Solana multisig program under src/src, with the theorems that make it correct.

  The program. A multisig account (state/multisig.rs) holds a configuration: up to 4096 owners in
  ascending order, a permission mask for each, a threshold, a time lock. An owner proposes a
  compiled message (state/message.rs), stored in a proposal account with three vote bitmaps
  (state/transaction.rs, state/bitmap.rs); owners approve, reject or cancel
  (instruction/vote.rs, approve.rs, reject.rs, cancel.rs); an approved proposal is executed
  (execute.rs), each inner instruction being either a call into another program signed by the
  multisig's vault or a change of the configuration itself (config_action.rs, also reached
  without a vote through set_config.rs). Long messages are uploaded in chunks to a buffer account
  (state/buffer.rs, buffer.rs, create_from_buffer.rs). Finished proposals are closed
  (close_transaction.rs). entrypoint.rs dispatches.

  The theories, in the order of their imports.
    Prelude: machine integers, results, slices, insertion and removal, ascending lists.
    Bytes: little-endian integers, checked arithmetic, in-place moves, arrays of fixed-width
      encodings (locale codec).
    Address: 32-byte addresses with their order.
    Errors: error.rs; errors as values, panics as the value Panicked, loops with early return.
    Runtime: accounts, views, the store, helper.rs, and the record of the functions that are not
      under src/ (rent, clock, account creation, transfer, resize, close, cross-program call,
      SHA-256, address derivation) with the predicates that state their documented behaviour.
    Bitmap: bitmap.rs and the locale vote_set, which it interprets.
    Owner_Search: the standard library's binary search, with its comparisons counted, and the locale ordered_search.
    Multisig_State, Transaction_State, Buffer_State: the three kinds of accounts, their byte layouts
      and rules; the locale account_layout is what they share.
    Cursor, Message: the cursor, the iterators (locales item_stream and item_loop), the parser.
    Init, Create, Buffer_Ops, Create_From_Buffer, Vote, Close_Transaction, Config, Execute: one theory
      per instruction or group of instructions, each with the handler as one definition that
      follows the source step by step, the guards a success passes, and its properties.
    Owner_Changes, Config_Changes: the properties of the actions that Config defines, of the owner set and of the rest.
    Entrypoint: the dispatch.
    Ballot: what voting promises, without bytes: a step relation on ballots, its invariant,
      termination and absence of deadlock, proved once in the locale electorate.
    Proposal_Life: the handlers refine the ballot; the meaning of a proposal's status from its
      creation on, through any interleaving.
    Client: the off-chain builders of client.rs; the message, the accounts of an execution and the
      payloads they write are what the parser, the account checks and the handlers read.
    Opening: the calls that open an account, for a proposal or a buffer, succeed, with the exact store afterwards.
    Establish: so does the call that creates a multisig.
    Upload: a message sent to a buffer in chunks becomes a proposal.
    Progress: when votes are accepted; what an owner can bring about through the client's builders,
      from the proposal through its approvals to its execution, with each call succeeding.
    Frames: which accounts each handler leaves alone.
    Config_Moves: how a configuration moves through creations, closings, configuration actions and executions.
    Staleness: a configuration change leaves an Approved proposal executable and takes the vote to cancel it away.
    History: any sequence of calls of the program, with any accounts and data, failing calls and other
      programs between them, is a life of the proposal in the sense of Proposal_Life.
    Decisions: every vote and execution of a history is one step of the proposal's ballot; so a proposal executes
      once, an owner decides once, and an open proposal can always be approved by the voters who are left.
    Ledger: what the counters of a configuration promise, without bytes: a step relation on ledgers and its
      invariant.
    Account_Kinds: the kind each account was created with, kept beside the store; what a call that respects
      the kinds is, and the ledger of a typed store.
    Bookkeeping: every instruction keeps the kinds and is a step of the ledger; hence the counts are true and
      closing a configuration strands nothing.
    Authority: only the config authority or an approved proposal's execution changes a configuration's owners
      and settings.
    Governance: every change of a configuration was signed for.
    Lamports: no instruction makes or destroys lamports.
    Winding_Up: finished proposals and then the configuration can be closed, and every lamport is paid out.
    Confusion: what follows from the accounts carrying no tag of their kind: an upload buffer that
      passes for a proposal or for a configuration, a configuration that passes for a buffer.
    Examples, Client_Examples, Kinds_Examples: a concrete multisig, proposal, buffer, lookup table, message and
      runtime; every property applied to them.

  Correspondence. A handler takes the runtime record, the program id, the list of account views and
  the instruction bytes, and turns a store into a new store or an error; Solana discards what a
  failing instruction wrote, so an error carries no store. Two views of one address share one
  account of the store. A header is a record of words at their width, the account is its bytes,
  and reading it gives the header and the rest exactly when the length and the alignment checks of the
  source pass. A write through a reference is the new bytes of the account. Integers wrap where the
  release profile wraps them. Recursion is structural or has a measure; no fuel is used anywhere.

  What the groups of lemmas show. Layouts: reading accepts exactly the encodings. Message: the
  parser accepts exactly the encodings of valid messages. Handlers: what a successful call checked
  and what it changed, on every branch; the program never panics on any input. Configuration:
  the owners and masks change as a map does, and every change but closing makes earlier proposals
  stale. Voting: one vote per owner, statuses latch at the threshold and at the exact cutoff; a
  status is true of the votes of the electorate the proposal was created under.

  Client: what the builders write is what the program reads, and a message passes the checks of the
  program exactly when its indexes and privilege groups do. Progress: the guards of the votes are exact,
  an honest client's calls succeed when rent, clock and address derivation do, and an approved proposal
  runs its own instructions; only an inner instruction can still fail. In particular the owners can always
  change their own configuration: proposing, approving and executing an edit the program accepts succeeds
  and leaves exactly the edited configuration (owners_can_configure). A multisig can be established
  (client_establishes), and what that leaves is what the theorems on proposals ask for; a message cut into chunks in any
  way can be uploaded and proposed (client_upload_proposes), at the cost of the proposal's rent alone.

  History: an execution needs the signatures of at least threshold owners on this very proposal, whatever
  calls were made since its creation. The calls are restricted in one way (regular): neither the proposal nor its
  configuration is passed for an account of another kind, and neither is closed; Confusion shows that
  the first restriction is needed. Other programs may do anything between the calls but change the accounts
  the program owns (foreign), which is what the runtime guarantees.

  Decisions: under the same restrictions the calls that vote on a proposal or execute it are a run of its ballot, one
  step each (history_run), and no other call touches it. For a single execution less is needed: the history must
  not close the proposal nor pass it for an account of another kind.

  Kinds: a call that passes accounts where their kinds are expected keeps every account of the program well formed
  for its kind, and is regular for every configuration and proposal that it does not close (respects_regular).
  Ledger: whatever is called in this way from nothing on, made less closed is the number of proposals
  that exist under a configuration, and a configuration goes only when none exists but the one that closes it. Two
  restrictions are needed that the program does not check: that every call respects the kinds (Confusion has a
  buffer counted as a closed proposal) and that no configuration is established at an address a proposal
  still names (unnamed; leftover_is_counted shows what happens otherwise). Both are part of operates, and so
  of every property stated over it.

  Authority: what is not authorised in one of two ways (authorised) leaves every setting of every configuration
  of a typed store. Governance: in the program's life from when nothing of its existed (operates, with its two
  restrictions), every proposal under a
  configuration comes from a call of the log, so a call that changes a configuration is its config authority's or
  was approved by at least threshold of the owners. Lamports: the sums agree before and after every instruction (conserves), given that the calls
  into other programs keep them (calls_balanced), except where one account would pay itself (receiver_differs),
  which the runtime then refuses. Winding_Up: once its proposals are finished and accounted for (counts_are_true,
  under its restrictions), a controlled multisig whose rent goes to its config authority can be closed down to the last lamport.

  Not modelled. Pubkey::find_program_address is not under src/ and is a parameter (derive) with its
  documented promise; module lists, re-exports, integration tests and benchmarks have no behaviour
  to model. The BPF entry point macros, the allocator and the panic handler; compute budget;
  the runtime's own checks of writability and of the balance of lamports at the end of an
  instruction (they can only make more calls fail); the re-reading of the message bytes while the
  instructions run, which the model reads once because nothing writes them.
\<close>

section \<open>Properties that span components\<close>

text \<open>Whatever succeeds on a well-formed proposal, an approval, a rejection, a cancellation or an
  execution, leaves its status where it was or moves it along a transition the documentation of
  the status allows; a finished proposal accepts none of them.\<close>

lemma status_transitions:
  assumes rt: "runtime_ok pid rt" and differ: "v_address transaction \<noteq> v_address multisig"
    and ms: "ms_load (ptr_of s multisig) (data_of s multisig) = Inr (c, os, ps)" "ms_wf c os ps"
    and tx: "tx_load (ptr_of s transaction) (data_of s transaction) = Inr (h, v, m)" "tx_wf h v m"
    and run: "process_approve rt pid (signer # multisig # transaction # remaining) instr s = Inr s' \<or>
       process_reject pid (signer # multisig # transaction # remaining) instr s = Inr s' \<or>
       process_cancel pid (signer # multisig # transaction # remaining) instr s = Inr s' \<or>
       process_execute rt pid (signer # multisig # transaction # remaining) instr s = Inr s'"
  shows "\<exists>h' v' old new. tx_load (ptr_of s' transaction) (data_of s' transaction) = Inr (h', v', m) \<and>
     tx_status h = status_to_u8 old \<and> tx_status h' = status_to_u8 new \<and>
     old \<in> {Active, Approved} \<and> (new = old \<or> status_step old new)"
proof -
  obtain h' v' where l: "tx_load (ptr_of s' transaction) (data_of s' transaction) = Inr (h', v', m)"
    and wf: "tx_wf h' v' m"
    and step: "ballot_step (voter_set os ps) (unat (ms_threshold c)) (ballot_of os h v) (ballot_of os h' v')"
    using vote_or_execute_refines [OF rt differ ms tx run] by blast
  have st: "\<exists>x. tx_status k = status_to_u8 x" if "tx_wf k w n" for k w n
    using that by (simp add: tx_wf_def tx_invariant_iff)
  obtain old new where o: "tx_status h = status_to_u8 old" and n: "tx_status h' = status_to_u8 new"
    using st [OF tx(2)] st [OF wf] by blast
  have b: "b_status (ballot_of os h v) = old" "b_status (ballot_of os h' v') = new"
    unfolding ballot_of_simps o n by simp_all
  have "new = old \<or> status_step old new" using ballot_step_status [OF step] unfolding b .
  moreover have "old \<in> {Active, Approved}" using step by cases (simp_all add: b(1) [symmetric])
  ultimately show ?thesis using l o n by blast
qed

text \<open>C39: the three kinds of accounts are read exactly when their bytes are the layout of some header
  and tail of the lengths the header announces, at an address of the right alignment, and what is
  read is that header and that tail: writing and reading are inverse, and no other length,
  truncated or extended, is accepted.\<close>

theorem accounts_round_trip:
  "(ms_load p d = Inr (c, os, ps) \<longleftrightarrow>
     8 dvd p \<and> d = ms_bytes c os ps \<and>
     length os = unat (ms_owners_count c) \<and> length ps = unat (ms_owners_count c)) \<and>
   (tx_load p d = Inr (h, v, m) \<longleftrightarrow>
     8 dvd p \<and> d = tx_bytes h v m \<and> votes_fit h v \<and> length m = unat (tx_message_len h)) \<and>
   (buf_load p d = Inr (b, region) \<longleftrightarrow>
     4 dvd p \<and> d = buf_bytes b region \<and> length region = unat (buf_final_size b))"
  by (intro conjI ms_load_Inr tx_load_Inr buf_load_Inr)

text \<open>A call with a foreign program id, without data or with an unknown instruction byte is refused
  before any account is looked at, with the runtime's own error codes; the program's error codes are the
  positions of its errors in their declaration, so no two errors share one.\<close>

lemma dispatch_errors:
  "(program_id \<noteq> ID \<longrightarrow>
      process_instruction rt program_id accounts data s = Inl (Failed IncorrectProgramId)) \<and>
   process_instruction rt ID accounts [] s = Inl (Failed BadInstructionData) \<and>
   (11 < tag \<longrightarrow> process_instruction rt ID accounts (tag # payload) s = Inl (Failed BadInstructionData)) \<and>
   all_errors ! unat (discriminant e) = e \<and> (discriminant e = discriminant e' \<longleftrightarrow> e = e')"
  by (auto simp: process_instruction_def all_errors_discriminant)

section \<open>Concrete instances\<close>

lemma status_transitions_instance:
  "\<exists>s' h' v' new. process_approve (sim_runtime 100) ex_pid [ex_view 2, ex_view 10, ex_view 11] []
       (ex_store ex_config_bytes (ex_proposal_bytes Active 1 0 1 0)) = Inr s' \<and>
     tx_load (ptr_of s' (ex_view 11)) (data_of s' (ex_view 11)) = Inr (h', v', ex_message) \<and>
     tx_status h' = status_to_u8 new \<and> (new = Active \<or> status_step Active new)"
proof -
  obtain s' where run: "process_approve (sim_runtime 100) ex_pid [ex_view 2, ex_view 10, ex_view 11] []
       (ex_store ex_config_bytes (ex_proposal_bytes Active 1 0 1 0)) = Inr s'"
    using ex_approve_run by blast
  have "v_address (ex_view 11) \<noteq> v_address (ex_view 10)" by simp
  from status_transitions [OF ex_runtime_ok this ex_loads(1) ex_wf ex_loads(2) ex_proposal_wf(2) disjI1 [OF run]]
  obtain h' v' old new where
      l: "tx_load (ptr_of s' (ex_view 11)) (data_of s' (ex_view 11)) = Inr (h', v', ex_message)"
    and o: "tx_status (ex_proposal Active 1 0) = status_to_u8 old"
    and n: "tx_status h' = status_to_u8 new" "new = old \<or> status_step old new"
    by blast
  have "old = Active" using o by (simp only: ex_proposal_fields status_to_u8_inject)
  with run l n show ?thesis by blast
qed

lemma dispatch_errors_instance:
  "key 1 \<noteq> ID \<and>
   process_instruction (sim_runtime 0) (key 1) [] [] (ex_store [] []) = Inl (Failed IncorrectProgramId) \<and>
   process_instruction (sim_runtime 0) ID [] (12 # []) (ex_store [] []) = Inl (Failed BadInstructionData)"
proof -
  have "hd (as_array ID) = 52" by (simp add: ID_def as_array_new_from_array)
  moreover have "hd (as_array (key 1)) \<noteq> 52" by simp
  ultimately have "key 1 \<noteq> ID" by metis
  then show ?thesis using dispatch_errors [of "key 1" "sim_runtime 0" "[]" "[]" "ex_store [] []" 12 "[]"] by simp
qed

end
